(* ===== verification/Flynn_Prelude.thy ===== *)
theory Flynn_Prelude
  imports Main "HOL-Library.Word"
begin

unbundle bit_operations_syntax

text \<open>
  Shared vocabulary of the development: Go's machine types, error results, and the generic
  lemmas and interfaces that the component theories build on.

  \<^item> \<open>byte\<close> and \<open>bytes\<close> are Go's \<open>uint8\<close> and \<open>[]byte\<close>; Go strings, which are byte
    sequences too, are HOL strings (a \<open>char\<close> is one byte).
  \<^item> A Go function that returns \<open>(T, error)\<close> is a function into \<open>'e + 'a\<close>: \<open>Inl e\<close> is the
    non-nil error, \<open>Inr x\<close> the value. A Go function that returns only an \<open>error\<close> is a
    function into \<open>'e option\<close>, with \<open>None\<close> for nil.
  \<^item> \<open>guarded_machine\<close> is the interface of every component that keeps state and handles one
    event at a time; its client lemmas lift one-step facts to whole runs.
\<close>

type_synonym byte = "8 word"
type_synonym bytes = "byte list"
type_synonym u16 = "16 word"
type_synonym u32 = "32 word"
type_synonym u64 = "64 word"

named_theorems codec_simps \<open>rewrite rules for byte-level encoders and decoders\<close>
named_theorems outcome_simps \<open>rewrite rules for error results and host interactions\<close>

section \<open>Strings and bytes\<close>

definition bytes_of_string :: "string \<Rightarrow> bytes" where
  "bytes_of_string s = map (\<lambda>c. of_nat (of_char c)) s"

definition string_of_bytes :: "bytes \<Rightarrow> string" where
  "string_of_bytes bs = map (\<lambda>b. char_of (unat b)) bs"

lemma length_bytes_of_string [simp]: "length (bytes_of_string s) = length s"
  by (simp add: bytes_of_string_def)

lemma length_string_of_bytes [simp]: "length (string_of_bytes b) = length b"
  by (simp add: string_of_bytes_def)

lemma bytes_of_string_Nil [simp]: "bytes_of_string s = [] \<longleftrightarrow> s = []"
  by (simp add: bytes_of_string_def)

lemma string_of_bytes_inverse [simp]: "string_of_bytes (bytes_of_string s) = s"
proof -
  have "char_of (unat (of_nat (of_char c) :: byte)) = c" for c :: char
    by (simp add: unat_of_nat)
  then show ?thesis
    by (simp add: string_of_bytes_def bytes_of_string_def comp_def)
qed

section \<open>Error results\<close>

text \<open>Go's \<open>fmt.Errorf("...: %w", err)\<close>: the error is wrapped, the value untouched.\<close>

fun wrap_error :: "('e \<Rightarrow> 'f) \<Rightarrow> 'e + 'a \<Rightarrow> 'f + 'a" where
  "wrap_error w (Inl e) = Inl (w e)"
| "wrap_error w (Inr x) = Inr x"

lemma wrap_error_Inr [simp]: "wrap_error w r = Inr x \<longleftrightarrow> r = Inr x"
  by (cases r) auto

lemma wrap_error_Inl [simp]: "wrap_error w r = Inl f \<longleftrightarrow> (\<exists>e. r = Inl e \<and> f = w e)"
  by (cases r) auto

section \<open>Arithmetic on words and bits\<close>

lemma int_or_push_bit:
  fixes v x :: int
  assumes "0 \<le> v" and "v < 2 ^ k"
  shows "v OR push_bit k x = v + 2 ^ k * x"
proof -
  have "v AND push_bit k x = 0"
  proof (rule bit_eqI)
    fix n
    have "\<not> bit v n" if "k \<le> n"
    proof -
      from assms that have "v < 2 ^ n"
        by (meson order_less_le_trans power_increasing one_le_numeral)
      with assms(1) have "v div 2 ^ n = 0"
        by simp
      then show ?thesis
        by (simp add: bit_iff_odd)
    qed
    then show "bit (v AND push_bit k x) n \<longleftrightarrow> bit (0 :: int) n"
      by (auto simp: bit_and_iff bit_push_bit_iff)
  qed
  then have "v OR push_bit k x = v + push_bit k x"
    by (rule disjunctive_add_eq_or [symmetric])
  then show ?thesis
    by (simp add: push_bit_eq_mult mult.commute)
qed

lemma byte_low7 [codec_simps]: "uint ((b :: byte) AND 0x7f) = uint b mod 128"
proof -
  have "b AND 0x7f = take_bit 7 b"
    by (simp add: take_bit_eq_mask mask_eq_exp_minus_1)
  then show ?thesis
    by (simp only: unsigned_take_bit_eq) (simp add: take_bit_eq_mod)
qed

lemma uint_byte_bounds: "uint (b :: byte) < 256" "uint (b :: byte) \<le> 255"
  using uint_lt2p [of b] by auto

lemma unat_byte_less: "unat (b :: byte) < 256"
  using unsigned_less [of b] by simp

lemma byte_high_bit [codec_simps]: "(b :: byte) AND 0x80 = 0 \<longleftrightarrow> uint b < 128"
proof -
  have "uint (b AND 0x80) = uint b AND 128"
    by (simp add: unsigned_and_eq)
  also have "\<dots> = uint b AND 2 ^ 7"
    by simp
  also have "\<dots> = (if bit (uint b) 7 then 2 ^ 7 else 0)"
    by (rule bit_eqI) (auto simp only: bit_and_iff bit_exp_iff bit_0_eq bot_apply bot_bool_def split: if_splits)
  finally have "(uint (b AND 0x80) = 0) = (\<not> bit (uint b) 7)"
    by (simp only:) simp
  then have "(b AND 0x80 = 0) = (\<not> bit (uint b) 7)"
    by (simp only: unsigned_eq_0_iff)
  also have "\<dots> = even (uint b div 2 ^ 7)"
    by (simp add: bit_iff_odd)
  also have "\<dots> = (uint b < 128)"
  proof -
    have "even (n div 128) = (n < 128)" if "0 \<le> n" "n < 256" for n :: int
      using that by (cases "n < 128") (simp_all add: div_pos_geq)
    from this [of "uint b"] uint_byte_bounds(1) [of b] show ?thesis by simp
  qed
  finally show ?thesis .
qed

section \<open>Machines that handle one event at a time\<close>

text \<open>
  A component that owns some state and handles one request at a time: \<open>handle\<close> is its step,
  \<open>inv\<close> what it keeps true of its state.
\<close>

locale guarded_machine =
  fixes handle :: "'e \<Rightarrow> 's \<Rightarrow> 's"
    and inv :: "'s \<Rightarrow> bool"
  assumes inv_handle: "inv s \<Longrightarrow> inv (handle e s)"
begin

lemma inv_run: "inv s \<Longrightarrow> inv (fold handle es s)"
  by (induction es arbitrary: s) (auto intro: inv_handle)

lemma frame_run:
  assumes "inv s" and "\<And>e s. inv s \<Longrightarrow> f (handle e s) = f s"
  shows "f (fold handle es s) = f s"
  using assms(1) by (induction es arbitrary: s) (auto simp: assms(2) inv_handle)

end

end
