(* ===== verification/Go_Strings.thy ===== *)
theory Go_Strings
  imports Flynn_Prelude
begin

text \<open>
  The parts of Go's standard library on byte strings that several components use:
  \<open>strings.TrimSpace\<close>/\<open>bytes.TrimSpace\<close>, \<open>strings.HasPrefix\<close>, \<open>strings.HasSuffix\<close>,
  \<open>strings.Contains\<close>, \<open>strconv.FormatUint\<close> in base ten and the standard base64 alphabet
  (\<open>encoding/base64.StdEncoding\<close>), with the round trip that the host protocol relies on.
\<close>

section \<open>White space\<close>

text \<open>
  The UTF-8 encodings of the characters \<open>unicode.IsSpace\<close> accepts: tab to carriage return and
  space, U+0085, U+00A0, U+1680, U+2000 to U+200A, U+2028, U+2029, U+202F, U+205F, U+3000.
\<close>

definition space_encodings :: "nat list list" where
  "space_encodings =
     [[9], [10], [11], [12], [13], [32], [0xC2, 0x85], [0xC2, 0xA0], [0xE1, 0x9A, 0x80],
      [0xE2, 0x80, 0x80], [0xE2, 0x80, 0x81], [0xE2, 0x80, 0x82], [0xE2, 0x80, 0x83],
      [0xE2, 0x80, 0x84], [0xE2, 0x80, 0x85], [0xE2, 0x80, 0x86], [0xE2, 0x80, 0x87],
      [0xE2, 0x80, 0x88], [0xE2, 0x80, 0x89], [0xE2, 0x80, 0x8A], [0xE2, 0x80, 0xA8],
      [0xE2, 0x80, 0xA9], [0xE2, 0x80, 0xAF], [0xE2, 0x81, 0x9F], [0xE3, 0x80, 0x80]]"

definition space_prefix :: "nat list list \<Rightarrow> nat list \<Rightarrow> nat" where
  "space_prefix encs bs =
     (case find (\<lambda>e. take (length e) bs = e) encs of None \<Rightarrow> 0 | Some e \<Rightarrow> length e)"

function trim_with :: "nat list list \<Rightarrow> nat list \<Rightarrow> nat list" where
  "trim_with encs bs =
     (let n = space_prefix encs bs in
      if 0 < n \<and> bs \<noteq> [] then trim_with encs (drop n bs) else bs)"
  by pat_completeness auto
termination
  by (relation "measure (\<lambda>(_, bs). length bs)") auto

declare trim_with.simps [simp del]

definition trim_codes :: "nat list \<Rightarrow> nat list" where
  "trim_codes bs =
     rev (trim_with (map rev space_encodings) (rev (trim_with space_encodings bs)))"

definition TrimSpace :: "string \<Rightarrow> string" where
  "TrimSpace s = map char_of (trim_codes (map of_char s))"

definition trim_bytes :: "bytes \<Rightarrow> bytes" where
  "trim_bytes b = map of_nat (trim_codes (map unat b))"

section \<open>Searching and formatting\<close>

definition HasPrefix :: "string \<Rightarrow> string \<Rightarrow> bool" where
  "HasPrefix s p \<longleftrightarrow> take (length p) s = p"

definition HasSuffix :: "string \<Rightarrow> string \<Rightarrow> bool" where
  "HasSuffix s p \<longleftrightarrow> length p \<le> length s \<and> drop (length s - length p) s = p"

fun Contains :: "string \<Rightarrow> string \<Rightarrow> bool" where
  "Contains [] p \<longleftrightarrow> p = []"
| "Contains (c # s) p \<longleftrightarrow> HasPrefix (c # s) p \<or> Contains s p"

fun FormatUint :: "nat \<Rightarrow> string" where
  "FormatUint n =
     (if n < 10 then [char_of (48 + n)] else FormatUint (n div 10) @ [char_of (48 + n mod 10)])"

declare FormatUint.simps [simp del]

lemma Contains_iff: "Contains s p \<longleftrightarrow> (\<exists>a b. s = a @ p @ b)"
proof (induction s)
  case (Cons c s)
  have "HasPrefix (c # s) p \<longleftrightarrow> (\<exists>b. c # s = p @ b)"
    unfolding HasPrefix_def by (metis append_eq_conv_conj append_take_drop_id)
  with Cons show ?case by (auto simp: Cons_eq_append_conv)
qed simp

text \<open>Decimal numerals are injective: no two session ids of one prefix coincide.\<close>

definition digit_value :: "char \<Rightarrow> nat" where
  "digit_value c = of_char c - 48"

lemma FormatUint_value: "foldl (\<lambda>v c. 10 * v + digit_value c) 0 (FormatUint n) = n"
proof (induction n rule: FormatUint.induct)
  case (1 n)
  have d: "digit_value (char_of (48 + k :: nat)) = k" if "k < 10" for k
    using that by (simp add: digit_value_def)
  show ?case
  proof (cases "n < 10")
    case True
    then show ?thesis using d [OF True] by (simp add: FormatUint.simps [of n])
  next
    case False
    then show ?thesis using "1" d [of "n mod 10"] by (simp add: FormatUint.simps [of n])
  qed
qed

lemma FormatUint_inj: "FormatUint m = FormatUint n \<Longrightarrow> m = n"
  by (metis FormatUint_value)

section \<open>Base64\<close>

definition b64Alphabet :: string where
  "b64Alphabet = ''ABCDEFGHIJKLMNOPQRSTUVWXYZabcdefghijklmnopqrstuvwxyz0123456789+/''"

definition b64_char :: "nat \<Rightarrow> char" where
  "b64_char n = b64Alphabet ! (n mod 64)"

definition b64_digit :: "char \<Rightarrow> nat option" where
  "b64_digit c =
     (let n = (of_char c :: nat) in
      if 65 \<le> n \<and> n \<le> 90 then Some (n - 65)
      else if 97 \<le> n \<and> n \<le> 122 then Some (n - 71)
      else if 48 \<le> n \<and> n \<le> 57 then Some (n + 4)
      else if n = 43 then Some 62
      else if n = 47 then Some 63
      else None)"

text \<open>\<open>EncodeToString\<close>: three bytes at a time, the last group padded.\<close>

fun EncodeToString :: "bytes \<Rightarrow> string" where
  "EncodeToString [] = []"
| "EncodeToString [a] =
     (let v = unat a * 65536 in [b64_char (v div 262144), b64_char (v div 4096), CHR ''='', CHR ''=''])"
| "EncodeToString [a, b] =
     (let v = unat a * 65536 + unat b * 256
      in [b64_char (v div 262144), b64_char (v div 4096), b64_char (v div 64), CHR ''=''])"
| "EncodeToString (a # b # c # rest) =
     (let v = unat a * 65536 + unat b * 256 + unat c
      in b64_char (v div 262144) # b64_char (v div 4096) # b64_char (v div 64) # b64_char v #
         EncodeToString rest)"

text \<open>
  \<open>DecodeString\<close>: line breaks are skipped, the padding is compulsory, nothing may follow it,
  and bits below the last full byte are ignored. A corrupt input is \<open>None\<close>.
\<close>

fun b64_quanta :: "string \<Rightarrow> bytes option" where
  "b64_quanta [] = Some []"
| "b64_quanta (a # b # c # d # rest) =
     (case (b64_digit a, b64_digit b) of
        (Some x, Some y) \<Rightarrow>
          if c = CHR ''='' then
            if d = CHR ''='' \<and> rest = [] then Some [of_nat (x * 4 + y div 16)] else None
          else
            (case b64_digit c of
               None \<Rightarrow> None
             | Some z \<Rightarrow>
                 if d = CHR ''='' then
                   if rest = [] then Some [of_nat (x * 4 + y div 16), of_nat (y * 16 + z div 4)] else None
                 else
                   (case b64_digit d of
                      None \<Rightarrow> None
                    | Some w \<Rightarrow>
                        (case b64_quanta rest of
                           None \<Rightarrow> None
                         | Some bs \<Rightarrow>
                             Some (of_nat (x * 4 + y div 16) # of_nat (y * 16 + z div 4) #
                                   of_nat (z * 64 + w) # bs))))
      | _ \<Rightarrow> None)"
| "b64_quanta _ = None"

definition DecodeString :: "string \<Rightarrow> bytes option" where
  "DecodeString s = b64_quanta (filter (\<lambda>c. of_char c \<noteq> (10 :: nat) \<and> of_char c \<noteq> (13 :: nat)) s)"

lemma all_sextets: "(\<forall>n \<in> set [0..<64]. P n) \<Longrightarrow> n < 64 \<Longrightarrow> P n"
  by simp

lemma b64_digit_char [codec_simps]: "b64_digit (b64_char n) = Some (n mod 64)"
proof -
  have "\<forall>k \<in> set [0..<64]. b64_digit (b64_char k) = Some k"
    by (simp add: upt_rec b64_char_def b64Alphabet_def b64_digit_def)
  from all_sextets [OF this, of "n mod 64"] show ?thesis
    by (simp add: b64_char_def)
qed

lemma b64_char_special:
  "b64_char n \<noteq> CHR ''=''" "of_char (b64_char n) \<noteq> (10 :: nat)" "of_char (b64_char n) \<noteq> (13 :: nat)"
proof -
  have "b64_digit c = None" if "c = CHR ''='' \<or> of_char c = (10 :: nat) \<or> of_char c = (13 :: nat)" for c
    using that by (auto simp: b64_digit_def Let_def)
  from this [of "b64_char n"] show
    "b64_char n \<noteq> CHR ''=''" "of_char (b64_char n) \<noteq> (10 :: nat)" "of_char (b64_char n) \<noteq> (13 :: nat)"
    by (auto simp: b64_digit_char)
qed

lemma sextets:
  fixes a b c :: nat
  assumes "a < 256" "b < 256" "c < 256"
  defines "v \<equiv> a * 65536 + b * 256 + c"
  shows "v div 262144 mod 64 = a div 4" and "v div 4096 mod 64 = (a mod 4) * 16 + b div 16"
    and "v div 64 mod 64 = (b mod 16) * 4 + c div 64" and "v mod 64 = c mod 64"
proof -
  have split: "y = k * q + r \<Longrightarrow> y * m + z = m * k * q + r * m + z" for y q k r m z :: nat
    by (simp add: algebra_simps)
  have low: "y = q * 64 + r \<Longrightarrow> r < 64 \<Longrightarrow> y mod 64 = r \<and> y div 64 = q" for y q r :: nat
    by simp
  have v1: "v = (a * 1024 + b * 4 + c div 64) * 64 + c mod 64" by (simp add: v_def)
  have "c div 64 < 4" "b div 16 < 16" "a div 4 < 64" using assms(1-3) by (simp_all add: less_mult_imp_div_less)
  have "b mod 16 < 16" "a mod 4 < 4" by simp_all
  have d1: "v div 64 = a * 1024 + b * 4 + c div 64" by (simp add: v1)
  also have "\<dots> = (a * 16 + b div 16) * 64 + ((b mod 16) * 4 + c div 64)"
    using split [of b "b div 16" 16 "b mod 16" 4 "a * 1024 + c div 64"] by (simp add: algebra_simps)
  finally have v2: "v div 64 = (a * 16 + b div 16) * 64 + ((b mod 16) * 4 + c div 64)" .
  have "(b mod 16) * 4 + c div 64 < 64"
    using \<open>c div 64 < 4\<close> \<open>b mod 16 < 16\<close> by linarith
  note r2 = low [OF v2 this]
  then show "v div 64 mod 64 = (b mod 16) * 4 + c div 64" by (rule conjunct1)
  have "v div 4096 = v div 64 div 64" by (simp add: div_mult2_eq [symmetric])
  also have "\<dots> = a * 16 + b div 16"
    using r2 by (rule conjunct2)
  also have "\<dots> = (a div 4) * 64 + ((a mod 4) * 16 + b div 16)"
    using split [of a "a div 4" 4 "a mod 4" 16 "b div 16"] by (simp add: algebra_simps)
  finally have v3: "v div 4096 = (a div 4) * 64 + ((a mod 4) * 16 + b div 16)" .
  have "(a mod 4) * 16 + b div 16 < 64"
    using \<open>b div 16 < 16\<close> \<open>a mod 4 < 4\<close> by linarith
  note r3 = low [OF v3 this]
  then show "v div 4096 mod 64 = (a mod 4) * 16 + b div 16" by (rule conjunct1)
  have "v div 262144 = v div 4096 div 64" by (simp add: div_mult2_eq [symmetric])
  also have "\<dots> = a div 4"
    using r3 by (rule conjunct2)
  finally show "v div 262144 mod 64 = a div 4" using \<open>a div 4 < 64\<close> by simp
  have "c mod 64 < 64" by simp
  from low [OF v1 this] show "v mod 64 = c mod 64" by (rule conjunct1)
qed

lemma of_nat_byte_carry: "of_nat (k * 256 + unat b) = (b :: byte)"
proof -
  have "unat (of_nat (k * 256 + unat b) :: byte) = unat b"
    by (simp add: unat_of_nat unat_byte_less del: of_nat_add of_nat_mult)
  then show ?thesis by (rule unsigned_word_eqI)
qed

lemma sextets_bytes:
  fixes x y z w :: nat and a b c :: byte
  assumes "x = unat a div 4" "y = (unat a mod 4) * 16 + unat b div 16"
    "z = (unat b mod 16) * 4 + unat c div 64" "w = unat c mod 64"
  shows "of_nat (x * 4 + y div 16) = a" "of_nat (y * 16 + z div 4) = b" "of_nat (z * 64 + w) = c"
proof -
  have lt: "unat a < 256" "unat b < 256" "unat c < 256"
    using unsigned_less [of a] unsigned_less [of b] unsigned_less [of c] by simp_all
  have d: "unat b div 16 < 16" "unat c div 64 < 4"
    using lt by (simp_all add: less_mult_imp_div_less)
  have "x * 4 + y div 16 = unat a"
    using d(1) by (simp add: assms)
  then show "of_nat (x * 4 + y div 16) = a" by simp
  have "z div 4 = unat b mod 16"
    using d(2) by (simp add: assms)
  then have "y * 16 + z div 4 = unat a mod 4 * 256 + unat b"
    using mult_div_mod_eq [of 16 "unat b"] by (simp add: assms(2) algebra_simps)
  then show "of_nat (y * 16 + z div 4) = b" by (simp only: of_nat_byte_carry)
  have "z * 64 + w = unat b mod 16 * 256 + unat c"
    using mult_div_mod_eq [of 64 "unat c"] by (simp add: assms(3,4) algebra_simps)
  then show "of_nat (z * 64 + w) = c" by (simp only: of_nat_byte_carry)
qed

lemma EncodeToString_filter:
  "filter (\<lambda>c. of_char c \<noteq> (10 :: nat) \<and> of_char c \<noteq> (13 :: nat)) (EncodeToString b) = EncodeToString b"
  by (induction b rule: EncodeToString.induct) (simp_all add: Let_def b64_char_special)

lemma b64_digits:
  fixes a b c :: byte
  defines "v \<equiv> unat a * 65536 + unat b * 256 + unat c"
  shows "b64_digit (b64_char (v div 262144)) = Some (unat a div 4)"
    "b64_digit (b64_char (v div 4096)) = Some ((unat a mod 4) * 16 + unat b div 16)"
    "b64_digit (b64_char (v div 64)) = Some ((unat b mod 16) * 4 + unat c div 64)"
    "b64_digit (b64_char v) = Some (unat c mod 64)"
  unfolding v_def b64_digit_char sextets [OF unat_byte_less unat_byte_less unat_byte_less] by (rule refl)+

lemma b64_quanta_Encode: "b64_quanta (EncodeToString b) = Some b"
proof (induction b rule: EncodeToString.induct)
  case (2 a)
  have v: "unat a * 65536 = unat a * 65536 + unat (0 :: byte) * 256 + unat (0 :: byte)" by simp
  note digits = b64_digits [of a 0 0, unfolded v [symmetric]]
  note bytes = sextets_bytes(1) [of _ a _ 0 _ 0, OF refl refl refl refl]
  show ?case
    unfolding EncodeToString.simps Let_def b64_quanta.simps digits
    by (simp only: option.case prod.case if_True simp_thms bytes)
next
  case (3 a b)
  have v: "unat a * 65536 + unat b * 256 = unat a * 65536 + unat b * 256 + unat (0 :: byte)" by simp
  note digits = b64_digits [of a b 0, unfolded v [symmetric]]
  note bytes = sextets_bytes(1,2) [of _ a _ b _ 0, OF refl refl refl refl]
  show ?case
    unfolding EncodeToString.simps Let_def b64_quanta.simps digits
    by (simp only: option.case prod.case if_True if_False b64_char_special simp_thms bytes)
next
  case (4 a b c rest)
  note bytes = sextets_bytes [of _ a _ b _ c, OF refl refl refl refl]
  show ?case
    unfolding EncodeToString.simps Let_def b64_quanta.simps b64_digits "4" [OF refl]
    by (simp only: option.case prod.case if_False b64_char_special simp_thms bytes)
qed simp

lemma base64_roundtrip [codec_simps]: "DecodeString (EncodeToString b) = Some b"
  by (simp add: DecodeString_def EncodeToString_filter b64_quanta_Encode)

end
