(* ===== verification/Json_Values.thy ===== *)
theory Json_Values
  imports Go_Strings
begin

text \<open>
  JSON as \<open>encoding/json\<close> presents it to the program. \<open>json\<close> is the syntax tree of a text; a
  \<open>json.RawMessage\<close> is an optional tree, with \<open>None\<close> for the empty message that a missing
  member leaves behind.

  Decoding a tree into a Go struct is modelled by one function per kind of field. The rules are
  those of \<open>json.Unmarshal\<close>: members are matched to fields by name up to letter case, members
  that match no field are ignored, of several matching members the last one counts, \<open>null\<close>
  leaves a string or number alone and is kept as it is by a raw message, a member of the wrong
  type makes the whole call fail, and \<open>null\<close> in the place of the object decodes to the zero
  struct. The text syntax itself, from bytes to trees and back, is an argument of the
  definitions that use it.
\<close>

datatype json =
    JNull
  | JBool bool
  | JNumber string
  | JString string
  | JArray "json list"
  | JObject "(string \<times> json) list"

type_synonym rawMessage = "json option"

section \<open>Member names\<close>

text \<open>
  Names are compared after Unicode simple folding. The field names are ASCII, so the folding
  that matters is that of the ASCII letters and of the two other characters in their orbits,
  U+017F (long s) and U+212A (Kelvin sign), here as their UTF-8 bytes.
\<close>

definition upper_char :: "char \<Rightarrow> char" where
  "upper_char c = (let n = (of_char c :: nat) in if 97 \<le> n \<and> n \<le> 122 then char_of (n - 32) else c)"

fun foldName :: "string \<Rightarrow> string" where
  "foldName (c # d # e # s) =
     (if of_char c = (0xC5 :: nat) \<and> of_char d = (0xBF :: nat) then CHR ''S'' # foldName (e # s)
      else if of_char c = (0xE2 :: nat) \<and> of_char d = (0x84 :: nat) \<and> of_char e = (0xAA :: nat)
      then CHR ''K'' # foldName s
      else upper_char c # foldName (d # e # s))"
| "foldName [c, d] =
     (if of_char c = (0xC5 :: nat) \<and> of_char d = (0xBF :: nat) then ''S''
      else [upper_char c, upper_char d])"
| "foldName [c] = [upper_char c]"
| "foldName [] = []"

definition matches_field :: "string \<Rightarrow> string \<Rightarrow> bool" where
  "matches_field field key \<longleftrightarrow> foldName key = foldName field"

section \<open>Decoding into a struct\<close>

definition json_members :: "json \<Rightarrow> (string \<times> json) list option" where
  "json_members j = (case j of JObject kvs \<Rightarrow> Some kvs | JNull \<Rightarrow> Some [] | _ \<Rightarrow> None)"

fun field_string :: "string \<Rightarrow> string \<Rightarrow> (string \<times> json) list \<Rightarrow> string option" where
  "field_string f cur [] = Some cur"
| "field_string f cur ((k, v) # kvs) =
     (if matches_field f k then
        (case v of JString s \<Rightarrow> field_string f s kvs | JNull \<Rightarrow> field_string f cur kvs | _ \<Rightarrow> None)
      else field_string f cur kvs)"

fun field_bool :: "string \<Rightarrow> bool \<Rightarrow> (string \<times> json) list \<Rightarrow> bool option" where
  "field_bool f cur [] = Some cur"
| "field_bool f cur ((k, v) # kvs) =
     (if matches_field f k then
        (case v of JBool b \<Rightarrow> field_bool f b kvs | JNull \<Rightarrow> field_bool f cur kvs | _ \<Rightarrow> None)
      else field_bool f cur kvs)"

fun field_raw :: "string \<Rightarrow> rawMessage \<Rightarrow> (string \<times> json) list \<Rightarrow> rawMessage" where
  "field_raw f cur [] = cur"
| "field_raw f cur ((k, v) # kvs) = field_raw f (if matches_field f k then Some v else cur) kvs"

text \<open>
  A Go \<open>int\<close> accepts a number literal that is an integer of 64 bits, without fraction or
  exponent (\<open>strconv.ParseInt\<close>).
\<close>

fun digits_value :: "nat \<Rightarrow> string \<Rightarrow> nat option" where
  "digits_value acc [] = Some acc"
| "digits_value acc (c # cs) =
     (let d = (of_char c :: nat) in
      if 48 \<le> d \<and> d \<le> 57 then digits_value (10 * acc + (d - 48)) cs else None)"

definition ParseInt64 :: "string \<Rightarrow> int option" where
  "ParseInt64 s =
     (case s of
        [] \<Rightarrow> None
      | c # cs \<Rightarrow>
          let neg = (c = CHR ''-''); ds = (if neg \<or> c = CHR ''+'' then cs else s) in
          if ds = [] then None
          else (case digits_value 0 ds of
                  None \<Rightarrow> None
                | Some n \<Rightarrow>
                    if neg then (if n \<le> 2 ^ 63 then Some (- int n) else None)
                    else (if n < 2 ^ 63 then Some (int n) else None)))"

fun field_int :: "string \<Rightarrow> int \<Rightarrow> (string \<times> json) list \<Rightarrow> int option" where
  "field_int f cur [] = Some cur"
| "field_int f cur ((k, v) # kvs) =
     (if matches_field f k then
        (case v of
           JNumber s \<Rightarrow> (case ParseInt64 s of None \<Rightarrow> None | Some n \<Rightarrow> field_int f n kvs)
         | JNull \<Rightarrow> field_int f cur kvs
         | _ \<Rightarrow> None)
      else field_int f cur kvs)"

text \<open>\<open>strconv.ParseUint\<close>, for unsigned numbers.\<close>

definition ParseUint64 :: "string \<Rightarrow> u64 option" where
  "ParseUint64 s =
     (if s = [] then None
      else (case digits_value 0 s of None \<Rightarrow> None | Some n \<Rightarrow> if n < 2 ^ 64 then Some (of_nat n) else None))"

text \<open>A \<open>[]byte\<close> accepts a base64 string, \<open>null\<close>, or an array of small numbers.\<close>

definition byte_element :: "json \<Rightarrow> byte option" where
  "byte_element j =
     (case j of
        JNumber s \<Rightarrow>
          (case ParseUint64 s of
             None \<Rightarrow> None
           | Some n \<Rightarrow> if unat n < 256 then Some (of_nat (unat n)) else None)
      | JNull \<Rightarrow> Some 0
      | _ \<Rightarrow> None)"

fun byte_elements :: "json list \<Rightarrow> bytes option" where
  "byte_elements [] = Some []"
| "byte_elements (j # js) =
     (case (byte_element j, byte_elements js) of (Some b, Some bs) \<Rightarrow> Some (b # bs) | _ \<Rightarrow> None)"

definition json_bytes :: "json \<Rightarrow> bytes option" where
  "json_bytes j =
     (case j of JString s \<Rightarrow> DecodeString s | JNull \<Rightarrow> Some [] | JArray js \<Rightarrow> byte_elements js | _ \<Rightarrow> None)"

fun field_bytes :: "string \<Rightarrow> bytes \<Rightarrow> (string \<times> json) list \<Rightarrow> bytes option" where
  "field_bytes f cur [] = Some cur"
| "field_bytes f cur ((k, v) # kvs) =
     (if matches_field f k then
        (case json_bytes v of None \<Rightarrow> None | Some b \<Rightarrow> field_bytes f b kvs)
      else field_bytes f cur kvs)"

text \<open>
  The text syntax of JSON: what \<open>json.Unmarshal\<close> parses (\<open>None\<close> for a syntax error) and what
  \<open>json.Marshal\<close> writes.
\<close>

record json_syntax =
  json_parse :: "bytes \<Rightarrow> json option"
  json_print :: "json \<Rightarrow> bytes"

end
