(* ===== verification/Mcp_Server.thy ===== *)
theory Mcp_Server
  imports Json_Values
begin

text \<open>
  The harness every extension uses to expose its tools (\<open>src/mcpserver/server.go\<close>): a set of
  registered tools, and the loop that reads newline-delimited JSON-RPC messages, dispatches
  them and writes the answers.

  A tool handler is a function on the extension's own state \<open>'s\<close>: it receives the raw arguments
  and returns a text or an error text, with the state it leaves behind. The input is the byte
  sequence the reader delivers with the error it ends in (\<open>None\<close> at end of file); the context
  is a predicate that says whether it is cancelled when the \<open>n\<close>-th line is reached; the writer
  is a predicate that says whether the \<open>n\<close>-th write fails. JSON text syntax is an argument.
\<close>

section \<open>Tools\<close>

definition protocolVersion :: string where
  "protocolVersion = ''2024-11-05''"

definition maxMessageBytes :: nat where
  "maxMessageBytes = 16777216"

record 's Tool =
  Name :: string
  Description :: string
  InputSchema :: rawMessage
  Handler :: "'s \<Rightarrow> rawMessage \<Rightarrow> (string + string) \<times> 's"

record 's Server =
  srv_name :: string
  srv_version :: string
  srv_order :: "string list"
  srv_tools :: "string \<rightharpoonup> 's Tool"

definition New :: "string \<Rightarrow> string \<Rightarrow> 's Server" where
  "New name version = \<lparr>srv_name = name, srv_version = version, srv_order = [], srv_tools = Map.empty\<rparr>"

definition Register :: "'s Tool \<Rightarrow> 's Server \<Rightarrow> 's Server" where
  "Register t s =
     s\<lparr>srv_order := (if srv_tools s (Name t) = None then srv_order s @ [Name t] else srv_order s),
       srv_tools := (srv_tools s)(Name t \<mapsto> t)\<rparr>"

section \<open>Messages\<close>

record jsonRPCRequest =
  req_JSONRPC :: string
  req_ID :: rawMessage
  req_Method :: string
  req_Params :: rawMessage

record jsonRPCError =
  err_Code :: int
  err_Message :: string

record jsonRPCResponse =
  resp_JSONRPC :: string
  resp_ID :: json
  resp_Result :: "json option"
  resp_Error :: "jsonRPCError option"

definition codeParseError :: int where "codeParseError = - 32700"

definition codeInvalidReq :: int where "codeInvalidReq = - 32600"

definition codeMethodMissing :: int where "codeMethodMissing = - 32601"

definition codeInvalidParams :: int where "codeInvalidParams = - 32602"

definition idOrNull :: "rawMessage \<Rightarrow> json" where
  "idOrNull i = (case i of None \<Rightarrow> JNull | Some j \<Rightarrow> j)"

definition resultResponse :: "rawMessage \<Rightarrow> json \<Rightarrow> jsonRPCResponse" where
  "resultResponse i result =
     \<lparr>resp_JSONRPC = ''2.0'', resp_ID = idOrNull i, resp_Result = Some result, resp_Error = None\<rparr>"

definition errorResponse :: "rawMessage \<Rightarrow> int \<Rightarrow> string \<Rightarrow> jsonRPCResponse" where
  "errorResponse i code msg =
     \<lparr>resp_JSONRPC = ''2.0'', resp_ID = idOrNull i, resp_Result = None,
      resp_Error = Some \<lparr>err_Code = code, err_Message = msg\<rparr>\<rparr>"

definition toolContent :: "string \<Rightarrow> bool \<Rightarrow> json" where
  "toolContent text isError =
     JObject [(''content'', JArray [JObject [(''text'', JString text), (''type'', JString ''text'')]]),
              (''isError'', JBool isError)]"

definition initializeResult :: "'s Server \<Rightarrow> json" where
  "initializeResult s =
     JObject [(''capabilities'', JObject [(''tools'', JObject [])]),
              (''protocolVersion'', JString protocolVersion),
              (''serverInfo'', JObject [(''name'', JString (srv_name s)), (''version'', JString (srv_version s))])]"

text \<open>
  A name of \<open>order\<close> with no entry would read the zero \<open>Tool\<close> out of the Go map; it does not
  happen (\<open>server_inv\<close> below).
\<close>

definition zero_tool :: "'s Tool" where
  "zero_tool = \<lparr>Name = [], Description = [], InputSchema = None, Handler = (\<lambda>s _. (Inl [], s))\<rparr>"

definition tool_entry :: "'s Tool \<Rightarrow> json" where
  "tool_entry t =
     JObject [(''description'', JString (Description t)),
              (''inputSchema'', (case InputSchema t of
                 None \<Rightarrow> JObject [(''type'', JString ''object'')] | Some j \<Rightarrow> j)),
              (''name'', JString (Name t))]"

definition listed :: "'s Server \<Rightarrow> 's Tool list" where
  "listed s = map (\<lambda>n. case srv_tools s n of None \<Rightarrow> zero_tool | Some t \<Rightarrow> t) (srv_order s)"

definition listResult :: "'s Server \<Rightarrow> json" where
  "listResult s = JObject [(''tools'', JArray (map tool_entry (listed s)))]"

section \<open>Dispatch\<close>

definition decode_request :: "json \<Rightarrow> jsonRPCRequest option" where
  "decode_request j =
     (case json_members j of
        None \<Rightarrow> None
      | Some kvs \<Rightarrow>
          (case (field_string ''jsonrpc'' [] kvs, field_string ''method'' [] kvs) of
             (Some v, Some m) \<Rightarrow>
               Some \<lparr>req_JSONRPC = v, req_ID = field_raw ''id'' None kvs, req_Method = m,
                     req_Params = field_raw ''params'' None kvs\<rparr>
           | _ \<Rightarrow> None))"

definition decode_call :: "rawMessage \<Rightarrow> (string \<times> rawMessage) option" where
  "decode_call params =
     (case params of
        None \<Rightarrow> None
      | Some j \<Rightarrow>
          (case json_members j of
             None \<Rightarrow> None
           | Some kvs \<Rightarrow>
               (case field_string ''name'' [] kvs of
                  None \<Rightarrow> None
                | Some n \<Rightarrow> Some (n, field_raw ''arguments'' None kvs))))"

definition callResult :: "'s Server \<Rightarrow> rawMessage \<Rightarrow> rawMessage \<Rightarrow> 's \<Rightarrow> jsonRPCResponse \<times> 's" where
  "callResult s i params st =
     (case decode_call params of
        None \<Rightarrow> (errorResponse i codeInvalidParams ''invalid tools/call params'', st)
      | Some (name, arguments) \<Rightarrow>
          (case srv_tools s name of
             None \<Rightarrow> (errorResponse i codeInvalidParams (''unknown tool: '' @ name), st)
           | Some tool \<Rightarrow>
               (case Handler tool st arguments of
                  (Inl err, st') \<Rightarrow> (resultResponse i (toolContent err True), st')
                | (Inr out, st') \<Rightarrow> (resultResponse i (toolContent out False), st'))))"

text \<open>\<open>dispatch\<close>: \<open>None\<close> is the second result \<open>false\<close>, no answer.\<close>

definition dispatch ::
  "json_syntax \<Rightarrow> 's Server \<Rightarrow> bytes \<Rightarrow> 's \<Rightarrow> jsonRPCResponse option \<times> 's" where
  "dispatch js s line st =
     (case Option.bind (json_parse js line) decode_request of
        None \<Rightarrow> (Some (errorResponse None codeParseError ''parse error''), st)
      | Some req \<Rightarrow>
          let notification = (req_ID req = None) in
          if req_JSONRPC req \<noteq> ''2.0'' then
            if notification then (None, st)
            else (Some (errorResponse (req_ID req) codeInvalidReq ''jsonrpc must be \"2.0\"''), st)
          else if req_Method req = ''initialize'' then
            (Some (resultResponse (req_ID req) (initializeResult s)), st)
          else if req_Method req = ''tools/list'' then
            (Some (resultResponse (req_ID req) (listResult s)), st)
          else if req_Method req = ''tools/call'' then
            (case callResult s (req_ID req) (req_Params req) st of (resp, st') \<Rightarrow> (Some resp, st'))
          else if req_Method req = ''ping'' then
            (Some (resultResponse (req_ID req) (JObject [])), st)
          else if req_Method req = ''notifications/initialized'' \<or>
                  req_Method req = ''notifications/cancelled'' then (None, st)
          else if notification then (None, st)
          else (Some (errorResponse (req_ID req) codeMethodMissing
                        (''unknown method: '' @ req_Method req)), st))"

section \<open>The loop\<close>

text \<open>
  \<open>bufio.ScanLines\<close>: lines end at a line feed, one carriage return before it is dropped, and
  a last line without its line feed counts if it is not empty. A line that fills the buffer
  before its line feed is \<open>bufio.ErrTooLong\<close>.
\<close>

fun scan_lines :: "bytes \<Rightarrow> bytes list" where
  "scan_lines [] = []"
| "scan_lines (b # bs) =
     (if b = 10 then [] # scan_lines bs
      else (case scan_lines bs of
              [] \<Rightarrow> [[b]]
            | l # ls \<Rightarrow> (b # l) # ls))"

definition dropCR :: "bytes \<Rightarrow> bytes" where
  "dropCR l = (if l \<noteq> [] \<and> last l = 13 then butlast l else l)"

datatype serve_error = ErrContext | ErrTooLong | ErrRead string | ErrWrite

definition response_json :: "jsonRPCResponse \<Rightarrow> json" where
  "response_json r =
     JObject ([(''jsonrpc'', JString (resp_JSONRPC r)), (''id'', resp_ID r)] @
       (case resp_Result r of None \<Rightarrow> [] | Some j \<Rightarrow> [(''result'', j)]) @
       (case resp_Error r of
          None \<Rightarrow> []
        | Some e \<Rightarrow> [(''error'', JObject [(''code'', JNumber (if err_Code e < 0
                       then CHR ''-'' # FormatUint (nat (- err_Code e)) else FormatUint (nat (err_Code e)))),
                     (''message'', JString (err_Message e))])]))"

definition writeMessage :: "json_syntax \<Rightarrow> jsonRPCResponse \<Rightarrow> bytes" where
  "writeMessage js r = json_print js (response_json r) @ [10]"

text \<open>
  The loop over the scanned lines. \<open>i\<close> counts the lines, \<open>ws\<close> are the messages written so far;
  the result is the error \<open>Serve\<close> returns, the messages written and the final state.
\<close>

fun serve_lines ::
  "json_syntax \<Rightarrow> 's Server \<Rightarrow> (nat \<Rightarrow> bool) \<Rightarrow> (nat \<Rightarrow> bool) \<Rightarrow> string option \<Rightarrow> nat \<Rightarrow>
   bytes list \<Rightarrow> bytes list \<Rightarrow> 's \<Rightarrow> serve_error option \<times> bytes list \<times> 's" where
  "serve_lines js s cancelled wfails rerr i [] ws st = (map_option ErrRead rerr, ws, st)"
| "serve_lines js s cancelled wfails rerr i (raw # raws) ws st =
     (if length raw \<ge> maxMessageBytes then (Some ErrTooLong, ws, st)
      else if cancelled i then (Some ErrContext, ws, st)
      else let line = trim_bytes (dropCR raw) in
        if line = [] then serve_lines js s cancelled wfails rerr (Suc i) raws ws st
        else
          (case dispatch js s line st of
             (None, st') \<Rightarrow> serve_lines js s cancelled wfails rerr (Suc i) raws ws st'
           | (Some resp, st') \<Rightarrow>
               if wfails (length ws) then (Some ErrWrite, ws, st')
               else serve_lines js s cancelled wfails rerr (Suc i) raws (ws @ [writeMessage js resp]) st'))"

definition Serve ::
  "json_syntax \<Rightarrow> 's Server \<Rightarrow> (nat \<Rightarrow> bool) \<Rightarrow> (nat \<Rightarrow> bool) \<Rightarrow> string option \<Rightarrow> bytes \<Rightarrow> 's \<Rightarrow>
   serve_error option \<times> bytes list \<times> 's" where
  "Serve js s cancelled wfails rerr input st =
     serve_lines js s cancelled wfails rerr 0 (scan_lines input) [] st"


section \<open>Registration\<close>

text \<open>What the tool table keeps true: the order lists every registered name once.\<close>

definition server_inv :: "'s Server \<Rightarrow> bool" where
  "server_inv s \<longleftrightarrow> distinct (srv_order s) \<and> set (srv_order s) = dom (srv_tools s) \<and>
     (\<forall>n t. srv_tools s n = Some t \<longrightarrow> Name t = n)"

interpretation reg: guarded_machine Register server_inv
  by unfold_locales (auto simp: server_inv_def Register_def split: if_splits)

lemma server_inv_New: "server_inv (New n v)"
  by (simp add: server_inv_def New_def)

lemma names_listed:
  assumes "server_inv s"
  shows "map Name (listed s) = srv_order s"
proof -
  have "Name (case srv_tools s n of None \<Rightarrow> zero_tool | Some t \<Rightarrow> t) = n" if "n \<in> set (srv_order s)" for n
    using assms that by (auto simp: server_inv_def dom_def split: option.splits)
  then show ?thesis by (simp add: listed_def map_idI)
qed

lemma register_tools: "srv_tools (fold Register ts s) = srv_tools s ++ map_of (rev (map (\<lambda>t. (Name t, t)) ts))"
  by (induction ts arbitrary: s) (auto simp: Register_def map_add_def split: option.splits)

lemma register_order:
  "server_inv s \<Longrightarrow>
     srv_order (fold Register ts s) = rev (remdups (rev (srv_order s @ map Name ts)))"
proof (induction ts arbitrary: s)
  case Nil
  then show ?case by (simp add: server_inv_def distinct_remdups_id)
next
  case (Cons t ts)
  have first: "rev (remdups (rev (xs @ x # ys))) =
      rev (remdups (rev ((if x \<in> set xs then xs else xs @ [x]) @ ys)))" for x :: string and xs ys
    by (induction ys rule: rev_induct) auto
  have "srv_order (fold Register (t # ts) s) = srv_order (fold Register ts (Register t s))" by simp
  also have "\<dots> = rev (remdups (rev (srv_order (Register t s) @ map Name ts)))"
    by (rule Cons.IH) (rule reg.inv_handle [OF Cons.prems])
  also have "srv_order (Register t s) = (if Name t \<in> set (srv_order s) then srv_order s else srv_order s @ [Name t])"
    using Cons.prems by (auto simp: Register_def server_inv_def dom_def)
  finally show ?case by (simp only: first list.map)
qed

section \<open>Which messages are answered\<close>

text \<open>
  The identity of the answer a line receives, or \<open>None\<close> if it receives none. It depends on the
  line only: not on the tools, their handlers or their state.
\<close>

definition answered_id :: "json_syntax \<Rightarrow> bytes \<Rightarrow> json option" where
  "answered_id js line =
     (case Option.bind (json_parse js line) decode_request of
        None \<Rightarrow> Some JNull
      | Some req \<Rightarrow>
          if req_JSONRPC req = ''2.0'' \<and>
             req_Method req \<in> {''initialize'', ''tools/list'', ''tools/call'', ''ping''}
          then Some (idOrNull (req_ID req))
          else if req_JSONRPC req = ''2.0'' \<and>
             req_Method req \<in> {''notifications/initialized'', ''notifications/cancelled''}
          then None
          else req_ID req)"

definition well_formed_response :: "jsonRPCResponse \<Rightarrow> bool" where
  "well_formed_response r \<longleftrightarrow> resp_JSONRPC r = ''2.0'' \<and> (resp_Result r = None) \<noteq> (resp_Error r = None)"

lemma response_parts [simp]:
  "resp_ID (resultResponse i j) = idOrNull i" "resp_ID (errorResponse i c m) = idOrNull i"
  "well_formed_response (resultResponse i j)" "well_formed_response (errorResponse i c m)"
  by (simp_all add: resultResponse_def errorResponse_def well_formed_response_def)

lemma idOrNull_simps [simp]: "idOrNull None = JNull" "idOrNull (Some j) = j"
  by (simp_all add: idOrNull_def)

lemma callResult_parts:
  "callResult s i params st = (r, st') \<Longrightarrow> resp_ID r = idOrNull i \<and> well_formed_response r"
  by (auto simp: callResult_def split: option.splits prod.splits sum.splits)

lemma dispatch_answer:
  assumes "dispatch js s line st = (r, st')"
  shows "map_option resp_ID r = answered_id js line" and "\<And>x. r = Some x \<Longrightarrow> well_formed_response x"
proof -
  have "map_option resp_ID r = answered_id js line \<and> (\<forall>x. r = Some x \<longrightarrow> well_formed_response x)"
  proof (cases "Option.bind (json_parse js line) decode_request")
    case None
    with assms show ?thesis by (auto simp: dispatch_def answered_id_def)
  next
    case (Some req)
    with assms callResult_parts show ?thesis
      by (cases "req_ID req")
        (auto simp: dispatch_def answered_id_def Let_def split: prod.splits if_splits dest: callResult_parts)
  qed
  then show "map_option resp_ID r = answered_id js line" and "\<And>x. r = Some x \<Longrightarrow> well_formed_response x"
    by auto
qed

definition message_lines :: "bytes list \<Rightarrow> bytes list" where
  "message_lines raws = filter (\<lambda>l. l \<noteq> []) (map (\<lambda>raw. trim_bytes (dropCR raw)) raws)"

lemma serve_lines_replies:
  assumes "\<forall>raw \<in> set raws. length raw < maxMessageBytes"
  shows "\<exists>resps st'.
    serve_lines js s (\<lambda>_. False) (\<lambda>_. False) rerr i raws ws st =
      (map_option ErrRead rerr, ws @ map (writeMessage js) resps, st') \<and>
    map resp_ID resps = List.map_filter (answered_id js) (message_lines raws) \<and>
    (\<forall>r \<in> set resps. well_formed_response r)"
  using assms
proof (induction raws arbitrary: i ws st)
  case Nil
  then show ?case by (auto simp: message_lines_def List.map_filter_simps)
next
  case (Cons raw raws)
  let ?line = "trim_bytes (dropCR raw)"
  obtain r st1 where d: "dispatch js s ?line st = (r, st1)" by fastforce
  note answer = dispatch_answer [OF d]
  show ?case
  proof (cases "?line = []")
    case True
    with Cons show ?thesis by (simp add: message_lines_def)
  next
    case line: False
    show ?thesis
    proof (cases r)
      case None
      with line d answer(1) Cons show ?thesis
        by (simp add: message_lines_def List.map_filter_simps)
    next
      case (Some resp)
      from Cons.IH [of "Suc i" "ws @ [writeMessage js resp]" st1] Cons.prems
      obtain resps st' where ih:
        "serve_lines js s (\<lambda>_. False) (\<lambda>_. False) rerr (Suc i) raws (ws @ [writeMessage js resp]) st1 =
           (map_option ErrRead rerr, (ws @ [writeMessage js resp]) @ map (writeMessage js) resps, st')"
        "map resp_ID resps = List.map_filter (answered_id js) (message_lines raws)"
        "\<forall>r \<in> set resps. well_formed_response r" by auto
      from Some answer have "answered_id js ?line = Some (resp_ID resp)" "well_formed_response resp"
        by (metis option.simps(9)) (simp add: Some answer(2))
      with ih line d Some Cons.prems show ?thesis
        by (intro exI [of _ "resp # resps"]) (simp add: message_lines_def List.map_filter_simps)
    qed
  qed
qed


section \<open>The state the handlers share\<close>

text \<open>
  Whatever every registered handler keeps true of the extension's state, a whole session keeps
  true: no other code of the server touches it.
\<close>

locale tool_invariant =
  fixes server :: "'s Server" and inv :: "'s \<Rightarrow> bool"
  assumes handler_inv: "srv_tools server n = Some t \<Longrightarrow> inv st \<Longrightarrow> inv (snd (Handler t st args))"
begin

lemma callResult_inv: "inv st \<Longrightarrow> inv (snd (callResult server i params st))"
  by (auto simp: callResult_def split_beta intro: handler_inv split: option.splits sum.splits)

lemma dispatch_inv: "inv st \<Longrightarrow> inv (snd (dispatch js server line st))"
  by (auto simp: dispatch_def Let_def split_beta intro: callResult_inv split: option.splits)

lemma serve_lines_inv: "inv st \<Longrightarrow> inv (snd (snd (serve_lines js server c wfails rerr i raws ws st)))"
proof (induction raws arbitrary: i ws st)
  case (Cons raw raws)
  obtain r st1 where d: "dispatch js server (trim_bytes (dropCR raw)) st = (r, st1)" by fastforce
  with dispatch_inv [OF Cons.prems, of js "trim_bytes (dropCR raw)"] have "inv st1" by simp
  with d Cons show ?case by (cases r) (simp_all add: Let_def)
qed simp

lemma Serve_inv: "inv st \<Longrightarrow> inv (snd (snd (Serve js server c wfails rerr input st)))"
  by (simp add: Serve_def serve_lines_inv)

end

section \<open>Properties\<close>

text \<open>
  Registration is last-write-wins and keeps the order of first registration. After any
  sequence of \<open>Register\<close> calls, \<open>tools/list\<close> names every registered tool exactly once, in the
  order in which the names first appeared, and a name is bound to the last tool registered
  under it.
\<close>

theorem registered_tools:
  "map Name (listed (fold Register ts (New n v))) = rev (remdups (rev (map Name ts))) \<and>
   srv_tools (fold Register ts (New n v)) = map_of (rev (map (\<lambda>t. (Name t, t)) ts))"
proof -
  have "server_inv (fold Register ts (New n v))" by (intro reg.inv_run server_inv_New)
  then show ?thesis
    using register_order [OF server_inv_New [of n v], of ts] register_tools [of ts "New n v"]
    by (simp add: names_listed New_def)
qed

text \<open>
  C30: the loop answers every message, once, in order and under its own id. While no line is
  too long, the context lives and the writer works, \<open>Serve\<close> ends only with the reader; it has
  written one well-formed response (a result or an error, never both) for each line that has
  one coming, in the order of the lines, and a response carries the id of its request. A
  handler's failure does not stop the loop and does not change which lines are answered.
\<close>

theorem Serve_replies:
  assumes "\<forall>raw \<in> set (scan_lines input). length raw < maxMessageBytes"
  shows "\<exists>resps st'.
    Serve js s (\<lambda>_. False) (\<lambda>_. False) rerr input st =
      (map_option ErrRead rerr, map (writeMessage js) resps, st') \<and>
    map resp_ID resps = List.map_filter (answered_id js) (message_lines (scan_lines input)) \<and>
    (\<forall>r \<in> set resps. well_formed_response r)"
  using serve_lines_replies [OF assms, of js s rerr 0 "[]" st] by (simp add: Serve_def)

definition sample_syntax :: json_syntax where
  "sample_syntax =
     \<lparr>json_parse = (\<lambda>b. if b = [112] then Some (JObject [(''jsonrpc'', JString ''2.0''),
        (''id'', JNumber ''7''), (''method'', JString ''ping'')]) else None),
      json_print = (\<lambda>_. [])\<rparr>"

lemma trim_bytes_plain: "trim_bytes [112] = [112]" "trim_bytes [] = []"
  by (simp_all add: trim_bytes_def trim_codes_def trim_with.simps space_prefix_def space_encodings_def)

theorem Serve_replies_witness:
  "\<exists>resps st'.
    Serve sample_syntax (New ''x'' ''1'') (\<lambda>_. False) (\<lambda>_. False) None [112, 10, 10, 112] () =
      (None, map (writeMessage sample_syntax) resps, st') \<and>
    map resp_ID resps = [JNumber ''7'', JNumber ''7''] \<and> (\<forall>r \<in> set resps. well_formed_response r)"
proof -
  have "List.map_filter (answered_id sample_syntax) (message_lines (scan_lines [112, 10, 10, 112])) =
      [JNumber ''7'', JNumber ''7'']"
    by (simp add: message_lines_def dropCR_def trim_bytes_plain List.map_filter_simps answered_id_def
        sample_syntax_def decode_request_def json_members_def matches_field_def upper_char_def)
  then show ?thesis
    using Serve_replies [of "[112, 10, 10, 112]" sample_syntax "New ''x'' ''1''" None "()"]
    by (simp add: maxMessageBytes_def)
qed

text \<open>
  C31: a message without an id is still answered, and still acted on, when its method is one
  the harness knows: a \<open>tools/call\<close> notification runs the tool and receives a response with
  the id \<open>null\<close>.
\<close>

theorem notification_call_answered:
  assumes "json_parse js line = Some (JObject [(''jsonrpc'', JString ''2.0''), (''method'', JString ''tools/call''),
      (''params'', JObject [(''name'', JString name), (''arguments'', args)])])"
    and "srv_tools s name = Some tool" and "Handler tool st (Some args) = (Inr out, st')"
  shows "dispatch js s line st =
    (Some \<lparr>resp_JSONRPC = ''2.0'', resp_ID = JNull, resp_Result = Some (toolContent out False), resp_Error = None\<rparr>, st')"
  using assms
  by (simp add: dispatch_def decode_request_def json_members_def matches_field_def upper_char_def
      callResult_def decode_call_def resultResponse_def)

theorem notification_call_answered_witness:
  "dispatch \<lparr>json_parse = (\<lambda>_. Some (JObject [(''jsonrpc'', JString ''2.0''), (''method'', JString ''tools/call''),
        (''params'', JObject [(''name'', JString ''t''), (''arguments'', JNull)])])), json_print = (\<lambda>_. [])\<rparr>
      (Register \<lparr>Name = ''t'', Description = [], InputSchema = None, Handler = (\<lambda>st _. (Inr ''ok'', Suc st))\<rparr>
        (New ''x'' ''1'')) [123] 0 =
    (Some \<lparr>resp_JSONRPC = ''2.0'', resp_ID = JNull, resp_Result = Some (toolContent ''ok'' False), resp_Error = None\<rparr>, 1)"
  by (rule notification_call_answered [where name = "''t''" and args = JNull and
        tool = "\<lparr>Name = ''t'', Description = [], InputSchema = None, Handler = (\<lambda>st _. (Inr ''ok'', Suc st))\<rparr>"])
    (simp_all add: Register_def New_def)

end
