(* ===== verification/Solana_Message.thy ===== *)
theory Solana_Message
  imports Flynn_Prelude
begin

unbundle bit_operations_syntax

text \<open>
  The message parser of the Solana signer (\<open>src/solana/message.go\<close>): the bounds-checked
  \<open>reader\<close>, the ShortVec length \<open>compactU16\<close>, \<open>parseMessage\<close>, \<open>programOf\<close>, and the base58
  decoder that produces the program addresses at package initialisation.

  The wire format of the comment at the head of the file is stated as a grammar: \<open>fmt\<close>
  predicates relate a value to the byte strings that encode it. The locale \<open>wire_format\<close> says
  what it means for a reading function to implement such a grammar exactly (it accepts every
  encoding and nothing else); loops and sequences of readers inherit the contract, and
  \<open>parseMessage\<close> is shown to recognise exactly the messages of the grammar.
\<close>

section \<open>The reader\<close>

record reader =
  rd_b :: bytes
  rd_off :: nat

datatype read_error =
    Truncated
  | NonCanonicalLength
  | LengthOutOfRange
  | LengthNotTerminated

definition addrLen :: nat where
  "addrLen = 32"

definition remaining :: "reader \<Rightarrow> int" where
  "remaining r = int (length (rd_b r)) - int (rd_off r)"

definition take_bytes :: "reader \<Rightarrow> int \<Rightarrow> read_error + bytes \<times> reader" where
  "take_bytes r n =
     (if n < 0 \<or> remaining r < n then Inl Truncated
      else Inr (take (nat n) (drop (rd_off r) (rd_b r)), r\<lparr>rd_off := rd_off r + nat n\<rparr>))"

definition read_byte :: "reader \<Rightarrow> read_error + byte \<times> reader" where
  "read_byte r =
     (case take_bytes r 1 of
        Inl e \<Rightarrow> Inl e
      | Inr (b, r') \<Rightarrow> Inr (b ! 0, r'))"

text \<open>The loop \<open>for i := range 3\<close> of \<open>compactU16\<close>, from iteration \<open>i\<close> on.\<close>

function compactU16_loop :: "nat \<Rightarrow> int \<Rightarrow> nat \<Rightarrow> reader \<Rightarrow> read_error + int \<times> reader" where
  "compactU16_loop i val shift r =
     (if i < 3 then
        (case read_byte r of
           Inl e \<Rightarrow> Inl e
         | Inr (b, r') \<Rightarrow>
             (let val' = val OR push_bit shift (uint (b AND 0x7f)) in
              if b AND 0x80 = 0 then
                if 0 < i \<and> b = 0 then Inl NonCanonicalLength
                else if val' > 0xffff then Inl LengthOutOfRange
                else Inr (val', r')
              else compactU16_loop (i + 1) val' (shift + 7) r'))
      else Inl LengthNotTerminated)"
  by pat_completeness auto
termination
  by (relation "measure (\<lambda>(i, _). 3 - i)") auto

declare compactU16_loop.simps [simp del]

definition compactU16 :: "reader \<Rightarrow> read_error + int \<times> reader" where
  "compactU16 r = compactU16_loop 0 0 0 r"

section \<open>Messages\<close>

record instruction =
  programIndex :: byte
  ix_data :: bytes

record message =
  accounts :: "bytes list"
  instructions :: "instruction list"

datatype parse_error =
    EmptyPayload
  | VersionedMessage
  | HeaderErr read_error
  | AccountCountErr read_error
  | AccountErr nat read_error
  | BlockhashErr read_error
  | InstructionCountErr read_error
  | IxProgramIndexErr nat read_error
  | IxAccountCountErr nat read_error
  | IxAccountsErr nat read_error
  | IxDataLengthErr nat read_error
  | IxDataErr nat read_error
  | TrailingBytes int

datatype program_error = NoSuchProgramAccount

definition programOf :: "message \<Rightarrow> instruction \<Rightarrow> program_error + bytes" where
  "programOf m ix =
     (if unat (programIndex ix) \<ge> length (accounts m) then Inl NoSuchProgramAccount
      else Inr (accounts m ! unat (programIndex ix)))"

text \<open>
  The two counted loops of \<open>parseMessage\<close>: read \<open>n\<close> items, the first of them number \<open>i\<close>, and
  stop at the first error.
\<close>

fun read_items :: "(nat \<Rightarrow> reader \<Rightarrow> 'e + 'a \<times> reader) \<Rightarrow> nat \<Rightarrow> nat \<Rightarrow> reader \<Rightarrow> 'e + 'a list \<times> reader"
  where
  "read_items rd i 0 r = Inr ([], r)"
| "read_items rd i (Suc n) r =
     (case rd i r of
        Inl e \<Rightarrow> Inl e
      | Inr (x, r') \<Rightarrow>
          (case read_items rd (Suc i) n r' of
             Inl e \<Rightarrow> Inl e
           | Inr (xs, r'') \<Rightarrow> Inr (x # xs, r'')))"

definition read_account :: "nat \<Rightarrow> reader \<Rightarrow> parse_error + bytes \<times> reader" where
  "read_account i r = wrap_error (AccountErr i) (take_bytes r (int addrLen))"

definition read_instruction :: "nat \<Rightarrow> reader \<Rightarrow> parse_error + instruction \<times> reader" where
  "read_instruction i r =
     (case read_byte r of
        Inl e \<Rightarrow> Inl (IxProgramIndexErr i e)
      | Inr (progIdx, r1) \<Rightarrow>
     (case compactU16 r1 of
        Inl e \<Rightarrow> Inl (IxAccountCountErr i e)
      | Inr (nAccts, r2) \<Rightarrow>
     (case take_bytes r2 nAccts of
        Inl e \<Rightarrow> Inl (IxAccountsErr i e)
      | Inr (_, r3) \<Rightarrow>
     (case compactU16 r3 of
        Inl e \<Rightarrow> Inl (IxDataLengthErr i e)
      | Inr (nData, r4) \<Rightarrow>
     (case take_bytes r4 nData of
        Inl e \<Rightarrow> Inl (IxDataErr i e)
      | Inr (d, r5) \<Rightarrow> Inr (\<lparr>programIndex = progIdx, ix_data = d\<rparr>, r5))))))"

definition parseMessage :: "bytes \<Rightarrow> parse_error + message" where
  "parseMessage b =
     (let r = \<lparr>rd_b = b, rd_off = 0\<rparr> in
      if length b = 0 then Inl EmptyPayload
      else if b ! 0 AND 0x80 \<noteq> 0 then Inl VersionedMessage
      else
     (case take_bytes r 3 of
        Inl e \<Rightarrow> Inl (HeaderErr e)
      | Inr (_, r1) \<Rightarrow>
     (case compactU16 r1 of
        Inl e \<Rightarrow> Inl (AccountCountErr e)
      | Inr (nAccounts, r2) \<Rightarrow>
     (case read_items read_account 0 (nat nAccounts) r2 of
        Inl e \<Rightarrow> Inl e
      | Inr (as, r3) \<Rightarrow>
     (case take_bytes r3 (int addrLen) of
        Inl e \<Rightarrow> Inl (BlockhashErr e)
      | Inr (_, r4) \<Rightarrow>
     (case compactU16 r4 of
        Inl e \<Rightarrow> Inl (InstructionCountErr e)
      | Inr (nIxs, r5) \<Rightarrow>
     (case read_items read_instruction 0 (nat nIxs) r5 of
        Inl e \<Rightarrow> Inl e
      | Inr (ixs, r6) \<Rightarrow>
          if remaining r6 \<noteq> 0 then Inl (TrailingBytes (remaining r6))
          else Inr \<lparr>accounts = as, instructions = ixs\<rparr>)))))))"

section \<open>Base58\<close>

definition b58Alphabet :: string where
  "b58Alphabet = ''123456789ABCDEFGHJKLMNPQRSTUVWXYZabcdefghijkmnopqrstuvwxyz''"

datatype base58_error = NotBase58 | AddressDoesNotTerminate

text \<open>The search for a character: the first matching index, or \<open>None\<close> for Go's \<open>-1\<close>.\<close>

fun index_from :: "nat \<Rightarrow> char \<Rightarrow> string \<Rightarrow> nat option" where
  "index_from i c [] = None"
| "index_from i c (x # xs) = (if x = c then Some i else index_from (i + 1) c xs)"

text \<open>\<open>for i := range out\<close>: multiply the little-endian accumulator by 58 and add the carry.\<close>

fun b58_mul :: "nat \<Rightarrow> bytes \<Rightarrow> bytes \<times> nat" where
  "b58_mul carry [] = ([], carry)"
| "b58_mul carry (x # xs) =
     (let c = carry + 58 * unat x;
          (ys, carry') = b58_mul (c div 256) xs
      in (of_nat (c mod 256) # ys, carry'))"

fun b58_flush :: "nat \<Rightarrow> nat \<Rightarrow> bytes \<Rightarrow> base58_error + bytes" where
  "b58_flush n carry out =
     (if 0 < carry then
        if n \<ge> addrLen then Inl AddressDoesNotTerminate
        else b58_flush (n + 1) (carry div 256) (out @ [of_nat (carry mod 256)])
      else Inr out)"

declare b58_flush.simps [simp del]

fun b58_digits :: "string \<Rightarrow> bytes \<Rightarrow> base58_error + bytes" where
  "b58_digits [] out = Inr out"
| "b58_digits (c # cs) out =
     (case index_from 0 c b58Alphabet of
        None \<Rightarrow> Inl NotBase58
      | Some idx \<Rightarrow>
          (let (out', carry) = b58_mul idx out in
           case b58_flush 0 carry out' of
             Inl e \<Rightarrow> Inl e
           | Inr out'' \<Rightarrow> b58_digits cs out''))"

definition base58Decode :: "string \<Rightarrow> base58_error + bytes" where
  "base58Decode s =
     (case b58_digits s [] of
        Inl e \<Rightarrow> Inl e
      | Inr out \<Rightarrow> Inr (rev (out @ replicate (length (takeWhile (\<lambda>c. c = CHR ''1'') s)) 0)))"

text \<open>\<open>mustAddr\<close> panics on a bad address; the panic is \<open>None\<close>.\<close>

definition mustAddr :: "string \<Rightarrow> bytes option" where
  "mustAddr s =
     (case base58Decode s of
        Inl _ \<Rightarrow> None
      | Inr b \<Rightarrow> if length b \<noteq> addrLen then None else Some b)"

section \<open>The wire grammar and its interface\<close>

text \<open>What a reader still has to read, and the two ways its state is described by it.\<close>

definition view :: "reader \<Rightarrow> bytes" where
  "view r = drop (rd_off r) (rd_b r)"

definition in_bounds :: "reader \<Rightarrow> bool" where
  "in_bounds r \<longleftrightarrow> rd_off r \<le> length (rd_b r)"

definition advance :: "reader \<Rightarrow> nat \<Rightarrow> reader" where
  "advance r n = r\<lparr>rd_off := rd_off r + n\<rparr>"

lemma view_advance [simp]: "view (advance r n) = drop n (view r)"
  by (simp add: view_def advance_def add.commute)

lemma advance_advance [simp]: "advance (advance r m) n = advance r (m + n)"
  by (simp add: advance_def)

lemma advance_0 [simp]: "advance r 0 = r"
  by (simp add: advance_def)

lemma in_bounds_advance: "in_bounds r \<Longrightarrow> n \<le> length (view r) \<Longrightarrow> in_bounds (advance r n)"
  by (auto simp: in_bounds_def advance_def view_def)

lemma remaining_view: "in_bounds r \<Longrightarrow> remaining r = int (length (view r))"
  by (simp add: in_bounds_def remaining_def view_def)

text \<open>
  A reading function implements a grammar exactly when it accepts every encoding, whatever
  follows it, consumes just that encoding, and accepts nothing else.
\<close>

locale wire_format =
  fixes rd :: "reader \<Rightarrow> 'e + 'a \<times> reader"
    and fmt :: "'a \<Rightarrow> bytes \<Rightarrow> bool"
  assumes accepts: "fmt x bs \<Longrightarrow> in_bounds r \<Longrightarrow> view r = bs @ rest \<Longrightarrow> rd r = Inr (x, advance r (length bs))"
    and consumes: "rd r = Inr (x, r') \<Longrightarrow> in_bounds r \<Longrightarrow>
      \<exists>bs rest. fmt x bs \<and> view r = bs @ rest \<and> r' = advance r (length bs)"
begin

lemma consumes_in_bounds: "rd r = Inr (x, r') \<Longrightarrow> in_bounds r \<Longrightarrow> in_bounds r'"
  using consumes [of r x r'] by (auto intro: in_bounds_advance)

lemma reads_iff:
  assumes "in_bounds r"
  shows "rd r = Inr (x, r') \<longleftrightarrow> (\<exists>bs. fmt x bs \<and> view r = bs @ view r' \<and> r' = advance r (length bs))"
proof
  assume "rd r = Inr (x, r')"
  from consumes [OF this assms] show "\<exists>bs. fmt x bs \<and> view r = bs @ view r' \<and> r' = advance r (length bs)"
    by fastforce
next
  assume "\<exists>bs. fmt x bs \<and> view r = bs @ view r' \<and> r' = advance r (length bs)"
  then show "rd r = Inr (x, r')"
    using accepts [OF _ assms] by blast
qed

text \<open>The grammar is prefix-free and unambiguous: two encodings at one place are the same.\<close>

lemma unambiguous:
  assumes "fmt x bs" and "fmt y cs" and "bs @ rest = cs @ rest'"
  shows "x = y \<and> bs = cs \<and> rest = rest'"
proof -
  let ?r = "\<lparr>rd_b = bs @ rest, rd_off = 0\<rparr>"
  have b: "in_bounds ?r" "view ?r = bs @ rest" "view ?r = cs @ rest'"
    using assms(3) by (simp_all add: in_bounds_def view_def)
  from accepts [OF assms(1) b(1,2)] accepts [OF assms(2) b(1,3)]
  have "x = y" and "length bs = length cs"
    by (simp_all add: advance_def)
  with assms(3) show ?thesis by simp
qed

end

text \<open>The counted loop: the encodings of its items, one after the other.\<close>

fun fmt_items :: "('a \<Rightarrow> bytes \<Rightarrow> bool) \<Rightarrow> 'a list \<Rightarrow> bytes \<Rightarrow> bool" where
  "fmt_items fmt [] bs \<longleftrightarrow> bs = []"
| "fmt_items fmt (x # xs) bs \<longleftrightarrow> (\<exists>cs ds. bs = cs @ ds \<and> fmt x cs \<and> fmt_items fmt xs ds)"

lemma read_items_wire_format:
  assumes item: "\<And>i. wire_format (rd i) fmt"
  shows "wire_format (read_items rd i n) (\<lambda>xs bs. length xs = n \<and> fmt_items fmt xs bs)"
proof (unfold_locales, goal_cases)
  case (1 xs bs r rest)
  then show ?case
  proof (induction n arbitrary: i xs bs r)
    case (Suc n)
    then obtain y ys cs ds where x: "xs = y # ys" "bs = cs @ ds" "fmt y cs" "fmt_items fmt ys ds" "length ys = n"
      by (cases xs) auto
    with Suc.prems have v: "view r = cs @ ds @ rest" by simp
    have "rd i r = Inr (y, advance r (length cs))"
      using wire_format.accepts [OF item x(3) Suc.prems(2) v] .
    moreover have "in_bounds (advance r (length cs))"
      using Suc.prems(2) v by (auto intro: in_bounds_advance)
    ultimately show ?case
      using Suc.IH [of ys ds "advance r (length cs)" "Suc i"] x v by simp
  qed simp
next
  case (2 r xs r')
  then show ?case
  proof (induction n arbitrary: i xs r)
    case 0
    then show ?case by simp
  next
    case (Suc n)
    then obtain y ys r1 where y: "rd i r = Inr (y, r1)" "read_items rd (Suc i) n r1 = Inr (ys, r')" "xs = y # ys"
      by (auto split: sum.splits prod.splits)
    from wire_format.consumes [OF item y(1) Suc.prems(2)] obtain cs ds where
      c: "fmt y cs" "view r = cs @ ds" "r1 = advance r (length cs)" by blast
    have "in_bounds r1"
      using y(1) Suc.prems(2) by (rule wire_format.consumes_in_bounds [OF item])
    from Suc.IH [OF y(2) this] obtain es rest where
      "length ys = n" "fmt_items fmt ys es" "view r1 = es @ rest" "r' = advance r1 (length es)" by blast
    with c y(3) show ?case
      by (rule_tac exI [of _ "cs @ es"], rule_tac exI [of _ rest]) auto
  qed
qed

section \<open>The primitive readers implement their grammar\<close>

lemma take_bytes_wire_format:
  "wire_format (\<lambda>r. take_bytes r (int n)) (\<lambda>x bs. x = bs \<and> length bs = n)"
proof (unfold_locales, goal_cases)
  case (1 x bs r rest)
  then show ?case by (auto simp: take_bytes_def remaining_view) (simp_all add: view_def advance_def)
next
  case (2 r x r')
  then show ?case
    by (rule_tac exI [of _ x], rule_tac exI [of _ "drop n (view r)"])
      (auto simp: take_bytes_def view_def advance_def in_bounds_def remaining_def simp del: drop_drop split: if_splits)
qed

lemma take_bytes_append:
  "in_bounds r \<Longrightarrow> view r = bs @ rest \<Longrightarrow> take_bytes r (int (length bs)) = Inr (bs, advance r (length bs))"
  using wire_format.accepts [OF take_bytes_wire_format, where x = bs and bs = bs] by blast

lemma read_byte_wire_format: "wire_format read_byte (\<lambda>x bs. bs = [x])"
proof (unfold_locales, goal_cases)
  case (1 x bs r rest)
  with wire_format.accepts [OF take_bytes_wire_format [of 1], of bs bs r rest] show ?case
    by (simp add: read_byte_def)
next
  case (2 r x r')
  then obtain b where "take_bytes r (int 1) = Inr (b, r')" "x = b ! 0"
    by (auto simp: read_byte_def split: sum.splits)
  with wire_format.consumes [OF take_bytes_wire_format [of 1], of r b r'] 2 show ?case
    by (auto simp: length_Suc_conv)
qed

lemma read_byte_Cons: "in_bounds r \<Longrightarrow> view r = b # bs \<Longrightarrow> read_byte r = Inr (b, advance r 1)"
  using wire_format.accepts [OF read_byte_wire_format, where x = b and bs = "[b]"] by simp

lemma in_bounds_Cons: "in_bounds r \<Longrightarrow> view r = b # bs \<Longrightarrow> in_bounds (advance r 1)"
  by (rule in_bounds_advance) simp_all

text \<open>
  ShortVec: seven bits per byte, little end first, the high bit marking continuation, and no
  byte more than needed.
\<close>

definition shortvec :: "int \<Rightarrow> bytes" where
  "shortvec v =
     (if v < 128 then [of_int v]
      else if v < 16384 then [of_int (v mod 128 + 128), of_int (v div 128)]
      else [of_int (v mod 128 + 128), of_int (v div 128 mod 128 + 128), of_int (v div 16384)])"

definition fmt_u16 :: "int \<Rightarrow> bytes \<Rightarrow> bool" where
  "fmt_u16 v bs \<longleftrightarrow> 0 \<le> v \<and> v \<le> 0xffff \<and> bs = shortvec v"

lemma compactU16_step:
  assumes "read_byte r = Inr (b, r')" and "i < 3" and "0 \<le> val" and "val < 2 ^ shift"
  shows "compactU16_loop i val shift r =
    (if uint b < 128 then
       if 0 < i \<and> b = 0 then Inl NonCanonicalLength
       else if val + 2 ^ shift * uint b > 0xffff then Inl LengthOutOfRange
       else Inr (val + 2 ^ shift * uint b, r')
     else compactU16_loop (i + 1) (val + 2 ^ shift * (uint b - 128)) (shift + 7) r')"
proof -
  have m: "uint b mod 128 = (if uint b < 128 then uint b else uint b - 128)"
  proof -
    have "n mod 128 = n - 128" if "128 \<le> n" "n < 256" for n :: int
      using mod_pos_geq [of 128 n] mod_pos_pos_trivial [of "n - 128" 128] that by (simp only:)
    then show ?thesis using uint_byte_bounds(1) [of b] by simp
  qed
  show ?thesis
    using assms by (subst compactU16_loop.simps)
      (simp add: byte_low7 byte_high_bit int_or_push_bit Let_def m)
qed

lemma uint_byte_of_int: "0 \<le> v \<Longrightarrow> v < 256 \<Longrightarrow> uint (of_int v :: byte) = v"
  by (simp add: uint_word_of_int mod_pos_pos_trivial)

lemma uint_byte_continued: "0 \<le> v \<Longrightarrow> v < 128 \<Longrightarrow> uint (of_int v + 128 :: byte) = v + 128"
  using uint_byte_of_int [of "v + 128"] by simp

lemma of_int_byte_0: "0 \<le> v \<Longrightarrow> v < 256 \<Longrightarrow> (of_int v :: byte) = 0 \<longleftrightarrow> v = 0"
  by (metis uint_byte_of_int uint_0_iff)

text \<open>The three lengths of an accepted encoding.\<close>

lemma compactU16_1:
  assumes "in_bounds r" "view r = a # rest" "uint a < 128"
  shows "compactU16 r = Inr (uint a, advance r 1)"
  using assms by (simp add: compactU16_def compactU16_step [OF read_byte_Cons])

lemma compactU16_2:
  assumes r: "in_bounds r" "view r = a # b # rest" and "128 \<le> uint a" "uint b < 128" "b \<noteq> 0"
  shows "compactU16 r = Inr (uint a - 128 + 128 * uint b, advance r 2)"
proof -
  have a: "0 \<le> uint a - 128" "uint a - 128 < 2 ^ 7"
    using assms(3) uint_byte_bounds(1) [of a] by simp_all
  have r1: "in_bounds (advance r 1)" "view (advance r 1) = b # rest"
    using r in_bounds_Cons by auto
  have "uint a - 128 + 128 * uint b \<le> 0xffff" using a assms(4) by simp
  then show ?thesis
    using assms compactU16_step [OF read_byte_Cons [OF r], of 0 0 0]
      compactU16_step [OF read_byte_Cons [OF r1] _ a, of 1]
    by (simp add: compactU16_def numeral_2_eq_2)
qed

lemma compactU16_3:
  assumes r: "in_bounds r" "view r = a # b # c # rest"
    and "128 \<le> uint a" "128 \<le> uint b" "uint c < 128" "c \<noteq> 0"
    and v: "v = uint a - 128 + 128 * (uint b - 128) + 16384 * uint c" "v \<le> 0xffff"
  shows "compactU16 r = Inr (v, advance r 3)"
proof -
  have a: "0 \<le> uint a - 128" "uint a - 128 < 2 ^ 7"
    using assms(3) uint_byte_bounds(1) [of a] by simp_all
  have b: "0 \<le> uint a - 128 + 128 * (uint b - 128)" "uint a - 128 + 128 * (uint b - 128) < 2 ^ 14"
    using a assms(4) uint_byte_bounds(1) [of b] by simp_all
  have r1: "in_bounds (advance r 1)" "view (advance r 1) = b # c # rest"
    using r in_bounds_Cons by auto
  have r2: "in_bounds (advance r 2)" "view (advance r 2) = c # rest"
    using r in_bounds_Cons [OF r1] by (auto simp: numeral_2_eq_2)
  show ?thesis
    using assms compactU16_step [OF read_byte_Cons [OF r], of 0 0 0]
      compactU16_step [OF read_byte_Cons [OF r1] _ a, of 1]
      compactU16_step [OF read_byte_Cons [OF r2] _ b, of 2]
    by (simp add: compactU16_def numeral_2_eq_2 numeral_3_eq_3)
qed

lemma compactU16_accepts:
  assumes "fmt_u16 v bs" and r: "in_bounds r" and "view r = bs @ rest"
  shows "compactU16 r = Inr (v, advance r (length bs))"
proof -
  from assms have v: "0 \<le> v" "v \<le> 0xffff" "view r = shortvec v @ rest" "bs = shortvec v"
    by (auto simp: fmt_u16_def)
  note bytes = uint_byte_of_int uint_byte_continued of_int_byte_0
  consider "v < 128" | "128 \<le> v" "v < 16384" | "16384 \<le> v" by linarith
  then show ?thesis
  proof cases
    case 1
    with v show ?thesis
      using compactU16_1 [OF r, of "of_int v" rest] by (simp add: shortvec_def bytes)
  next
    case 2
    with v have "v div 128 < 128" "0 < v div 128" by simp_all
    with 2 v show ?thesis
      using compactU16_2 [OF r, of "of_int (v mod 128) + 128" "of_int (v div 128)" rest]
      by (simp add: shortvec_def bytes numeral_2_eq_2)
  next
    case 3
    with v have d: "v div 16384 < 4" "0 < v div 16384" by simp_all
    have "v div 16384 = v div 128 div 128"
      using zdiv_zmult2_eq [of 128 v 128] by simp
    then have split: "v = v mod 128 + 128 * (v div 128 mod 128) + 16384 * (v div 16384)"
      using mult_div_mod_eq [of 128 v] mult_div_mod_eq [of 128 "v div 128"] by linarith
    define a b c :: byte where abc: "a = of_int (v mod 128 + 128)" "b = of_int (v div 128 mod 128 + 128)"
      "c = of_int (v div 16384)"
    have sv: "shortvec v = [a, b, c]" using 3 by (simp add: shortvec_def abc)
    have u: "uint a = v mod 128 + 128" "uint b = v div 128 mod 128 + 128" "uint c = v div 16384"
      unfolding abc using d by (intro uint_byte_of_int; simp)+
    have "c \<noteq> 0" using d u(3) by auto
    have "compactU16 r = Inr (v, advance r 3)"
    proof (rule compactU16_3 [OF r _ _ _ _ \<open>c \<noteq> 0\<close> _ v(2)])
      show "view r = a # b # c # rest" using v(3) sv by simp
      show "v = uint a - 128 + 128 * (uint b - 128) + 16384 * uint c" using split by (simp only: u) simp
    qed (use d u in simp_all)
    then show ?thesis using sv v(4) by (simp add: numeral_3_eq_3)
  qed
qed

lemma compactU16_loop_inv:
  assumes "compactU16_loop i val shift r = Inr (v, r')" and r: "in_bounds r"
    and i: "i < 3" and val: "0 \<le> val" "val < 2 ^ shift"
  obtains b bs where "view r = b # bs" and "in_bounds (advance r 1)" and
    "uint b < 128 \<and> (i = 0 \<or> b \<noteq> 0) \<and> v = val + 2 ^ shift * uint b \<and> v \<le> 0xffff \<and> r' = advance r 1 \<or>
     128 \<le> uint b \<and>
     compactU16_loop (Suc i) (val + 2 ^ shift * (uint b - 128)) (shift + 7) (advance r 1) = Inr (v, r')"
proof -
  obtain b q where b: "read_byte r = Inr (b, q)"
    using assms(1) i by (subst (asm) compactU16_loop.simps) (auto split: sum.splits)
  with wire_format.consumes [OF read_byte_wire_format b r] obtain bs where
    bs: "view r = b # bs" "q = advance r 1" by auto
  from in_bounds_Cons [OF r bs(1)] show thesis
    using that [OF bs(1)] assms(1) compactU16_step [OF b i val] bs(2)
    by (auto split: if_splits)
qed

lemma uint_byte_pos: "(b :: byte) \<noteq> 0 \<Longrightarrow> 1 \<le> uint b"
  using uint_0_iff [of b] uint_nonnegative [of b] by linarith

lemma shortvec_1: "uint a < 128 \<Longrightarrow> shortvec (uint a) = [a]"
  by (simp add: shortvec_def)

lemma base128_2:
  fixes x y :: int
  assumes "0 \<le> x" "x < 128"
  shows "(x + 128 * y) mod 128 = x" and "(x + 128 * y) div 128 = y"
  using assms by simp_all

lemma base128_3:
  fixes x y z :: int
  assumes "0 \<le> x" "x < 128" "0 \<le> y" "y < 128"
  shows "(x + 128 * y + 16384 * z) mod 128 = x"
    and "(x + 128 * y + 16384 * z) div 128 mod 128 = y"
    and "(x + 128 * y + 16384 * z) div 16384 = z"
proof -
  have v: "x + 128 * y + 16384 * z = x + 128 * (y + 128 * z)" by simp
  show "(x + 128 * y + 16384 * z) mod 128 = x"
    and "(x + 128 * y + 16384 * z) div 128 mod 128 = y"
    unfolding v using assms by (simp_all only: base128_2)
  have "(x + 128 * y + 16384 * z) div (128 * 128) = z"
    unfolding v using assms by (simp only: zdiv_zmult2_eq base128_2)
  then show "(x + 128 * y + 16384 * z) div 16384 = z" by simp
qed

lemma shortvec_2:
  assumes "128 \<le> uint a" "uint b < 128" "b \<noteq> 0"
  shows "shortvec (uint a - 128 + 128 * uint b) = [a, b]"
proof -
  have a: "0 \<le> uint a - 128" "uint a - 128 < 128"
    using assms(1) uint_byte_bounds [of a] by linarith+
  have "1 \<le> uint b" using assms(3) by (rule uint_byte_pos)
  with a assms(2) have "128 \<le> uint a - 128 + 128 * uint b" "uint a - 128 + 128 * uint b < 16384" by linarith+
  then show ?thesis
    by (simp only: shortvec_def base128_2 [OF a]) simp
qed

lemma shortvec_3:
  assumes "128 \<le> uint a" "128 \<le> uint b" "c \<noteq> 0"
  shows "shortvec (uint a - 128 + 128 * (uint b - 128) + 16384 * uint c) = [a, b, c]"
proof -
  have a: "0 \<le> uint a - 128" "uint a - 128 < 128"
    using assms(1) uint_byte_bounds [of a] by linarith+
  have b: "0 \<le> uint b - 128" "uint b - 128 < 128"
    using assms(2) uint_byte_bounds [of b] by linarith+
  have "1 \<le> uint c" using assms(3) by (rule uint_byte_pos)
  have low: "16384 \<le> x + 128 * y + 16384 * z" if "0 \<le> x" "0 \<le> y" "1 \<le> z" for x y z :: int
    using that by linarith
  have "16384 \<le> uint a - 128 + 128 * (uint b - 128) + 16384 * uint c"
    using a(1) b(1) \<open>1 \<le> uint c\<close> by (rule low)
  then show ?thesis
    by (simp only: shortvec_def base128_3 [OF a b]) simp
qed

lemma compactU16_consumes:
  assumes "compactU16 r = Inr (v, r')" and r: "in_bounds r"
  shows "\<exists>bs rest. fmt_u16 v bs \<and> view r = bs @ rest \<and> r' = advance r (length bs)"
proof -
  have bnd: "0 \<le> uint x - 128" "uint x - 128 < 128" if "128 \<le> uint x" for x :: byte
    using that uint_byte_bounds [of x] by linarith+
  have loop3: "\<not> compactU16_loop 3 x k q = Inr (v, r')" for x k q
    by (simp add: compactU16_loop.simps)
  from assms(1) have "compactU16_loop 0 0 0 r = Inr (v, r')" by (simp add: compactU16_def)
  then obtain a as where a: "view r = a # as" "in_bounds (advance r 1)"
    "uint a < 128 \<and> v = uint a \<and> r' = advance r 1 \<or>
     128 \<le> uint a \<and> compactU16_loop 1 (uint a - 128) 7 (advance r 1) = Inr (v, r')"
    by (rule compactU16_loop_inv [OF _ r]) auto
  from a(3) show ?thesis
  proof (elim disjE conjE)
    assume "uint a < 128" "v = uint a" "r' = advance r 1"
    with a show ?thesis
      by (rule_tac exI [of _ "[a]"]) (auto simp: fmt_u16_def shortvec_1)
  next
    assume a128: "128 \<le> uint a" and "compactU16_loop 1 (uint a - 128) 7 (advance r 1) = Inr (v, r')"
    from this(2) obtain b bs where b: "as = b # bs" "in_bounds (advance r 2)"
      "uint b < 128 \<and> b \<noteq> 0 \<and> v = uint a - 128 + 128 * uint b \<and> v \<le> 0xffff \<and> r' = advance r 2 \<or>
       128 \<le> uint b \<and>
       compactU16_loop 2 (uint a - 128 + 128 * (uint b - 128)) 14 (advance r 2) = Inr (v, r')"
      by (rule compactU16_loop_inv [OF _ a(2)]) (use a(1) bnd [OF a128] in \<open>auto simp: numeral_2_eq_2\<close>)
    from b(3) show ?thesis
    proof (elim disjE conjE)
      assume "uint b < 128" "b \<noteq> 0" "v = uint a - 128 + 128 * uint b" "v \<le> 0xffff" "r' = advance r 2"
      with a(1) b(1) a128 show ?thesis
        by (rule_tac exI [of _ "[a, b]"]) (auto simp: fmt_u16_def shortvec_2 numeral_2_eq_2)
    next
      assume b128: "128 \<le> uint b"
        and "compactU16_loop 2 (uint a - 128 + 128 * (uint b - 128)) 14 (advance r 2) = Inr (v, r')"
      have "uint a - 128 + 128 * (uint b - 128) < 2 ^ 14"
        using bnd(2) [OF a128] bnd(2) [OF b128] by simp
      from \<open>compactU16_loop 2 _ 14 _ = _\<close> obtain c cs where c: "bs = c # cs" "c \<noteq> 0"
        "v = uint a - 128 + 128 * (uint b - 128) + 16384 * uint c" "v \<le> 0xffff" "r' = advance r 3"
        by (rule compactU16_loop_inv [OF _ b(2)])
          (use a(1) b(1) bnd [OF a128] bnd [OF b128] loop3 \<open>_ < 2 ^ 14\<close> in \<open>auto simp: numeral_3_eq_3 numeral_2_eq_2\<close>)
      with a(1) b(1) a128 b128 shortvec_3 [OF a128 b128 c(2)] show ?thesis
        by (rule_tac exI [of _ "[a, b, c]"]) (auto simp: fmt_u16_def numeral_3_eq_3)
    qed
  qed
qed

lemma compactU16_wire_format: "wire_format compactU16 fmt_u16"
  by unfold_locales (fact compactU16_accepts compactU16_consumes)+

interpretation u16: wire_format compactU16 fmt_u16
  by (fact compactU16_wire_format)

interpretation u8: wire_format read_byte "\<lambda>x bs. bs = [x]"
  by (fact read_byte_wire_format)

text \<open>The counted byte string: a ShortVec length and that many bytes.\<close>

definition read_counted :: "(read_error \<Rightarrow> 'e) \<Rightarrow> (read_error \<Rightarrow> 'e) \<Rightarrow> reader \<Rightarrow> 'e + bytes \<times> reader" where
  "read_counted lenErr dataErr r =
     (case compactU16 r of
        Inl e \<Rightarrow> Inl (lenErr e)
      | Inr (n, r') \<Rightarrow> wrap_error dataErr (take_bytes r' n))"

definition counted :: "bytes \<Rightarrow> bytes" where
  "counted x = shortvec (int (length x)) @ x"

lemma read_counted_wire_format:
  "wire_format (read_counted f g) (\<lambda>x bs. length x \<le> 0xffff \<and> bs = counted x)"
proof (unfold_locales, goal_cases)
  case (1 x bs r rest)
  then have x: "fmt_u16 (int (length x)) (shortvec (int (length x)))"
    and v: "view r = shortvec (int (length x)) @ x @ rest"
    by (simp_all add: fmt_u16_def counted_def)
  let ?r = "advance r (length (shortvec (int (length x))))"
  have "take_bytes ?r (int (length x)) = Inr (x, advance ?r (length x))"
  proof (rule take_bytes_append)
    show "in_bounds ?r" using 1(2) by (rule in_bounds_advance) (simp add: v)
    show "view ?r = x @ rest" by (simp add: v)
  qed
  with u16.accepts [OF x 1(2) v] 1 show ?case
    by (simp add: read_counted_def counted_def)
next
  case (2 r x r')
  then obtain n r1 where n: "compactU16 r = Inr (n, r1)" "take_bytes r1 n = Inr (x, r')"
    by (auto simp: read_counted_def split: sum.splits)
  from u16.consumes [OF n(1) 2(2)] obtain rest where
    b: "0 \<le> n" "n \<le> 0xffff" "view r = shortvec n @ rest" "r1 = advance r (length (shortvec n))"
    by (auto simp: fmt_u16_def)
  from n(2) b(1) have "take_bytes r1 (int (nat n)) = Inr (x, r')" by simp
  from wire_format.consumes [OF take_bytes_wire_format this u16.consumes_in_bounds [OF n(1) 2(2)]] b
  show ?case by (auto simp: counted_def)
qed

lemma read_instruction_alt:
  "read_instruction i r =
     (case read_byte r of
        Inl e \<Rightarrow> Inl (IxProgramIndexErr i e)
      | Inr (p, r1) \<Rightarrow>
     (case read_counted (IxAccountCountErr i) (IxAccountsErr i) r1 of
        Inl e \<Rightarrow> Inl e
      | Inr (_, r2) \<Rightarrow>
     (case read_counted (IxDataLengthErr i) (IxDataErr i) r2 of
        Inl e \<Rightarrow> Inl e
      | Inr (d, r3) \<Rightarrow> Inr (\<lparr>programIndex = p, ix_data = d\<rparr>, r3))))"
  by (auto simp: read_instruction_def read_counted_def split: sum.splits prod.splits)

definition fmt_instruction :: "instruction \<Rightarrow> bytes \<Rightarrow> bool" where
  "fmt_instruction ix bs \<longleftrightarrow>
     (\<exists>idxs. length idxs \<le> 0xffff \<and> length (ix_data ix) \<le> 0xffff \<and>
        bs = [programIndex ix] @ counted idxs @ counted (ix_data ix))"

lemma read_instruction_wire_format: "wire_format (read_instruction i) fmt_instruction"
proof (unfold_locales, goal_cases)
  case (1 ix bs r rest)
  then obtain idxs where b: "length idxs \<le> 0xffff" "length (ix_data ix) \<le> 0xffff"
    "view r = programIndex ix # counted idxs @ counted (ix_data ix) @ rest"
    "bs = programIndex ix # counted idxs @ counted (ix_data ix)"
    by (auto simp: fmt_instruction_def)
  let ?n = "length (counted idxs)"
  have r1: "in_bounds (advance r 1)" "view (advance r 1) = counted idxs @ counted (ix_data ix) @ rest"
    using b(3) 1(2) in_bounds_Cons by auto
  have r2: "in_bounds (advance r (1 + ?n))" "view (advance r (1 + ?n)) = counted (ix_data ix) @ rest"
    using b(3) 1(2) by (simp_all add: in_bounds_advance)
  show ?case
    using read_byte_Cons [OF 1(2) b(3)] b
      wire_format.accepts [OF read_counted_wire_format [of "IxAccountCountErr i" "IxAccountsErr i"] _ r1, of idxs]
      wire_format.accepts [OF read_counted_wire_format [of "IxDataLengthErr i" "IxDataErr i"] _ r2, of "ix_data ix"]
    by (simp add: read_instruction_alt)
next
  case (2 r ix r')
  note cnt = read_counted_wire_format
  from 2 obtain p r1 idxs r2 d where i: "read_byte r = Inr (p, r1)"
    "read_counted (IxAccountCountErr i) (IxAccountsErr i) r1 = Inr (idxs, r2)"
    "read_counted (IxDataLengthErr i) (IxDataErr i) r2 = Inr (d, r')"
    "ix = \<lparr>programIndex = p, ix_data = d\<rparr>"
    by (auto simp: read_instruction_alt split: sum.splits)
  have b1: "in_bounds r1" by (rule u8.consumes_in_bounds [OF i(1) 2(2)])
  have b2: "in_bounds r2" by (rule wire_format.consumes_in_bounds [OF cnt i(2) b1])
  from u8.consumes [OF i(1) 2(2)] wire_format.consumes [OF cnt i(2) b1] wire_format.consumes [OF cnt i(3) b2]
  obtain rest where
    "length idxs \<le> 0xffff" "length d \<le> 0xffff" "view r = [p] @ counted idxs @ counted d @ rest"
    "r' = advance r (length ([p] @ counted idxs @ counted d))"
    by auto
  with i(4) show ?case
    by (rule_tac exI [of _ "[p] @ counted idxs @ counted d"]) (auto simp: fmt_instruction_def)
qed

lemma read_account_wire_format: "wire_format (read_account i) (\<lambda>x bs. x = bs \<and> length bs = addrLen)"
proof (unfold_locales, goal_cases)
  case (1 x bs r rest)
  then show ?case
    using take_bytes_append [of r bs rest] by (auto simp: read_account_def)
next
  case (2 r x r')
  then show ?case
    using wire_format.consumes [OF take_bytes_wire_format, of r addrLen x r'] by (auto simp: read_account_def)
qed

interpretation account_list: wire_format "read_items read_account i n"
  "\<lambda>xs bs. length xs = n \<and> fmt_items (\<lambda>x cs. x = cs \<and> length cs = addrLen) xs bs" for i n
  by (rule read_items_wire_format) (rule read_account_wire_format)

interpretation instruction_list: wire_format "read_items read_instruction i n"
  "\<lambda>xs bs. length xs = n \<and> fmt_items fmt_instruction xs bs" for i n
  by (rule read_items_wire_format) (rule read_instruction_wire_format)

lemma fmt_items_fixed:
  "fmt_items (\<lambda>x cs. x = cs \<and> length cs = k) xs bs \<longleftrightarrow> bs = concat xs \<and> (\<forall>x \<in> set xs. length x = k)"
  by (induction xs arbitrary: bs) auto

section \<open>The message grammar, and the parser that recognises it\<close>

definition fmt_message :: "message \<Rightarrow> bytes \<Rightarrow> bool" where
  "fmt_message m bs \<longleftrightarrow>
     (\<exists>header blockhash ixs.
        length header = 3 \<and> header ! 0 AND 0x80 = 0 \<and> length blockhash = addrLen \<and>
        length (accounts m) \<le> 0xffff \<and> (\<forall>a \<in> set (accounts m). length a = addrLen) \<and>
        length (instructions m) \<le> 0xffff \<and> fmt_items fmt_instruction (instructions m) ixs \<and>
        bs = header @ shortvec (int (length (accounts m))) @ concat (accounts m) @ blockhash @
             shortvec (int (length (instructions m))) @ ixs)"

lemma parseMessage_accepts:
  assumes "fmt_message m bs"
  shows "parseMessage bs = Inr m"
proof -
  let ?na = "shortvec (int (length (accounts m)))" and ?ni = "shortvec (int (length (instructions m)))"
  let ?as = "concat (accounts m)"
  from assms obtain hd bh ixs where f: "length hd = 3" "hd ! 0 AND 0x80 = 0" "length bh = addrLen"
    "length (accounts m) \<le> 0xffff" "\<forall>a \<in> set (accounts m). length a = addrLen"
    "length (instructions m) \<le> 0xffff" "fmt_items fmt_instruction (instructions m) ixs"
    and bs: "bs = hd @ ?na @ ?as @ bh @ ?ni @ ixs"
    by (auto simp: fmt_message_def)
  define r where "r = \<lparr>rd_b = bs, rd_off = 0\<rparr>"
  define off where "off = (\<lambda>bs. advance r (length (bs :: bytes)))"
  have at: "in_bounds (off p) \<and> view (off p) = q" if "bs = p @ q" for p q
    using that by (simp add: off_def r_def view_def advance_def in_bounds_def)
  have step: "advance (off p) (length q) = off (p @ q)" for p q
    by (simp add: off_def)
  have 1: "take_bytes r 3 = Inr (hd, off hd)"
    using take_bytes_append [of r hd] at [of "[]" bs] f(1) bs by (simp add: off_def)
  have 2: "compactU16 (off hd) = Inr (int (length (accounts m)), off (hd @ ?na))"
    using u16.accepts [of "int (length (accounts m))" ?na "off hd"] at [OF bs] f(4)
    by (simp add: fmt_u16_def step)
  have 3: "read_items read_account 0 (length (accounts m)) (off (hd @ ?na)) =
      Inr (accounts m, off (hd @ ?na @ ?as))"
    using account_list.accepts [of "accounts m" "length (accounts m)" ?as "off (hd @ ?na)"]
      at [of "hd @ ?na"] bs f(5) by (simp add: fmt_items_fixed step)
  have 4: "take_bytes (off (hd @ ?na @ ?as)) (int addrLen) = Inr (bh, off (hd @ ?na @ ?as @ bh))"
    using take_bytes_append [of "off (hd @ ?na @ ?as)" bh] at [of "hd @ ?na @ ?as"] bs f(3)
      step [of "hd @ ?na @ ?as" bh] by simp
  have 5: "compactU16 (off (hd @ ?na @ ?as @ bh)) =
      Inr (int (length (instructions m)), off (hd @ ?na @ ?as @ bh @ ?ni))"
    using u16.accepts [of "int (length (instructions m))" ?ni "off (hd @ ?na @ ?as @ bh)" ixs]
      at [of "hd @ ?na @ ?as @ bh"] bs f(6) by (simp add: fmt_u16_def step)
  have 6: "read_items read_instruction 0 (length (instructions m)) (off (hd @ ?na @ ?as @ bh @ ?ni)) =
      Inr (instructions m, off bs)"
    using instruction_list.accepts [of "instructions m" "length (instructions m)" ixs "off (hd @ ?na @ ?as @ bh @ ?ni)" "[]"]
      at [of "hd @ ?na @ ?as @ bh @ ?ni" ixs] bs f(7) by (simp add: step)
  have 7: "remaining (off bs) = 0" using at [of bs "[]"] by (simp add: remaining_view)
  have "bs \<noteq> []" "bs ! 0 AND 0x80 = 0" using bs f(1,2) by (auto simp: nth_append)
  then show ?thesis
    using 1 2 3 4 5 6 7 by (simp add: parseMessage_def r_def [symmetric])
qed

lemma parseMessage_consumes:
  assumes "parseMessage bs = Inr m"
  shows "fmt_message m bs"
proof -
  define r where "r = \<lparr>rd_b = bs, rd_off = 0\<rparr>"
  have r: "in_bounds r" "view r = bs" by (simp_all add: r_def in_bounds_def view_def)
  from assms obtain hd r1 na r2 r3 bh r4 ni r5 r6 where p:
    "take_bytes r (int 3) = Inr (hd, r1)" "compactU16 r1 = Inr (na, r2)"
    "read_items read_account 0 (nat na) r2 = Inr (accounts m, r3)"
    "take_bytes r3 (int addrLen) = Inr (bh, r4)" "compactU16 r4 = Inr (ni, r5)"
    "read_items read_instruction 0 (nat ni) r5 = Inr (instructions m, r6)" "remaining r6 = 0"
    and v: "bs ! 0 AND 0x80 = 0"
    by (auto simp: parseMessage_def r_def [symmetric] Let_def split: if_splits sum.splits)
  note tk = take_bytes_wire_format
  have b1: "in_bounds r1" by (rule wire_format.consumes_in_bounds [OF tk p(1) r(1)])
  have b2: "in_bounds r2" by (rule u16.consumes_in_bounds [OF p(2) b1])
  have b3: "in_bounds r3" by (rule account_list.consumes_in_bounds [OF p(3) b2])
  have b4: "in_bounds r4" by (rule wire_format.consumes_in_bounds [OF tk p(4) b3])
  have b5: "in_bounds r5" by (rule u16.consumes_in_bounds [OF p(5) b4])
  have b6: "in_bounds r6" by (rule instruction_list.consumes_in_bounds [OF p(6) b5])
  have "view r6 = []" using p(7) remaining_view [OF b6] by simp
  then obtain ixs where ixs: "length (instructions m) = nat ni"
    "fmt_items fmt_instruction (instructions m) ixs" "view r5 = ixs"
    using instruction_list.reads_iff [OF b5, of 0 "nat ni" "instructions m" r6] p(6) by auto
  from u16.reads_iff [OF b4, of ni r5] p(5) ixs
  have "0 \<le> ni" "ni \<le> 0xffff" and v4: "view r4 = shortvec ni @ ixs" by (auto simp: fmt_u16_def)
  from wire_format.reads_iff [OF tk b3, of addrLen bh r4] p(4) v4
  have v3: "length bh = addrLen" "view r3 = bh @ shortvec ni @ ixs" by auto
  from account_list.reads_iff [OF b2, of 0 "nat na" "accounts m" r3] p(3) v3
  have v2: "length (accounts m) = nat na" "\<forall>a \<in> set (accounts m). length a = addrLen"
    "view r2 = concat (accounts m) @ bh @ shortvec ni @ ixs" by (auto simp: fmt_items_fixed)
  from u16.reads_iff [OF b1, of na r2] p(2) v2
  have "0 \<le> na" "na \<le> 0xffff"
    and v1: "view r1 = shortvec na @ concat (accounts m) @ bh @ shortvec ni @ ixs" by (auto simp: fmt_u16_def)
  from wire_format.reads_iff [OF tk r(1), of 3 hd r1] p(1) v1 r(2)
  have hd: "length hd = 3" "bs = hd @ shortvec na @ concat (accounts m) @ bh @ shortvec ni @ ixs" by auto
  with v have "hd ! 0 AND 0x80 = 0" by (simp add: nth_append)
  with hd v2 v3 ixs \<open>0 \<le> ni\<close> \<open>ni \<le> 0xffff\<close> \<open>0 \<le> na\<close> \<open>na \<le> 0xffff\<close> show ?thesis
    unfolding fmt_message_def by (rule_tac exI [of _ hd], rule_tac exI [of _ bh], rule_tac exI [of _ ixs]) auto
qed

lemma parseMessage_iff: "parseMessage bs = Inr m \<longleftrightarrow> fmt_message m bs"
  using parseMessage_accepts parseMessage_consumes by blast

text \<open>
  A serialised message with everything it carries: the accounts an instruction names are part
  of the wire format, though \<open>parseMessage\<close> skips over them.
\<close>

record wire_instruction =
  wi_program :: byte
  wi_accounts :: bytes
  wi_data :: bytes

definition serialize_instruction :: "wire_instruction \<Rightarrow> bytes" where
  "serialize_instruction w = wi_program w # counted (wi_accounts w) @ counted (wi_data w)"

definition serialize_message :: "bytes \<Rightarrow> bytes list \<Rightarrow> bytes \<Rightarrow> wire_instruction list \<Rightarrow> bytes" where
  "serialize_message header accts blockhash ws =
     header @ shortvec (int (length accts)) @ concat accts @ blockhash @
     shortvec (int (length ws)) @ concat (map serialize_instruction ws)"

definition serializable :: "bytes \<Rightarrow> bytes list \<Rightarrow> bytes \<Rightarrow> wire_instruction list \<Rightarrow> bool" where
  "serializable header accts blockhash ws \<longleftrightarrow>
     length header = 3 \<and> header ! 0 AND 0x80 = 0 \<and> length blockhash = addrLen \<and>
     length accts \<le> 0xffff \<and> list_all (\<lambda>a. length a = addrLen) accts \<and> length ws \<le> 0xffff \<and>
     list_all (\<lambda>w. length (wi_accounts w) \<le> 0xffff \<and> length (wi_data w) \<le> 0xffff) ws"

definition seen_instruction :: "wire_instruction \<Rightarrow> instruction" where
  "seen_instruction w = \<lparr>programIndex = wi_program w, ix_data = wi_data w\<rparr>"

lemma fmt_items_serialized:
  "list_all (\<lambda>w. length (wi_accounts w) \<le> 0xffff \<and> length (wi_data w) \<le> 0xffff) ws \<Longrightarrow>
     fmt_items fmt_instruction (map seen_instruction ws) (concat (map serialize_instruction ws))"
proof (induction ws)
  case (Cons w ws)
  then have "fmt_instruction (seen_instruction w) (serialize_instruction w)"
    by (auto simp: fmt_instruction_def seen_instruction_def serialize_instruction_def)
  with Cons show ?case by auto
qed simp

lemma fmt_serialize_message:
  "serializable header accts blockhash ws \<Longrightarrow>
     fmt_message \<lparr>accounts = accts, instructions = map seen_instruction ws\<rparr>
       (serialize_message header accts blockhash ws)"
  unfolding fmt_message_def serializable_def serialize_message_def
  by (rule_tac exI [of _ header], rule_tac exI [of _ blockhash], rule_tac exI)
    (auto simp: list_all_iff intro: fmt_items_serialized)

section \<open>Base58 decoding is positional evaluation\<close>

text \<open>
  The accumulator is a little-endian base-256 number without superfluous high zeros, so it is
  determined by its value.
\<close>

fun le_value :: "bytes \<Rightarrow> nat" where
  "le_value [] = 0"
| "le_value (b # bs) = unat b + 256 * le_value bs"

definition canonical :: "bytes \<Rightarrow> bool" where
  "canonical bs \<longleftrightarrow> bs = [] \<or> last bs \<noteq> 0"

fun b58_value :: "string \<Rightarrow> nat \<Rightarrow> nat option" where
  "b58_value [] v = Some v"
| "b58_value (c # cs) v =
     (case index_from 0 c b58Alphabet of None \<Rightarrow> None | Some i \<Rightarrow> b58_value cs (58 * v + i))"

lemma le_value_append: "le_value (xs @ ys) = le_value xs + 256 ^ length xs * le_value ys"
  by (induction xs) (auto simp: algebra_simps)

lemma le_value_less: "le_value xs < 256 ^ length xs"
proof (induction xs)
  case (Cons b bs)
  with unat_byte_less [of b] show ?case by (simp add: less_eq_Suc_le)
qed simp

lemma canonical_le_value_ge: "canonical xs \<Longrightarrow> xs \<noteq> [] \<Longrightarrow> 256 ^ (length xs - 1) \<le> le_value xs"
proof (cases xs rule: rev_cases)
  case (snoc ys y)
  assume "canonical xs"
  with snoc have "1 \<le> unat y" by (simp add: canonical_def unat_gt_0 Suc_le_eq)
  then have "256 ^ length ys * 1 \<le> 256 ^ length ys * unat y" by (rule mult_le_mono2)
  with snoc show ?thesis by (simp add: le_value_append trans_le_add2)
qed simp

lemma canonical_le_value_pos: "canonical xs \<Longrightarrow> xs \<noteq> [] \<Longrightarrow> 0 < le_value xs"
  using canonical_le_value_ge [of xs] by (rule less_le_trans [rotated]) simp_all

lemma base256_digit:
  fixes a b p q :: nat
  assumes "a + 256 * p = b + 256 * q" and "a < 256" and "b < 256"
  shows "a = b \<and> p = q"
proof -
  from assms(1) have "(a + 256 * p) mod 256 = (b + 256 * q) mod 256" by (rule arg_cong)
  then have "a = b" using assms(2,3) by simp
  with assms(1) show ?thesis by simp
qed

lemma le_value_inj: "canonical xs \<Longrightarrow> canonical ys \<Longrightarrow> le_value xs = le_value ys \<Longrightarrow> xs = ys"
proof (induction xs arbitrary: ys)
  case Nil
  then show ?case using canonical_le_value_pos [of ys] by auto
next
  case (Cons x xs)
  then have "0 < le_value (x # xs)" using canonical_le_value_pos [of "x # xs"] by blast
  with Cons.prems(3) obtain y zs where y: "ys = y # zs" by (cases ys) auto
  with Cons.prems(3) have "unat x + 256 * le_value xs = unat y + 256 * le_value zs" by simp
  from base256_digit [OF this unat_byte_less unat_byte_less]
  have "unat x = unat y" "le_value xs = le_value zs" by simp_all
  have "canonical xs" "canonical zs"
    using Cons.prems(1,2) y by (auto simp: canonical_def split: if_splits)
  then have "xs = zs" using \<open>le_value xs = le_value zs\<close> by (rule Cons.IH)
  moreover have "x = y" using \<open>unat x = unat y\<close> by (rule unsigned_word_eqI)
  ultimately show ?case using y by simp
qed

lemma b58_mul_value:
  "b58_mul c xs = (ys, c') \<Longrightarrow>
     length ys = length xs \<and> le_value ys + 256 ^ length xs * c' = 58 * le_value xs + c \<and> (c < 58 \<longrightarrow> c' < 58)"
proof (induction xs arbitrary: c ys c')
  case (Cons x xs)
  let ?c = "c + 58 * unat x"
  from Cons.prems obtain zs where z: "b58_mul (?c div 256) xs = (zs, c')" "ys = of_nat (?c mod 256) # zs"
    by (auto simp: Let_def split: prod.splits)
  have "unat (of_nat (?c mod 256) :: byte) = ?c mod 256" by (simp add: unat_of_nat)
  moreover have "c < 58 \<Longrightarrow> ?c div 256 < 58" using unat_byte_less [of x] by linarith
  moreover have "?c mod 256 + 256 * (?c div 256) = ?c" by simp
  moreover from Cons.IH [OF z(1)] have "length zs = length xs"
    "le_value zs + 256 ^ length xs * c' = 58 * le_value xs + ?c div 256" "?c div 256 < 58 \<longrightarrow> c' < 58"
    by blast+
  ultimately have "?c mod 256 + 256 * (le_value zs + 256 ^ length xs * c') = 58 * (unat x + 256 * le_value xs) + c"
    and "length ys = length (x # xs)" and "c < 58 \<longrightarrow> c' < 58"
    using z(2) by (simp_all add: distrib_left)
  then show ?case
    using z(2) \<open>unat (of_nat (?c mod 256) :: byte) = _\<close> by (simp add: distrib_left mult.assoc mult.left_commute)
qed simp

lemma b58_flush_small:
  assumes "c < 58"
  shows "b58_flush 0 c out = Inr (out @ (if c = 0 then [] else [of_nat c]))"
  using assms by (simp add: b58_flush.simps [of 0 c out] b58_flush.simps [of "Suc 0" 0] addrLen_def)

text \<open>One digit: the carry left by the multiplication is a single byte.\<close>

lemma b58_digit_step:
  assumes "b58_mul i xs = (ys, c)" and "i < 58" and "canonical xs"
  obtains zs where "b58_flush 0 c ys = Inr zs" and "canonical zs" and "le_value zs = 58 * le_value xs + i"
proof -
  from b58_mul_value [OF assms(1)] assms(2)
  have m: "length ys = length xs" "le_value ys + 256 ^ length xs * c = 58 * le_value xs + i" "c < 58"
    by auto
  let ?zs = "ys @ (if c = 0 then [] else [of_nat c])"
  have c: "unat (of_nat c :: byte) = c" using m(3) by (simp add: unat_of_nat)
  have "le_value ?zs = 58 * le_value xs + i"
    using m(1,2) c by (cases "c = 0") (simp_all add: le_value_append)
  moreover have "canonical ?zs"
  proof (cases "c = 0 \<and> ys \<noteq> []")
    case True
    with m have "256 ^ (length ys - 1) \<le> le_value ys"
      using canonical_le_value_ge [OF assms(3)] by fastforce
    moreover have "le_value ys < 256 ^ (length ys - 1)" if "last ys = 0"
      using that True le_value_less [of "butlast ys"] append_butlast_last_id [of ys]
        le_value_append [of "butlast ys" "[last ys]"] by simp
    ultimately show ?thesis using True by (auto simp: canonical_def)
  next
    case False
    with c show ?thesis by (auto simp: canonical_def)
  qed
  ultimately show thesis using that b58_flush_small [OF m(3)] by blast
qed

lemma index_from_less: "index_from i c xs = Some j \<Longrightarrow> j < i + length xs"
  by (induction i c xs rule: index_from.induct) (auto split: if_splits)

lemma b58_digits_value:
  "canonical out \<Longrightarrow>
     (case b58_value s (le_value out) of
        None \<Rightarrow> b58_digits s out = Inl NotBase58
      | Some v \<Rightarrow> \<exists>zs. b58_digits s out = Inr zs \<and> canonical zs \<and> le_value zs = v)"
proof (induction s arbitrary: out)
  case (Cons c s)
  show ?case
  proof (cases "index_from 0 c b58Alphabet")
    case (Some i)
    then have i: "i < 58" using index_from_less [OF Some] by (simp add: b58Alphabet_def)
    obtain ys k where m: "b58_mul i out = (ys, k)" by fastforce
    obtain zs where z: "b58_flush 0 k ys = Inr zs" "canonical zs" "le_value zs = 58 * le_value out + i"
      using b58_digit_step [OF m i Cons.prems] .
    then have "b58_digits (c # s) out = b58_digits s zs" using Some m by simp
    moreover have "b58_value (c # s) (le_value out) = b58_value s (le_value zs)"
      using Some z(3) by simp
    ultimately show ?thesis using Cons.IH [OF z(2)] by (simp only:)
  qed simp
qed simp

text \<open>
  The decoder never reports \<open>AddressDoesNotTerminate\<close>: it fails exactly on a character outside
  the alphabet, and otherwise returns the big-endian bytes of the number the string denotes,
  behind one zero byte per leading \<open>1\<close>.
\<close>

lemma base58Decode_result:
  assumes "b58_value s 0 = Some v" and "canonical out" and "le_value out = v"
  shows "base58Decode s = Inr (rev (out @ replicate (length (takeWhile (\<lambda>c. c = CHR ''1'') s)) 0))"
proof -
  have "canonical []" by (simp add: canonical_def)
  from b58_digits_value [OF this, of s] assms(1) obtain zs where
    "b58_digits s [] = Inr zs" "canonical zs" "le_value zs = v" by auto
  with le_value_inj [OF _ assms(2), of zs] assms(3) show ?thesis
    by (simp add: base58Decode_def)
qed

section \<open>Properties\<close>

text \<open>
  C15: the parser recognises exactly the legacy message grammar. \<open>parseMessage\<close> returns a
  message if and only if the payload is, to the last byte, a header without the version bit,
  a ShortVec-counted list of 32-byte accounts, a 32-byte blockhash and a ShortVec-counted list
  of instructions, and then it returns the accounts and the instructions written there.
\<close>

theorem parseMessage_exact: "parseMessage payload = Inr m \<longleftrightarrow> fmt_message m payload"
  by (rule parseMessage_iff)

text \<open>
  C25: parsing a serialised message gives back its accounts and, in order, the program index
  and the data of each of its instructions.
\<close>

theorem parse_serialized:
  assumes "serializable header accts blockhash ws"
  shows "parseMessage (serialize_message header accts blockhash ws) =
    Inr \<lparr>accounts = accts, instructions = map seen_instruction ws\<rparr>"
  by (rule parseMessage_accepts [OF fmt_serialize_message [OF assms]])

theorem parse_serialized_witness:
  "parseMessage (serialize_message [1, 0, 1] [replicate 32 5, replicate 32 6] (replicate 32 9)
       [\<lparr>wi_program = 1, wi_accounts = [0], wi_data = [2, 0, 0, 0]\<rparr>]) =
     Inr \<lparr>accounts = [replicate 32 5, replicate 32 6],
          instructions = [\<lparr>programIndex = 1, ix_data = [2, 0, 0, 0]\<rparr>]\<rparr>"
proof -
  have "serializable [1, 0, 1] [replicate 32 5, replicate 32 6] (replicate 32 9)
      [\<lparr>wi_program = 1, wi_accounts = [0], wi_data = [2, 0, 0, 0]\<rparr>]"
    by (simp add: serializable_def addrLen_def)
  from parse_serialized [OF this] show ?thesis by (simp add: seen_instruction_def)
qed

text \<open>
  The ShortVec reader accepts exactly the canonical encodings of the numbers up to 65535.
  On a reader inside its buffer, \<open>compactU16\<close> returns a value and a new position if and only if
  the value is a \<open>uint16\<close>, the bytes consumed are its shortest seven-bit encoding, and the new
  position is just behind them.
\<close>

theorem compactU16_exact:
  assumes "in_bounds r"
  shows "compactU16 r = Inr (v, r') \<longleftrightarrow>
    0 \<le> v \<and> v \<le> 0xffff \<and> view r = shortvec v @ view r' \<and> r' = advance r (length (shortvec v))"
  using u16.reads_iff [OF assms] by (auto simp: fmt_u16_def)

theorem compactU16_exact_witness:
  "compactU16 \<lparr>rd_b = [0x80, 0x02, 7], rd_off = 0\<rparr> = Inr (256, \<lparr>rd_b = [0x80, 0x02, 7], rd_off = 2\<rparr>)"
  by (subst compactU16_exact) (simp_all add: in_bounds_def view_def shortvec_def advance_def)

text \<open>
  Base58 decoding is positional evaluation. Where every character is in the alphabet the
  decoder returns the big-endian base-256 digits of the number the string denotes, with one
  zero byte per leading \<open>1\<close>; its only error is a character outside the alphabet, so the bound on
  the carry loop is never what stops it.
\<close>

theorem base58Decode_exact:
  "(case b58_value s 0 of
      None \<Rightarrow> base58Decode s = Inl NotBase58
    | Some v \<Rightarrow>
        \<exists>digits. base58Decode s = Inr (replicate (length (takeWhile (\<lambda>c. c = CHR ''1'') s)) 0 @ rev digits) \<and>
          canonical digits \<and> le_value digits = v)"
  using b58_digits_value [of "[]" s]
  by (auto simp: base58Decode_def canonical_def split: option.splits)

end
