(* ===== verification/Solana_Policy.thy ===== *)
theory Solana_Policy
  imports Solana_Message
begin

unbundle bit_operations_syntax

text \<open>
  The signing policy of the Solana signer (\<open>src/solana/solana.go\<close>): \<open>Approve\<close> reads a
  transaction message and says whether the guarded key may sign it.

  \<open>Approve\<close> is translated branch by branch; every refusal is a constructor of \<open>refusal\<close>. The
  declarative reading of the policy is \<open>approvable\<close>, over the wire grammar of
  \<open>Solana_Message\<close>; the two are shown to be the same. What the policy cannot see (which mint
  an instruction names, how many lamports a new account receives) is stated too.
\<close>

section \<open>Programs and discriminators\<close>

text \<open>
  The package variables are computed at initialisation by \<open>mustAddr\<close>, which panics on a bad
  address. The panic is the empty byte string here; it does not happen
  (\<open>program_addresses\<close> below).
\<close>

definition program_id :: "string \<Rightarrow> bytes" where
  "program_id s = (case mustAddr s of None \<Rightarrow> [] | Some a \<Rightarrow> a)"

definition systemProgram :: bytes where
  "systemProgram = program_id ''11111111111111111111111111111111''"

definition tokenProgram :: bytes where
  "tokenProgram = program_id ''TokenkegQfeZyiNwAJbNbGKPFXCWuBvf9Ss623VQ5DA''"

definition ataProgram :: bytes where
  "ataProgram = program_id ''ATokenGPvbdGVxr1b2hvZbsiqW5xWH25efTNsLJA8knL''"

definition metadataProgram :: bytes where
  "metadataProgram = program_id ''metaqbxxUerdq28cj1RbAWkYQm3ybzjb6a8bt518x1s''"

definition splMintTo :: byte where "splMintTo = 7"

definition splSetAuthority :: byte where "splSetAuthority = 6"

definition authorityMintTokens :: byte where "authorityMintTokens = 0"

definition authorityFreezeAccnt :: byte where "authorityFreezeAccnt = 1"

definition systemTransfer :: u32 where "systemTransfer = 2"

definition systemCreateAccount :: u32 where "systemCreateAccount = 0"

definition systemTransferWithSed :: u32 where "systemTransferWithSed = 11"

lemmas discriminator_defs = splMintTo_def splSetAuthority_def authorityMintTokens_def
  authorityFreezeAccnt_def systemTransfer_def systemCreateAccount_def systemTransferWithSed_def

section \<open>The policy\<close>

record Solana =
  Payer :: bytes

datatype system_error = NoDiscriminator | SystemTransferRefused | SystemNotGranted

datatype token_error =
    EmptyTokenInstruction
  | MalformedSetAuthority
  | SetAuthorityToNewKey
  | AuthorityNotGranted
  | TokenNotGranted

datatype refusal =
    RefusedParse parse_error
  | RefusedNoAccounts
  | RefusedFeePayer
  | RefusedProgramIndex nat program_error
  | RefusedSystem nat system_error
  | RefusedToken nat token_error
  | RefusedProgram nat
  | RefusedMintNotRevoked
  | RefusedFreezeNotRevoked

datatype tokenKind = tokenKindOther | tokenKindMintTo | tokenKindRevokeMint | tokenKindRevokeFreeze

text \<open>\<open>binary.LittleEndian.Uint32\<close> of the first four bytes.\<close>

definition le_uint32 :: "bytes \<Rightarrow> u32" where
  "le_uint32 b = ucast (b ! 0) OR push_bit 8 (ucast (b ! 1)) OR push_bit 16 (ucast (b ! 2))
     OR push_bit 24 (ucast (b ! 3))"

definition approveSystem :: "bytes \<Rightarrow> system_error option" where
  "approveSystem d =
     (if length d < 4 then Some NoDiscriminator
      else let k = le_uint32 (take 4 d) in
        if k = systemCreateAccount then None
        else if k = systemTransfer \<or> k = systemTransferWithSed then Some SystemTransferRefused
        else Some SystemNotGranted)"

definition approveToken :: "bytes \<Rightarrow> token_error + tokenKind" where
  "approveToken d =
     (if length d = 0 then Inl EmptyTokenInstruction
      else if d ! 0 = splMintTo then Inr tokenKindMintTo
      else if d ! 0 = splSetAuthority then
        (if length d < 3 then Inl MalformedSetAuthority
         else if d ! 2 \<noteq> 0 then Inl SetAuthorityToNewKey
         else if d ! 1 = authorityMintTokens then Inr tokenKindRevokeMint
         else if d ! 1 = authorityFreezeAccnt then Inr tokenKindRevokeFreeze
         else Inl AuthorityNotGranted)
      else Inl TokenNotGranted)"

text \<open>The counters \<open>mints\<close>, \<open>revokedMint\<close> and \<open>revokedFreeze\<close> of the loop.\<close>

record tally =
  mints :: nat
  revokedMint :: nat
  revokedFreeze :: nat

definition tally_kind :: "tokenKind \<Rightarrow> tally \<Rightarrow> tally" where
  "tally_kind k t =
     (case k of
        tokenKindMintTo \<Rightarrow> t\<lparr>mints := mints t + 1\<rparr>
      | tokenKindRevokeMint \<Rightarrow> t\<lparr>revokedMint := revokedMint t + 1\<rparr>
      | tokenKindRevokeFreeze \<Rightarrow> t\<lparr>revokedFreeze := revokedFreeze t + 1\<rparr>
      | tokenKindOther \<Rightarrow> t)"

definition approve_instruction :: "message \<Rightarrow> nat \<Rightarrow> instruction \<Rightarrow> tally \<Rightarrow> refusal + tally" where
  "approve_instruction m i ix t =
     (case programOf m ix of
        Inl e \<Rightarrow> Inl (RefusedProgramIndex i e)
      | Inr prog \<Rightarrow>
          if prog = systemProgram then
            (case approveSystem (ix_data ix) of
               Some e \<Rightarrow> Inl (RefusedSystem i e)
             | None \<Rightarrow> Inr t)
          else if prog = tokenProgram then
            (case approveToken (ix_data ix) of
               Inl e \<Rightarrow> Inl (RefusedToken i e)
             | Inr kind \<Rightarrow> Inr (tally_kind kind t))
          else if prog = ataProgram \<or> prog = metadataProgram then Inr t
          else Inl (RefusedProgram i))"

fun approve_loop :: "message \<Rightarrow> nat \<Rightarrow> instruction list \<Rightarrow> tally \<Rightarrow> refusal + tally" where
  "approve_loop m i [] t = Inr t"
| "approve_loop m i (ix # ixs) t =
     (case approve_instruction m i ix t of
        Inl e \<Rightarrow> Inl e
      | Inr t' \<Rightarrow> approve_loop m (Suc i) ixs t')"

definition Approve :: "Solana \<Rightarrow> bytes \<Rightarrow> refusal option" where
  "Approve p payload =
     (case parseMessage payload of
        Inl e \<Rightarrow> Some (RefusedParse e)
      | Inr msg \<Rightarrow>
          if length (accounts msg) = 0 then Some RefusedNoAccounts
          else if accounts msg ! 0 \<noteq> Payer p then Some RefusedFeePayer
          else
            (case approve_loop msg 0 (instructions msg) \<lparr>mints = 0, revokedMint = 0, revokedFreeze = 0\<rparr> of
               Inl e \<Rightarrow> Some e
             | Inr t \<Rightarrow>
                 if 0 < mints t then
                   if revokedMint t < 1 then Some RefusedMintNotRevoked
                   else if revokedFreeze t < 1 then Some RefusedFreezeNotRevoked
                   else None
                 else None))"

definition BindKey :: "Solana \<Rightarrow> bytes \<Rightarrow> Solana" where
  "BindKey p pub = p\<lparr>Payer := pub\<rparr>"

section \<open>The program addresses\<close>

lemma mustAddr_result:
  assumes "b58_value s 0 = Some (le_value out)" and "canonical out"
    and "b = rev (out @ replicate (length (takeWhile (\<lambda>c. c = CHR ''1'') s)) 0)" and "length b = 32"
  shows "program_id s = b"
  using base58Decode_result [OF assms(1,2) refl] assms(3,4)
  by (simp add: program_id_def mustAddr_def addrLen_def)

lemma systemProgram_bytes: "systemProgram = replicate 32 0"
  unfolding systemProgram_def
  by (rule mustAddr_result [of _ "[]"]) (simp_all add: b58Alphabet_def canonical_def numeral_eq_Suc)

lemma tokenProgram_bytes:
  "tokenProgram =
     [6, 221, 246, 225, 215, 101, 161, 147, 217, 203, 225, 70, 206, 235, 121, 172,
      28, 180, 133, 237, 95, 91, 55, 145, 58, 140, 245, 133, 126, 255, 0, 169]" (is "_ = ?b")
  unfolding tokenProgram_def
  by (rule mustAddr_result [of _ "rev ?b"]) (simp_all add: b58Alphabet_def canonical_def)

lemma ataProgram_bytes:
  "ataProgram =
     [140, 151, 37, 143, 78, 36, 137, 241, 187, 61, 16, 41, 20, 142, 13, 131,
      11, 90, 19, 153, 218, 255, 16, 132, 4, 142, 123, 216, 219, 233, 248, 89]" (is "_ = ?b")
  unfolding ataProgram_def
  by (rule mustAddr_result [of _ "rev ?b"]) (simp_all add: b58Alphabet_def canonical_def)

lemma metadataProgram_bytes:
  "metadataProgram =
     [11, 112, 101, 177, 227, 209, 124, 69, 56, 157, 82, 127, 107, 4, 195, 205,
      88, 184, 108, 115, 26, 160, 253, 181, 73, 182, 209, 188, 3, 248, 41, 70]" (is "_ = ?b")
  unfolding metadataProgram_def
  by (rule mustAddr_result [of _ "rev ?b"]) (simp_all add: b58Alphabet_def canonical_def)

lemmas program_bytes = systemProgram_bytes tokenProgram_bytes ataProgram_bytes metadataProgram_bytes

lemma program_addresses [simp]:
  "length systemProgram = 32" "length tokenProgram = 32" "length ataProgram = 32"
  "length metadataProgram = 32"
  by (simp_all add: program_bytes)

lemma program_heads:
  "systemProgram ! 0 = 0" "tokenProgram ! 0 = 6" "ataProgram ! 0 = 140" "metadataProgram ! 0 = 11"
  by (simp_all add: program_bytes)

lemma programs_distinct [simp]:
  "tokenProgram \<noteq> systemProgram" "ataProgram \<noteq> systemProgram" "metadataProgram \<noteq> systemProgram"
  "ataProgram \<noteq> tokenProgram" "metadataProgram \<noteq> tokenProgram" "metadataProgram \<noteq> ataProgram"
  using program_heads by auto

lemmas programs_distinct' [simp] = programs_distinct [symmetric]

section \<open>The policy as a predicate\<close>

text \<open>
  What one instruction may be, and what the whole message must contain, read off the comment
  of \<open>Approve\<close> and stated without the parser and without the loop.
\<close>

definition invokes :: "message \<Rightarrow> instruction \<Rightarrow> bytes \<Rightarrow> bool" where
  "invokes m ix prog \<longleftrightarrow>
     unat (programIndex ix) < length (accounts m) \<and> accounts m ! unat (programIndex ix) = prog"

definition is_create_account :: "bytes \<Rightarrow> bool" where
  "is_create_account d \<longleftrightarrow> 4 \<le> length d \<and> take 4 d = [0, 0, 0, 0]"

definition is_mint_to :: "bytes \<Rightarrow> bool" where
  "is_mint_to d \<longleftrightarrow> (\<exists>rest. d = 7 # rest)"

definition is_revoke :: "byte \<Rightarrow> bytes \<Rightarrow> bool" where
  "is_revoke authority d \<longleftrightarrow> (\<exists>rest. d = 6 # authority # 0 # rest)"

definition granted :: "message \<Rightarrow> instruction \<Rightarrow> bool" where
  "granted m ix \<longleftrightarrow>
     invokes m ix systemProgram \<and> is_create_account (ix_data ix) \<or>
     invokes m ix tokenProgram \<and>
       (is_mint_to (ix_data ix) \<or> is_revoke 0 (ix_data ix) \<or> is_revoke 1 (ix_data ix)) \<or>
     invokes m ix ataProgram \<or> invokes m ix metadataProgram"

definition has_token_ix :: "message \<Rightarrow> (bytes \<Rightarrow> bool) \<Rightarrow> bool" where
  "has_token_ix m P \<longleftrightarrow> (\<exists>ix \<in> set (instructions m). invokes m ix tokenProgram \<and> P (ix_data ix))"

definition approvable :: "bytes \<Rightarrow> message \<Rightarrow> bool" where
  "approvable payer m \<longleftrightarrow>
     (\<exists>rest. accounts m = payer # rest) \<and>
     (\<forall>ix \<in> set (instructions m). granted m ix) \<and>
     (has_token_ix m is_mint_to \<longrightarrow> has_token_ix m (is_revoke 0) \<and> has_token_ix m (is_revoke 1))"

lemma programOf_iff: "programOf m ix = Inr prog \<longleftrightarrow> invokes m ix prog"
  by (auto simp: programOf_def invokes_def)

lemma invokes_unique: "invokes m ix p \<Longrightarrow> invokes m ix q \<Longrightarrow> p = q"
  by (simp add: invokes_def)

lemma le_uint32_zero:
  assumes "length d = 4"
  shows "le_uint32 d = 0 \<longleftrightarrow> d = [0, 0, 0, 0]"
proof -
  obtain a b c e where d: "d = [a, b, c, e]"
    using assms by (auto simp: length_Suc_conv numeral_eq_Suc)
  have bits: "bit (le_uint32 d) n \<longleftrightarrow>
      bit a n \<or> 8 \<le> n \<and> bit b (n - 8) \<or> 16 \<le> n \<and> bit c (n - 16) \<or> 24 \<le> n \<and> bit e (n - 24)" if "n < 32" for n
    using that by (auto simp: d le_uint32_def bit_simps)
  show ?thesis
  proof
    assume z: "le_uint32 d = 0"
    have "\<not> bit x k" if "x \<in> {a, b, c, e}" "k < 8" for x k
      using that z bits [of k] bits [of "k + 8"] bits [of "k + 16"] bits [of "k + 24"] by auto
    then have "x = 0" if "x \<in> {a, b, c, e}" for x
      using that by (intro bit_word_eqI) auto
    then show "d = [0, 0, 0, 0]" by (simp add: d)
  qed (simp add: le_uint32_def)
qed

lemma approveSystem_iff: "approveSystem d = None \<longleftrightarrow> is_create_account d"
  using le_uint32_zero [of "take 4 d"]
  by (auto simp: approveSystem_def is_create_account_def Let_def discriminator_defs)

lemma approveToken_iff:
  "approveToken d = Inr k \<longleftrightarrow>
     (k = tokenKindMintTo \<and> is_mint_to d \<or> k = tokenKindRevokeMint \<and> is_revoke 0 d \<or>
      k = tokenKindRevokeFreeze \<and> is_revoke 1 d)"
proof -
  consider "d = []" | x where "d = [x]" | x y where "d = [x, y]" | x y z d' where "d = x # y # z # d'"
    by (metis list.exhaust)
  then show ?thesis
    by cases (auto simp: approveToken_def is_mint_to_def is_revoke_def discriminator_defs)
qed

lemma token_kinds_exclusive:
  "\<not> (is_mint_to d \<and> is_revoke a d)" "\<not> (is_revoke 0 d \<and> is_revoke 1 d)"
  by (auto simp: is_mint_to_def is_revoke_def)

text \<open>One instruction: refused exactly when it is not granted, and counted by what it does.\<close>

definition counts :: "message \<Rightarrow> (bytes \<Rightarrow> bool) \<Rightarrow> instruction list \<Rightarrow> nat" where
  "counts m P ixs = length (filter (\<lambda>ix. invokes m ix tokenProgram \<and> P (ix_data ix)) ixs)"

lemma counts_pos: "0 < counts m P (instructions m) \<longleftrightarrow> has_token_ix m P"
  by (auto simp: counts_def has_token_ix_def filter_empty_conv)

lemma approve_instruction_iff:
  "approve_instruction m i ix t = Inr t' \<longleftrightarrow>
     granted m ix \<and>
     t' = \<lparr>mints = mints t + counts m is_mint_to [ix],
           revokedMint = revokedMint t + counts m (is_revoke 0) [ix],
           revokedFreeze = revokedFreeze t + counts m (is_revoke 1) [ix]\<rparr>"
proof (cases "programOf m ix")
  case (Inl e)
  then have "\<not> invokes m ix p" for p using programOf_iff [of m ix p] by simp
  with Inl show ?thesis by (simp add: approve_instruction_def granted_def)
next
  case (Inr p)
  then have inv: "invokes m ix q \<longleftrightarrow> q = p" for q
    using programOf_iff [of m ix p] invokes_unique by blast
  consider "p = systemProgram" | "p = tokenProgram" | "p = ataProgram" | "p = metadataProgram"
    | "p \<notin> {systemProgram, tokenProgram, ataProgram, metadataProgram}" by blast
  then show ?thesis
  proof cases
    case 1
    then show ?thesis
      using Inr approveSystem_iff [of "ix_data ix"]
      by (auto simp: approve_instruction_def granted_def inv counts_def split: option.splits)
  next
    case 2
    show ?thesis
    proof (cases "approveToken (ix_data ix)")
      case (Inl e)
      with approveToken_iff [of "ix_data ix"] have
        "\<not> is_mint_to (ix_data ix)" "\<not> is_revoke 0 (ix_data ix)" "\<not> is_revoke 1 (ix_data ix)" by simp_all
      with 2 Inr Inl show ?thesis
        by (simp add: approve_instruction_def granted_def inv)
    next
      case k: (Inr k)
      with approveToken_iff [of "ix_data ix" k] token_kinds_exclusive [of "ix_data ix"] 2 Inr show ?thesis
        by (auto simp: approve_instruction_def granted_def inv counts_def tally_kind_def)
    qed
  qed (use Inr in \<open>auto simp: approve_instruction_def granted_def inv counts_def\<close>)
qed

lemma counts_Cons: "counts m P (ix # ixs) = counts m P [ix] + counts m P ixs"
  by (simp add: counts_def)

lemma approve_loop_iff:
  "approve_loop m i ixs t = Inr t' \<longleftrightarrow>
     (\<forall>ix \<in> set ixs. granted m ix) \<and>
     t' = \<lparr>mints = mints t + counts m is_mint_to ixs,
           revokedMint = revokedMint t + counts m (is_revoke 0) ixs,
           revokedFreeze = revokedFreeze t + counts m (is_revoke 1) ixs\<rparr>"
proof (induction ixs arbitrary: i t)
  case Nil
  then show ?case by (auto simp: counts_def)
next
  case (Cons ix ixs)
  show ?case
  proof (cases "approve_instruction m i ix t")
    case (Inl e)
    then have "\<not> granted m ix" using approve_instruction_iff [of m i ix t] by auto
    with Inl show ?thesis by simp
  next
    case (Inr t1)
    with approve_instruction_iff [of m i ix t t1] Cons.IH [of "Suc i" t1] show ?thesis
      by (auto simp: counts_Cons [of m _ ix ixs])
  qed
qed

lemma parse_serialized_msg:
  "serializable header accts blockhash ws \<Longrightarrow>
     fmt_message m (serialize_message header accts blockhash ws) \<longleftrightarrow>
       m = \<lparr>accounts = accts, instructions = map seen_instruction ws\<rparr>"
  by (metis fmt_serialize_message parseMessage_iff sum.inject(2))

lemma Approve_iff: "Approve p payload = None \<longleftrightarrow> (\<exists>m. fmt_message m payload \<and> approvable (Payer p) m)"
proof (cases "parseMessage payload")
  case (Inl e)
  then show ?thesis using parseMessage_iff [of payload] by (auto simp: Approve_def)
next
  case (Inr m)
  then have u: "fmt_message m' payload \<longleftrightarrow> m' = m" for m'
    using parseMessage_iff [of payload] by (metis sum.inject(2))
  let ?t = "approve_loop m 0 (instructions m) \<lparr>mints = 0, revokedMint = 0, revokedFreeze = 0\<rparr>"
  have payer: "(\<exists>rest. accounts m = Payer p # rest) \<longleftrightarrow> accounts m \<noteq> [] \<and> accounts m ! 0 = Payer p"
    by (cases "accounts m") auto
  have "Approve p payload = None \<longleftrightarrow> accounts m \<noteq> [] \<and> accounts m ! 0 = Payer p \<and>
      (\<exists>t. ?t = Inr t \<and> (0 < mints t \<longrightarrow> 0 < revokedMint t \<and> 0 < revokedFreeze t))"
    using Inr by (auto simp: Approve_def split: sum.splits if_splits)
  then show ?thesis
    by (simp add: u payer approvable_def approve_loop_iff counts_pos)
qed

section \<open>Properties\<close>

text \<open>
  C1: \<open>Approve\<close> decides exactly the policy. A payload is approved if and only if it is a
  well-formed legacy message whose first account is the guarded key, each of whose
  instructions is a System CreateAccount, an SPL MintTo, an SPL revocation of the mint or the
  freeze authority, or a call of the associated-token or metadata program, and which, if it
  mints, also revokes a mint authority and a freeze authority.
\<close>

theorem Approve_exact:
  "Approve p payload = None \<longleftrightarrow> (\<exists>m. fmt_message m payload \<and> approvable (Payer p) m)"
  by (rule Approve_iff)

text \<open>
  No lamport transfer is ever approved. A serialised message that contains, anywhere, a
  System instruction with the discriminator of Transfer or TransferWithSeed is refused,
  whatever key the policy guards and whatever else the message holds.
\<close>

theorem Approve_refuses_transfer:
  assumes "serializable header accts blockhash ws" and "w \<in> set ws"
    and "unat (wi_program w) < length accts" and "accts ! unat (wi_program w) = systemProgram"
    and "take 4 (wi_data w) \<in> {[2, 0, 0, 0], [11, 0, 0, 0]}"
  shows "Approve p (serialize_message header accts blockhash ws) \<noteq> None"
proof
  let ?m = "\<lparr>accounts = accts, instructions = map seen_instruction ws\<rparr>"
  assume "Approve p (serialize_message header accts blockhash ws) = None"
  then obtain m where "fmt_message m (serialize_message header accts blockhash ws)" "approvable (Payer p) m"
    by (auto simp: Approve_iff)
  with parse_serialized_msg [OF assms(1)] have "approvable (Payer p) ?m" by metis
  with assms(2) have "granted ?m (seen_instruction w)" by (auto simp: approvable_def)
  moreover have "invokes ?m (seen_instruction w) q \<longleftrightarrow> q = systemProgram" for q
    using assms(3,4) by (auto simp: invokes_def seen_instruction_def)
  ultimately show False
    using assms(5) by (auto simp: granted_def is_create_account_def seen_instruction_def)
qed

theorem Approve_refuses_transfer_witness:
  "Approve \<lparr>Payer = replicate 32 5\<rparr> (serialize_message [1, 0, 1] [replicate 32 5, systemProgram] (replicate 32 9)
       [\<lparr>wi_program = 1, wi_accounts = [0, 0], wi_data = [2, 0, 0, 0, 1, 0, 0, 0, 0, 0, 0, 0]\<rparr>]) \<noteq> None"
  by (rule Approve_refuses_transfer [where w = "\<lparr>wi_program = 1, wi_accounts = [0, 0],
        wi_data = [2, 0, 0, 0, 1, 0, 0, 0, 0, 0, 0, 0]\<rparr>"]) (simp_all add: serializable_def addrLen_def)

text \<open>
  C26: the policy does not look at which mint an instruction names. For any two mints, a
  message that mints the first and revokes the authorities of the second is approved: the
  accounts of an instruction are skipped by the parser, so a revocation anywhere in the
  message licenses a MintTo of any token, and the minted token keeps its authorities.
\<close>

theorem Approve_accepts_foreign_revocation:
  assumes "length payer = 32" "length mintA = 32" "length mintB = 32" "length dest = 32"
    and "length blockhash = 32" "length amount = 8"
  shows "Approve \<lparr>Payer = payer\<rparr>
    (serialize_message [1, 0, 1] [payer, mintA, dest, mintB, tokenProgram] blockhash
       [\<lparr>wi_program = 4, wi_accounts = [1, 2, 0], wi_data = 7 # amount\<rparr>,
        \<lparr>wi_program = 4, wi_accounts = [3, 0], wi_data = [6, 1, 0]\<rparr>,
        \<lparr>wi_program = 4, wi_accounts = [3, 0], wi_data = [6, 0, 0]\<rparr>]) = None"
    (is "Approve _ (serialize_message _ ?accts _ ?ws) = None")
proof -
  let ?m = "\<lparr>accounts = ?accts, instructions = map seen_instruction ?ws\<rparr>"
  have "serializable [1, 0, 1] ?accts blockhash ?ws"
    using assms by (simp add: serializable_def addrLen_def)
  then have "fmt_message ?m (serialize_message [1, 0, 1] ?accts blockhash ?ws)"
    by (rule fmt_serialize_message)
  moreover have "approvable payer ?m"
    by (auto simp: approvable_def granted_def has_token_ix_def invokes_def seen_instruction_def
        is_mint_to_def is_revoke_def)
  ultimately show ?thesis by (auto simp: Approve_iff)
qed

theorem Approve_accepts_foreign_revocation_witness:
  "replicate 32 1 \<noteq> (replicate 32 2 :: bytes) \<and>
   Approve \<lparr>Payer = replicate 32 5\<rparr>
    (serialize_message [1, 0, 1] [replicate 32 5, replicate 32 1, replicate 32 3, replicate 32 2, tokenProgram]
       (replicate 32 9)
       [\<lparr>wi_program = 4, wi_accounts = [1, 2, 0], wi_data = 7 # replicate 8 255\<rparr>,
        \<lparr>wi_program = 4, wi_accounts = [3, 0], wi_data = [6, 1, 0]\<rparr>,
        \<lparr>wi_program = 4, wi_accounts = [3, 0], wi_data = [6, 0, 0]\<rparr>]) = None"
  by (rule conjI, simp add: numeral_eq_Suc, rule Approve_accepts_foreign_revocation) simp_all

text \<open>
  C27: a System CreateAccount is approved for any amount of lamports, any new account and any
  owning program, so the refusal of Transfer does not bound what leaves the guarded key: a
  message that only creates an account funded with any chosen amount is signed.
\<close>

theorem Approve_accepts_any_funding:
  assumes "length payer = 32" "length newAccount = 32" "length blockhash = 32"
    and "length lamports = 8" "length space = 8" "length owner = 32"
  shows "Approve \<lparr>Payer = payer\<rparr>
    (serialize_message [2, 0, 1] [payer, newAccount, systemProgram] blockhash
       [\<lparr>wi_program = 2, wi_accounts = [0, 1], wi_data = [0, 0, 0, 0] @ lamports @ space @ owner\<rparr>]) = None"
    (is "Approve _ (serialize_message _ ?accts _ ?ws) = None")
proof -
  let ?m = "\<lparr>accounts = ?accts, instructions = map seen_instruction ?ws\<rparr>"
  have "serializable [2, 0, 1] ?accts blockhash ?ws"
    using assms by (simp add: serializable_def addrLen_def)
  then have "fmt_message ?m (serialize_message [2, 0, 1] ?accts blockhash ?ws)"
    by (rule fmt_serialize_message)
  moreover have "approvable payer ?m"
    by (auto simp: approvable_def granted_def has_token_ix_def invokes_def seen_instruction_def
        is_create_account_def)
  ultimately show ?thesis by (auto simp: Approve_iff)
qed

theorem Approve_accepts_any_funding_witness:
  "Approve \<lparr>Payer = replicate 32 5\<rparr>
    (serialize_message [2, 0, 1] [replicate 32 5, replicate 32 6, systemProgram] (replicate 32 9)
       [\<lparr>wi_program = 2, wi_accounts = [0, 1],
         wi_data = [0, 0, 0, 0] @ replicate 8 255 @ replicate 8 0 @ replicate 32 7\<rparr>]) = None"
  by (rule Approve_accepts_any_funding) simp_all

end
