(* ===== verification/Signer_Harness.thy ===== *)
theory Signer_Harness
  imports Mcp_Server Solana_Policy
begin

text \<open>
  The signer harness (\<open>src/signer/signer.go\<close>): the vault that is empty until it is unlocked,
  the two tools \<open>signer_unlock\<close> and \<open>signer_sign\<close>, and \<open>Serve\<close>, which exposes them over the
  harness of \<open>Mcp_Server\<close>.

  A \<open>Key\<close> is the record of the operations of the Go interface. The policy is a state of type
  \<open>'p\<close> with its \<open>Approve\<close> (an error \<open>'e\<close>, or \<open>None\<close>) and, where it implements \<open>BindsToKey\<close>, its
  \<open>BindKey\<close>. Because what matters is what the key was asked to do, the state keeps the list of
  the calls of \<open>Key.Sign\<close>: the public half of the key and the payload, newest first. The
  wording of errors is an argument.

  The contract between the harness and a chain's policy is the locale \<open>signing_policy\<close>: a
  policy bound to a key approves only payloads that are safe for it. Under that contract no
  byte stream, whatever its requests, makes the key sign an unsafe payload. The Solana policy
  is shown to meet it.
\<close>

section \<open>Keys, policies and the vault\<close>

record Key =
  Public :: bytes
  Curve :: string
  Sign :: "bytes \<Rightarrow> string + bytes"

type_synonym Opener = "bytes \<Rightarrow> string \<Rightarrow> string + Key"

record ('p, 'e) Policy =
  pol_Approve :: "'p \<Rightarrow> bytes \<Rightarrow> 'e option"
  pol_BindKey :: "('p \<Rightarrow> bytes \<Rightarrow> 'p) option"

record 'p vault =
  vault_key :: "Key option"
  vault_policy :: 'p
  sign_calls :: "(bytes \<times> bytes) list"

definition vault_get :: "'p vault \<Rightarrow> Key option" where
  [simp]: "vault_get v = vault_key v"

definition vault_set :: "Key \<Rightarrow> 'p vault \<Rightarrow> 'p vault" where
  [simp]: "vault_set key v = v\<lparr>vault_key := Some key\<rparr>"

datatype 'e signer_error =
    MalformedUnlock
  | OpenFailed string
  | KeyLocked
  | MalformedSign
  | PayloadNotBase64
  | PayloadEmpty
  | PayloadTooLarge nat
  | PolicyRefused 'e
  | SignFailed string

definition UnlockTool :: string where "UnlockTool = ''signer_unlock''"

definition SignTool :: string where "SignTool = ''signer_sign''"

definition maxPayloadBytes :: nat where "maxPayloadBytes = 65536"

section \<open>The tools\<close>

definition decode_unlock :: "rawMessage \<Rightarrow> (string \<times> string) option" where
  "decode_unlock input =
     (case Option.bind input json_members of
        None \<Rightarrow> None
      | Some kvs \<Rightarrow>
          (case (field_string ''passphrase'' [] kvs, field_string ''keyPath'' [] kvs) of
             (Some p, Some k) \<Rightarrow> Some (p, k)
           | _ \<Rightarrow> None))"

definition decode_sign :: "rawMessage \<Rightarrow> string option" where
  "decode_sign input =
     (case Option.bind input json_members of
        None \<Rightarrow> None
      | Some kvs \<Rightarrow> field_string ''payload'' [] kvs)"

definition unlock_reply :: "json_syntax \<Rightarrow> Key \<Rightarrow> string" where
  "unlock_reply js key =
     string_of_bytes (json_print js (JObject [(''curve'', JString (Curve key)),
       (''publicKey'', JString (EncodeToString (Public key)))]))"

definition sign_reply :: "json_syntax \<Rightarrow> bytes \<Rightarrow> string" where
  "sign_reply js sig =
     string_of_bytes (json_print js (JObject [(''signature'', JString (EncodeToString sig))]))"

definition unlock_handler ::
  "json_syntax \<Rightarrow> Opener \<Rightarrow> ('p, 'e) Policy \<Rightarrow> 'p vault \<Rightarrow> rawMessage \<Rightarrow>
   ('e signer_error + string) \<times> 'p vault" where
  "unlock_handler js open_key pol v input =
     (case decode_unlock input of
        None \<Rightarrow> (Inl MalformedUnlock, v)
      | Some (passphrase, keyPath) \<Rightarrow>
          (case open_key (bytes_of_string passphrase) keyPath of
             Inl err \<Rightarrow> (Inl (OpenFailed err), v)
           | Inr key \<Rightarrow>
               let p' = (case pol_BindKey pol of
                           None \<Rightarrow> vault_policy v
                         | Some bind \<Rightarrow> bind (vault_policy v) (Public key))
               in (Inr (unlock_reply js key), vault_set key (v\<lparr>vault_policy := p'\<rparr>))))"

definition sign_handler ::
  "json_syntax \<Rightarrow> ('p, 'e) Policy \<Rightarrow> 'p vault \<Rightarrow> rawMessage \<Rightarrow> ('e signer_error + string) \<times> 'p vault" where
  "sign_handler js pol v input =
     (case vault_get v of
        None \<Rightarrow> (Inl KeyLocked, v)
      | Some key \<Rightarrow>
     (case decode_sign input of
        None \<Rightarrow> (Inl MalformedSign, v)
      | Some text \<Rightarrow>
     (case DecodeString text of
        None \<Rightarrow> (Inl PayloadNotBase64, v)
      | Some payload \<Rightarrow>
          if length payload = 0 then (Inl PayloadEmpty, v)
          else if length payload > maxPayloadBytes then (Inl (PayloadTooLarge (length payload)), v)
          else
            (case pol_Approve pol (vault_policy v) payload of
               Some refusal \<Rightarrow> (Inl (PolicyRefused refusal), v)
             | None \<Rightarrow>
                 let v' = v\<lparr>sign_calls := (Public key, payload) # sign_calls v\<rparr> in
                 (case Sign key payload of
                    Inl err \<Rightarrow> (Inl (SignFailed err), v')
                  | Inr sig \<Rightarrow> (Inr (sign_reply js sig), v'))))))"

text \<open>The tools as the server sees them: errors become their texts.\<close>

definition as_handler ::
  "('f \<Rightarrow> string) \<Rightarrow> ('s \<Rightarrow> rawMessage \<Rightarrow> ('f + string) \<times> 's) \<Rightarrow> 's \<Rightarrow> rawMessage \<Rightarrow> (string + string) \<times> 's" where
  "as_handler text h s input = (case h s input of (r, s') \<Rightarrow> (wrap_error text r, s'))"

definition schema_of :: "(string \<times> string \<times> string) list \<Rightarrow> string list \<Rightarrow> json" where
  "schema_of props required =
     JObject ([(''type'', JString ''object''),
       (''properties'', JObject (map (\<lambda>(n, ty, d). (n, JObject [(''type'', JString ty), (''description'', JString d)])) props))] @
       (if required = [] then [] else [(''required'', JArray (map JString required))]))"

definition unlockTool ::
  "json_syntax \<Rightarrow> ('e signer_error \<Rightarrow> string) \<Rightarrow> Opener \<Rightarrow> ('p, 'e) Policy \<Rightarrow> ('p vault) Tool" where
  "unlockTool js text open_key pol =
     \<lparr>Name = UnlockTool,
      Description = ''Unlock the signing key and return its public half. The private half never leaves ''
        @ ''this process, and the signer can do nothing at all until this succeeds.'',
      InputSchema = Some (schema_of
        [(''passphrase'', ''string'', ''passphrase that opens the sealed key''),
         (''keyPath'', ''string'', ''path to the sealed key, when the signer was not launched with one'')] []),
      Handler = as_handler text (unlock_handler js open_key pol)\<rparr>"

definition signTool :: "json_syntax \<Rightarrow> ('e signer_error \<Rightarrow> string) \<Rightarrow> ('p, 'e) Policy \<Rightarrow> ('p vault) Tool" where
  "signTool js text pol =
     \<lparr>Name = SignTool,
      Description = ''Sign a transaction, if the signing policy approves it. The transaction is parsed here, ''
        @ ''and one that does not satisfy the policy is refused rather than signed.'',
      InputSchema = Some (schema_of
        [(''payload'', ''string'', ''base64 of the exact bytes to sign'')] [''payload'']),
      Handler = as_handler text (sign_handler js pol)\<rparr>"

definition signer_server ::
  "json_syntax \<Rightarrow> ('e signer_error \<Rightarrow> string) \<Rightarrow> string \<Rightarrow> string \<Rightarrow> Opener \<Rightarrow> ('p, 'e) Policy \<Rightarrow> ('p vault) Server" where
  "signer_server js text name version open_key pol =
     Register (signTool js text pol) (Register (unlockTool js text open_key pol) (New name version))"

definition locked_vault :: "'p \<Rightarrow> 'p vault" where
  "locked_vault p = \<lparr>vault_key = None, vault_policy = p, sign_calls = []\<rparr>"

datatype signer_serve_error = NeedsKeyAndPolicy | ServeFailed serve_error

text \<open>\<open>signer.Serve\<close>; a nil opener or policy is \<open>None\<close>.\<close>

definition signer_Serve ::
  "json_syntax \<Rightarrow> ('e signer_error \<Rightarrow> string) \<Rightarrow> (nat \<Rightarrow> bool) \<Rightarrow> string \<Rightarrow> string \<Rightarrow> Opener option \<Rightarrow>
   (('p, 'e) Policy \<times> 'p) option \<Rightarrow> string option \<Rightarrow> bytes \<Rightarrow> (nat \<Rightarrow> bool) \<Rightarrow>
   signer_serve_error option \<times> bytes list \<times> 'p vault option" where
  "signer_Serve js text cancelled name version open_key pol rerr input wfails =
     (case (open_key, pol) of
        (Some opn, Some (ops, p)) \<Rightarrow>
          (case Serve js (signer_server js text name version opn ops) cancelled wfails rerr input (locked_vault p) of
             (err, out, v) \<Rightarrow> (map_option ServeFailed err, out, Some v))
      | _ \<Rightarrow> (Some NeedsKeyAndPolicy, [], None))"


section \<open>The contract of a policy\<close>

text \<open>
  \<open>guards p k\<close>: the policy state \<open>p\<close> is bound to the key \<open>k\<close>; \<open>safe k m\<close>: signing \<open>m\<close> with \<open>k\<close> is
  something the operator agreed to. The policy promises that binding works and that it
  approves nothing unsafe for the key it is bound to.
\<close>

definition safe_call :: "(bytes \<Rightarrow> bytes \<Rightarrow> bool) \<Rightarrow> bytes \<times> bytes \<Rightarrow> bool" where
  "safe_call safe c \<longleftrightarrow> safe (fst c) (snd c) \<and> snd c \<noteq> [] \<and> length (snd c) \<le> maxPayloadBytes"

definition vault_inv :: "('p \<Rightarrow> bytes \<Rightarrow> bool) \<Rightarrow> (bytes \<Rightarrow> bytes \<Rightarrow> bool) \<Rightarrow> 'p vault \<Rightarrow> bool" where
  "vault_inv guards safe v \<longleftrightarrow>
     (\<forall>k. vault_key v = Some k \<longrightarrow> guards (vault_policy v) (Public k)) \<and>
     (\<forall>c \<in> set (sign_calls v). safe_call safe c)"

lemma as_handler_state [simp]: "snd (as_handler text h s input) = snd (h s input)"
  by (simp add: as_handler_def split: prod.splits)

lemma signer_server_tools:
  "srv_tools (signer_server js text name version opn pol) =
     [UnlockTool \<mapsto> unlockTool js text opn pol, SignTool \<mapsto> signTool js text pol]"
  by (auto simp: signer_server_def Register_def New_def unlockTool_def signTool_def UnlockTool_def SignTool_def)

locale signing_policy =
  fixes pol :: "('p, 'e) Policy" and guards :: "'p \<Rightarrow> bytes \<Rightarrow> bool" and safe :: "bytes \<Rightarrow> bytes \<Rightarrow> bool"
  assumes binds: "pol_BindKey pol = Some bind \<Longrightarrow> guards (bind p k) k"
    and unbound: "pol_BindKey pol = None \<Longrightarrow> guards p k"
    and approves_safe: "guards p k \<Longrightarrow> pol_Approve pol p m = None \<Longrightarrow> safe k m"
begin

lemma unlock_inv: "vault_inv guards safe v \<Longrightarrow> vault_inv guards safe (snd (unlock_handler js opn pol v input))"
  by (auto simp: unlock_handler_def vault_inv_def Let_def binds unbound split: option.splits sum.splits)

lemma sign_inv: "vault_inv guards safe v \<Longrightarrow> vault_inv guards safe (snd (sign_handler js pol v input))"
  by (auto simp: sign_handler_def vault_inv_def safe_call_def Let_def approves_safe
      split: option.splits sum.splits if_splits)

lemma server_tool_invariant: "tool_invariant (signer_server js text name version opn pol) (vault_inv guards safe)"
  by unfold_locales (auto simp: signer_server_tools unlockTool_def signTool_def
      unlock_inv sign_inv split: if_splits)

lemma session_safe:
  assumes "signer_Serve js text cancelled name version open_key (Some (pol, p)) rerr input wfails = (err, out, Some v)"
    and "c \<in> set (sign_calls v)"
  shows "safe_call safe c"
proof -
  have init: "vault_inv guards safe (locked_vault p)"
    by (simp add: vault_inv_def locked_vault_def)
  obtain opn where "open_key = Some opn"
    using assms(1) by (cases open_key) (simp_all add: signer_Serve_def)
  with assms(1) have
    "v = snd (snd (Serve js (signer_server js text name version opn pol) cancelled wfails rerr input (locked_vault p)))"
    by (auto simp: signer_Serve_def split: prod.splits)
  with tool_invariant.Serve_inv [OF server_tool_invariant init] have "vault_inv guards safe v" by simp
  with assms(2) show ?thesis by (simp add: vault_inv_def)
qed

end

section \<open>The Solana signer\<close>

definition solana_policy :: "(Solana, refusal) Policy" where
  "solana_policy = \<lparr>pol_Approve = Approve, pol_BindKey = Some BindKey\<rparr>"

definition solana_safe :: "bytes \<Rightarrow> bytes \<Rightarrow> bool" where
  "solana_safe k payload \<longleftrightarrow> (\<exists>m. fmt_message m payload \<and> approvable k m)"

interpretation solana: signing_policy solana_policy "\<lambda>p k. Payer p = k" solana_safe
  by unfold_locales (auto simp: solana_policy_def BindKey_def solana_safe_def Approve_iff)


interpretation solana_session: tool_invariant "signer_server js et name version opn solana_policy"
  "vault_inv (\<lambda>p k. Payer p = k) solana_safe" for js et name version opn
  by (rule solana.server_tool_invariant)


text \<open>Every key the signer ever uses came out of the opener.\<close>

definition opened :: "Opener \<Rightarrow> Key \<Rightarrow> bool" where
  "opened opn k \<longleftrightarrow> (\<exists>passphrase path. opn passphrase path = Inr k)"

definition custody_inv :: "Opener \<Rightarrow> 'p vault \<Rightarrow> bool" where
  "custody_inv opn v \<longleftrightarrow> (\<forall>k. vault_key v = Some k \<longrightarrow> opened opn k) \<and>
     (\<forall>c \<in> set (sign_calls v). \<exists>k. opened opn k \<and> fst c = Public k)"

lemma unlock_custody: "custody_inv opn v \<Longrightarrow> custody_inv opn (snd (unlock_handler js opn pol v input))"
  by (auto simp: unlock_handler_def custody_inv_def opened_def Let_def split: option.splits sum.splits)

lemma sign_custody: "custody_inv opn v \<Longrightarrow> custody_inv opn (snd (sign_handler js pol v input))"
  by (auto simp: sign_handler_def custody_inv_def Let_def split: option.splits sum.splits if_splits)

interpretation custody: tool_invariant "signer_server js et name version opn pol" "custody_inv opn"
  for js et name version opn pol
  by unfold_locales (auto simp: signer_server_tools unlockTool_def signTool_def
      unlock_custody sign_custody split: if_splits)

lemma session_vault:
  assumes "signer_Serve js et cancelled name version (Some opn) (Some (pol, p)) rerr input wfails = (err, out, Some v)"
  shows "v = snd (snd (Serve js (signer_server js et name version opn pol) cancelled wfails rerr input (locked_vault p)))"
  using assms by (auto simp: signer_Serve_def split: prod.splits)

lemma solana_safe_nonempty: "solana_safe k payload \<Longrightarrow> payload \<noteq> []"
  using parseMessage_iff [of payload] by (auto simp: solana_safe_def parseMessage_def)

section \<open>Properties\<close>

text \<open>
  C4: the Solana signer signs nothing the policy does not grant. Whatever bytes arrive on its
  input, in whatever order, however the session ends: every payload the key was asked to sign
  is a well-formed message of at most 64 KiB whose fee payer is that very key and which the
  policy grants.
\<close>

theorem signer_signs_only_approved:
  assumes "signer_Serve js et cancelled name version open_key (Some (solana_policy, p)) rerr input wfails = (err, out, Some v)"
    and "(k, payload) \<in> set (sign_calls v)"
  shows "0 < length payload \<and> length payload \<le> 65536 \<and> (\<exists>m. fmt_message m payload \<and> approvable k m)"
  using solana.session_safe [OF assms] by (simp add: safe_call_def solana_safe_def maxPayloadBytes_def)

definition sample_key :: Key where
  "sample_key = \<lparr>Public = replicate 32 5, Curve = ''ed25519'', Sign = (\<lambda>m. Inr [1, 2, 3])\<rparr>"

definition sample_payload :: bytes where
  "sample_payload = serialize_message [1, 0, 0] [replicate 32 5] (replicate 32 9) []"

definition sample_call :: "string \<Rightarrow> json \<Rightarrow> json" where
  "sample_call tool args = JObject [(''jsonrpc'', JString ''2.0''), (''id'', JNumber ''1''),
     (''method'', JString ''tools/call''), (''params'', JObject [(''name'', JString tool), (''arguments'', args)])]"

definition sample_session :: "json option \<Rightarrow> json_syntax" where
  "sample_session other =
     \<lparr>json_parse = (\<lambda>b. if b = [85] then Some (sample_call ''signer_unlock'' (JObject [(''passphrase'', JString ''pw'')]))
        else if b = [83] then Some (sample_call ''signer_sign'' (JObject [(''payload'', JString (EncodeToString sample_payload))]))
        else other),
      json_print = (\<lambda>_. [])\<rparr>"

lemma sample_safe: "solana_safe (replicate 32 5) sample_payload" "length sample_payload \<le> maxPayloadBytes"
proof -
  have "serializable [1, 0, 0] [replicate 32 5] (replicate 32 9) []"
    by (simp add: serializable_def addrLen_def)
  from fmt_serialize_message [OF this] show "solana_safe (replicate 32 5) sample_payload"
    by (auto simp: solana_safe_def sample_payload_def approvable_def has_token_ix_def intro!: exI)
  show "length sample_payload \<le> maxPayloadBytes"
    by (simp add: sample_payload_def serialize_message_def maxPayloadBytes_def shortvec_def)
qed


lemma unlock_then_sign_solana:
  assumes "opn (bytes_of_string pass) path = Inr key" and "solana_safe (Public key) payload"
    and "length payload \<le> maxPayloadBytes" and "Sign key payload = Inr sig"
    and "decode_unlock i = Some (pass, path)" and "decode_sign j = Some (EncodeToString payload)"
  shows "unlock_handler js opn solana_policy v i =
      (Inr (unlock_reply js key), v\<lparr>vault_policy := \<lparr>Payer = Public key\<rparr>, vault_key := Some key\<rparr>)"
    and "vault_key w = Some key \<Longrightarrow> vault_policy w = \<lparr>Payer = Public key\<rparr> \<Longrightarrow>
      sign_handler js solana_policy w j =
        (Inr (sign_reply js sig), w\<lparr>sign_calls := (Public key, payload) # sign_calls w\<rparr>)"
proof -
  show "unlock_handler js opn solana_policy v i =
      (Inr (unlock_reply js key), v\<lparr>vault_policy := \<lparr>Payer = Public key\<rparr>, vault_key := Some key\<rparr>)"
    using assms by (simp add: unlock_handler_def solana_policy_def BindKey_def)
  have "Approve \<lparr>Payer = Public key\<rparr> payload = None"
    using assms(2) by (auto simp: Approve_iff solana_safe_def)
  then show "vault_key w = Some key \<Longrightarrow> vault_policy w = \<lparr>Payer = Public key\<rparr> \<Longrightarrow>
      sign_handler js solana_policy w j =
        (Inr (sign_reply js sig), w\<lparr>sign_calls := (Public key, payload) # sign_calls w\<rparr>)"
    using assms solana_safe_nonempty [OF assms(2)]
    by (simp add: sign_handler_def base64_roundtrip solana_policy_def)
qed

lemma sample_session_calls:
  assumes "opn (bytes_of_string ''pw'') [] = Inr key" and "Public key = replicate 32 5"
    and "Sign key sample_payload = Inr sig"
  shows "\<exists>out. signer_Serve (sample_session other) et (\<lambda>_. False) name version (Some opn)
     (Some (solana_policy, \<lparr>Payer = []\<rparr>)) None [85, 10, 83, 10] (\<lambda>_. False) =
     (None, out, Some \<lparr>vault_key = Some key, vault_policy = \<lparr>Payer = replicate 32 5\<rparr>,
        sign_calls = [(replicate 32 5, sample_payload)]\<rparr>)"
proof -
  let ?i = "Some (JObject [(''passphrase'', JString ''pw'')])"
    and ?j = "Some (JObject [(''payload'', JString (EncodeToString sample_payload))])"
  have dec: "decode_unlock ?i = Some (''pw'', [])" "decode_sign ?j = Some (EncodeToString sample_payload)"
    by (simp_all add: decode_unlock_def decode_sign_def json_members_def matches_field_def upper_char_def)
  have "solana_safe (Public key) sample_payload" by (simp add: assms(2) sample_safe(1))
  note steps = unlock_then_sign_solana [of opn "''pw''" "[]" key sample_payload,
      OF assms(1) this sample_safe(2) assms(3) dec, unfolded assms(2)]
  have trims: "trim_bytes [85] = [85]" "trim_bytes [83] = [83]" "trim_bytes [] = []"
    by (simp_all add: trim_bytes_def trim_codes_def trim_with.simps space_prefix_def space_encodings_def)
  note server = dispatch_def decode_request_def callResult_def decode_call_def sample_session_def
    sample_call_def json_members_def matches_field_def upper_char_def signer_server_tools UnlockTool_def SignTool_def
    unlockTool_def signTool_def as_handler_def
  show ?thesis
    by (simp add: signer_Serve_def Serve_def dropCR_def trims maxMessageBytes_def server steps locked_vault_def Let_def)
qed

theorem signer_signs_only_approved_witness:
  "\<exists>out v. signer_Serve (sample_session None) (\<lambda>_. []) (\<lambda>_. False) ''solana-signer'' ''1'' (Some (\<lambda>_ _. Inr sample_key))
     (Some (solana_policy, \<lparr>Payer = []\<rparr>)) None [85, 10, 83, 10] (\<lambda>_. False) = (None, out, Some v) \<and>
   sign_calls v = [(replicate 32 5, sample_payload)] \<and>
   (\<exists>m. fmt_message m sample_payload \<and> approvable (replicate 32 5) m)"
proof -
  obtain out v where s: "signer_Serve (sample_session None) (\<lambda>_. []) (\<lambda>_. False) ''solana-signer'' ''1'' (Some (\<lambda>_ _. Inr sample_key))
     (Some (solana_policy, \<lparr>Payer = []\<rparr>)) None [85, 10, 83, 10] (\<lambda>_. False) = (None, out, Some v)"
    "sign_calls v = [(replicate 32 5, sample_payload)]"
    using sample_session_calls [of "\<lambda>_ _. Inr sample_key" sample_key "[1, 2, 3]" None "\<lambda>_. []" "''solana-signer''" "''1''"]
    by (auto simp: sample_key_def)
  from signer_signs_only_approved [OF s(1)] s show ?thesis by auto
qed


text \<open>
  C29: an unlocked signer does sign what it may. After an unlock with a passphrase that opens
  the key, a signing request for any payload that the policy grants to that key, of at most
  64 KiB, is answered with the base64 of exactly the signature the key makes over exactly the
  decoded bytes, and the key is asked once.
\<close>

theorem unlocked_signer_signs:
  assumes "opn (bytes_of_string pass) path = Inr key"
    and "\<exists>m. fmt_message m payload \<and> approvable (Public key) m"
    and "length payload \<le> 65536" and "Sign key payload = Inr sig"
  shows "case unlock_handler js opn solana_policy v
        (Some (JObject [(''passphrase'', JString pass), (''keyPath'', JString path)])) of
      (reply, v') \<Rightarrow> reply = Inr (unlock_reply js key) \<and>
        sign_handler js solana_policy v' (Some (JObject [(''payload'', JString (EncodeToString payload))])) =
          (Inr (sign_reply js sig), v'\<lparr>sign_calls := (Public key, payload) # sign_calls v\<rparr>)"
proof -
  have dec: "decode_unlock (Some (JObject [(''passphrase'', JString pass), (''keyPath'', JString path)])) = Some (pass, path)"
    "decode_sign (Some (JObject [(''payload'', JString (EncodeToString payload))])) = Some (EncodeToString payload)"
    by (simp_all add: decode_unlock_def decode_sign_def json_members_def matches_field_def upper_char_def)
  have "solana_safe (Public key) payload" "length payload \<le> maxPayloadBytes"
    using assms(2,3) by (simp_all add: solana_safe_def maxPayloadBytes_def)
  note steps = unlock_then_sign_solana [of opn pass path key payload, OF assms(1) this assms(4) dec]
  show ?thesis by (simp add: steps)
qed

theorem unlocked_signer_signs_witness:
  "\<exists>reply v'. unlock_handler (sample_session None) (\<lambda>_ _. Inr sample_key) solana_policy (locked_vault \<lparr>Payer = []\<rparr>)
        (Some (JObject [(''passphrase'', JString ''pw''), (''keyPath'', JString ''k'')])) = (reply, v') \<and>
      reply = Inr (unlock_reply (sample_session None) sample_key) \<and>
      sign_handler (sample_session None) solana_policy v' (Some (JObject [(''payload'', JString (EncodeToString sample_payload))])) =
        (Inr (sign_reply (sample_session None) [1, 2, 3]), v'\<lparr>sign_calls := [(replicate 32 5, sample_payload)]\<rparr>)"
  using unlocked_signer_signs [of "\<lambda>_ _. Inr sample_key" "''pw''" "''k''" sample_key sample_payload "[1, 2, 3]"
      "sample_session None" "locked_vault \<lparr>Payer = []\<rparr>"] sample_safe
  by (simp add: sample_key_def solana_safe_def maxPayloadBytes_def locked_vault_def split: prod.splits)

text \<open>
  A signer that is never unlocked is inert. If no passphrase and path open a key, then
  whatever bytes arrive, under any policy, the vault stays empty and no key is ever asked to
  sign.
\<close>

theorem locked_signer_is_inert:
  assumes "\<forall>passphrase path. \<exists>e. opn passphrase path = Inl e"
    and "signer_Serve js et cancelled name version (Some opn) (Some (pol, p)) rerr input wfails = (err, out, Some v)"
  shows "vault_key v = None \<and> sign_calls v = []"
proof -
  have "custody_inv opn (locked_vault p)" by (simp add: custody_inv_def locked_vault_def)
  from custody.Serve_inv [OF this] session_vault [OF assms(2)] have "custody_inv opn v" by simp
  moreover from assms(1) have "\<not> opened opn k" for k by (metis opened_def sum.distinct(1))
  ultimately show ?thesis
    by (cases "vault_key v"; cases "sign_calls v") (auto simp: custody_inv_def)
qed

theorem locked_signer_is_inert_witness:
  "\<exists>err out v. signer_Serve (sample_session None) (\<lambda>_. []) (\<lambda>_. False) ''solana-signer'' ''1'' (Some (\<lambda>_ _. Inl ''no''))
     (Some (solana_policy, \<lparr>Payer = []\<rparr>)) None [83, 10, 85, 10, 83, 10] (\<lambda>_. False) = (err, out, Some v) \<and>
   vault_key v = None \<and> sign_calls v = []"
proof -
  obtain err out v where s: "signer_Serve (sample_session None) (\<lambda>_. []) (\<lambda>_. False) ''solana-signer'' ''1'' (Some (\<lambda>_ _. Inl ''no''))
     (Some (solana_policy, \<lparr>Payer = []\<rparr>)) None [83, 10, 85, 10, 83, 10] (\<lambda>_. False) = (err, out, Some v)"
    by (cases "Serve (sample_session None) (signer_server (sample_session None) (\<lambda>_. []) ''solana-signer'' ''1'' (\<lambda>_ _. Inl ''no'')
        solana_policy) (\<lambda>_. False) (\<lambda>_. False) None [83, 10, 85, 10, 83, 10] (locked_vault \<lparr>Payer = []\<rparr>)")
      (auto simp: signer_Serve_def)
  from locked_signer_is_inert [OF _ this] s show ?thesis by auto
qed

end
