(* ===== verification/Signer_Key.thy ===== *)
theory Signer_Key
  imports Signer_Harness
begin

text \<open>
  Key custody (\<open>src/signer/key.go\<close>): a key held in memory, sealed on disk under a passphrase.

  The primitives that are not this program's code are the fields of \<open>crypto\<close>: argon2id, the
  AES-GCM box and ed25519 signing; random bytes and the file system are arguments too. What
  the custody relies on is stated as hypotheses: opening undoes sealing under the same key and
  nonce, and the derived key has the requested length.
\<close>

section \<open>Keys in memory\<close>

record crypto =
  argon2_IDKey :: "bytes \<Rightarrow> bytes \<Rightarrow> nat \<Rightarrow> nat \<Rightarrow> nat \<Rightarrow> nat \<Rightarrow> bytes"
  gcm_Seal :: "bytes \<Rightarrow> bytes \<Rightarrow> bytes \<Rightarrow> bytes"
  gcm_Open :: "bytes \<Rightarrow> bytes \<Rightarrow> bytes \<Rightarrow> bytes option"
  ed25519_Sign :: "bytes \<Rightarrow> bytes \<Rightarrow> bytes"

record 'f files =
  ReadFile :: "'f \<Rightarrow> string \<Rightarrow> string + bytes"
  WriteFile :: "'f \<Rightarrow> string \<Rightarrow> bytes \<Rightarrow> string option \<times> 'f"

definition PrivateKeySize :: nat where "PrivateKeySize = 64"

definition SeedSize :: nat where "SeedSize = 32"

definition gcm_NonceSize :: nat where "gcm_NonceSize = 12"

datatype key_error =
    MalformedPrivateKey
  | EmptySealPassphrase
  | SaltErr string
  | NonceErr string
  | CipherErr
  | WriteErr string
  | ReadSealedErr string
  | NotSealedFile
  | UnsupportedVersion int
  | NoPassphrase
  | SealedMalformed
  | DidNotOpen

text \<open>The methods of \<open>Ed25519Key\<close>: the private key is the seed followed by the public key.\<close>

definition Ed25519Key_Public :: "bytes \<Rightarrow> bytes" where
  [simp]: "Ed25519Key_Public priv = drop SeedSize priv"

definition Ed25519Key_Curve :: string where
  [simp]: "Ed25519Key_Curve = ''ed25519''"

definition Ed25519Key_Sign :: "crypto \<Rightarrow> bytes \<Rightarrow> bytes \<Rightarrow> string + bytes" where
  [simp]: "Ed25519Key_Sign c priv = (\<lambda>payload. Inr (ed25519_Sign c priv payload))"

definition Ed25519Key :: "crypto \<Rightarrow> bytes \<Rightarrow> Key" where
  [simp]: "Ed25519Key c priv = \<lparr>Public = Ed25519Key_Public priv, Curve = Ed25519Key_Curve, Sign = Ed25519Key_Sign c priv\<rparr>"

definition NewEd25519Key :: "crypto \<Rightarrow> bytes \<Rightarrow> key_error + Key" where
  "NewEd25519Key c priv =
     (if length priv \<noteq> PrivateKeySize then Inl MalformedPrivateKey
      else Inr (Ed25519Key c priv))"

section \<open>Sealing and opening\<close>

definition argonTime :: nat where "argonTime = 3"

definition argonMemory :: nat where "argonMemory = 65536"

definition argonThreads :: nat where "argonThreads = 4"

definition argonKeyLen :: nat where "argonKeyLen = 32"

definition saltLen :: nat where "saltLen = 16"

definition sealVersion :: int where "sealVersion = 1"

record sealedKey =
  sk_Version :: int
  sk_Curve :: string
  sk_Salt :: bytes
  sk_Nonce :: bytes
  sk_Box :: bytes

definition sealed_json :: "sealedKey \<Rightarrow> json" where
  "sealed_json k =
     JObject [(''version'', JNumber (if sk_Version k < 0 then CHR ''-'' # FormatUint (nat (- sk_Version k))
                else FormatUint (nat (sk_Version k)))),
              (''curve'', JString (sk_Curve k)),
              (''salt'', JString (EncodeToString (sk_Salt k))),
              (''nonce'', JString (EncodeToString (sk_Nonce k))),
              (''box'', JString (EncodeToString (sk_Box k)))]"

definition decode_sealed :: "json \<Rightarrow> sealedKey option" where
  "decode_sealed j =
     (case json_members j of
        None \<Rightarrow> None
      | Some kvs \<Rightarrow>
          (case (field_int ''version'' 0 kvs, field_string ''curve'' [] kvs, field_bytes ''salt'' [] kvs,
                 field_bytes ''nonce'' [] kvs, field_bytes ''box'' [] kvs) of
             (Some v, Some c, Some s, Some n, Some b) \<Rightarrow>
               Some \<lparr>sk_Version = v, sk_Curve = c, sk_Salt = s, sk_Nonce = n, sk_Box = b\<rparr>
           | _ \<Rightarrow> None))"

text \<open>
  \<open>boxCipher\<close> gives the AEAD, here the AES key it works under. \<open>aes.NewCipher\<close> accepts keys of
  16, 24 or 32 bytes; \<open>cipher.NewGCM\<close> accepts every AES cipher.
\<close>

definition boxCipher :: "crypto \<Rightarrow> bytes \<Rightarrow> bytes \<Rightarrow> key_error + bytes" where
  "boxCipher c passphrase salt =
     (let key = argon2_IDKey c passphrase salt argonTime argonMemory argonThreads argonKeyLen in
      if length key \<in> {16, 24, 32} then Inr key else Inl CipherErr)"

definition SealEd25519Key ::
  "crypto \<Rightarrow> json_syntax \<Rightarrow> 'f files \<Rightarrow> (nat \<Rightarrow> nat \<Rightarrow> string + bytes) \<Rightarrow> 'f \<Rightarrow> string \<Rightarrow> bytes \<Rightarrow> bytes \<Rightarrow>
   key_error option \<times> 'f" where
  "SealEd25519Key c js fs rand f path priv passphrase =
     (if length priv \<noteq> PrivateKeySize then (Some MalformedPrivateKey, f)
      else if length passphrase = 0 then (Some EmptySealPassphrase, f)
      else
        (case rand 0 saltLen of
           Inl e \<Rightarrow> (Some (SaltErr e), f)
         | Inr salt \<Rightarrow>
        (case boxCipher c passphrase salt of
           Inl e \<Rightarrow> (Some e, f)
         | Inr gcm \<Rightarrow>
        (case rand 1 gcm_NonceSize of
           Inl e \<Rightarrow> (Some (NonceErr e), f)
         | Inr nonce \<Rightarrow>
             let out = json_print js (sealed_json
                   \<lparr>sk_Version = sealVersion, sk_Curve = ''ed25519'', sk_Salt = salt, sk_Nonce = nonce,
                    sk_Box = gcm_Seal c gcm nonce priv\<rparr>)
             in (case WriteFile fs f path out of (e, f') \<Rightarrow> (map_option WriteErr e, f'))))))"

definition OpenEd25519Key ::
  "crypto \<Rightarrow> json_syntax \<Rightarrow> 'f files \<Rightarrow> 'f \<Rightarrow> string \<Rightarrow> bytes \<Rightarrow> key_error + Key" where
  "OpenEd25519Key c js fs f path passphrase =
     (case ReadFile fs f path of
        Inl e \<Rightarrow> Inl (ReadSealedErr e)
      | Inr raw \<Rightarrow>
     (case Option.bind (json_parse js raw) decode_sealed of
        None \<Rightarrow> Inl NotSealedFile
      | Some sealed \<Rightarrow>
          if sk_Version sealed \<noteq> sealVersion then Inl (UnsupportedVersion (sk_Version sealed))
          else if length passphrase = 0 then Inl NoPassphrase
          else
            (case boxCipher c passphrase (sk_Salt sealed) of
               Inl e \<Rightarrow> Inl e
             | Inr gcm \<Rightarrow>
                 if length (sk_Nonce sealed) \<noteq> gcm_NonceSize then Inl SealedMalformed
                 else
                   (case gcm_Open c gcm (sk_Nonce sealed) (sk_Box sealed) of
                      None \<Rightarrow> Inl DidNotOpen
                    | Some priv \<Rightarrow> NewEd25519Key c priv))))"

section \<open>Properties\<close>

lemma decode_sealed_json: "sk_Version k = 1 \<Longrightarrow> decode_sealed (sealed_json k) = Some k"
  by (simp add: decode_sealed_def sealed_json_def json_members_def matches_field_def upper_char_def
      json_bytes_def base64_roundtrip FormatUint.simps ParseInt64_def Let_def char_of_def bit_0)

definition sealed_file :: "crypto \<Rightarrow> bytes \<Rightarrow> bytes \<Rightarrow> bytes \<Rightarrow> bytes \<Rightarrow> sealedKey" where
  "sealed_file c passphrase priv salt nonce =
     \<lparr>sk_Version = sealVersion, sk_Curve = ''ed25519'', sk_Salt = salt, sk_Nonce = nonce,
      sk_Box = gcm_Seal c (argon2_IDKey c passphrase salt argonTime argonMemory argonThreads argonKeyLen) nonce priv\<rparr>"

lemma seal_success:
  assumes "SealEd25519Key c js fs rnd f path priv passphrase = (None, f')"
    and "\<And>p s t m th n. length (argon2_IDKey c p s t m th n) = n"
  obtains salt nonce where "length priv = PrivateKeySize" "passphrase \<noteq> []"
    and "rnd 0 saltLen = Inr salt" "rnd 1 gcm_NonceSize = Inr nonce"
    and "WriteFile fs f path (json_print js (sealed_json (sealed_file c passphrase priv salt nonce))) = (None, f')"
  using assms by (auto simp: SealEd25519Key_def boxCipher_def sealed_file_def Let_def argonKeyLen_def
      split: if_splits sum.splits prod.splits)

lemma open_sealed:
  assumes "SealEd25519Key c js fs rnd f path priv passphrase = (None, f')"
    and "\<And>k n b. gcm_Open c k n (gcm_Seal c k n b) = Some b"
    and "\<And>p s t m th n. length (argon2_IDKey c p s t m th n) = n"
    and "\<And>i n b. rnd i n = Inr b \<Longrightarrow> length b = n"
    and "\<And>s n. rnd 0 saltLen = Inr s \<Longrightarrow> rnd 1 gcm_NonceSize = Inr n \<Longrightarrow>
      json_parse js (json_print js (sealed_json (sealed_file c passphrase priv s n))) =
        Some (sealed_json (sealed_file c passphrase priv s n))"
    and "\<And>b g. WriteFile fs f path b = (None, g) \<Longrightarrow> ReadFile fs g path = Inr b"
  shows "\<exists>key. OpenEd25519Key c js fs f' path passphrase = Inr key \<and> Public key = drop 32 priv \<and>
    (\<forall>m. Sign key m = Inr (ed25519_Sign c priv m))"
proof -
  obtain salt nonce where w: "length priv = PrivateKeySize" "passphrase \<noteq> []"
    "rnd 0 saltLen = Inr salt" "rnd 1 gcm_NonceSize = Inr nonce"
    "WriteFile fs f path (json_print js (sealed_json (sealed_file c passphrase priv salt nonce))) = (None, f')"
    using seal_success [OF assms(1,3)] by metis
  have "decode_sealed (sealed_json (sealed_file c passphrase priv salt nonce)) =
      Some (sealed_file c passphrase priv salt nonce)"
    by (rule decode_sealed_json) (simp_all add: sealVersion_def sealed_file_def)
  with w assms(4) [OF w(4)] assms(5) [OF w(3,4)] assms(6) [OF w(5)] assms(2,3) show ?thesis
    by (simp add: OpenEd25519Key_def sealed_file_def boxCipher_def argonKeyLen_def NewEd25519Key_def SeedSize_def)
qed

text \<open>
  What is sealed opens again, and only as itself. If sealing a private key under a
  passphrase reports success, then opening the file it wrote under the same passphrase gives
  a key whose public half is the second half of that private key and which signs with that
  private key. The hypotheses are the documented behaviour of the primitives: AES-GCM opens
  what it sealed, argon2id returns as many bytes as it is asked for, random reads fill their
  buffer, the JSON text of the file parses back to what was written, and a file that was
  written reads back.
\<close>

theorem seal_open_roundtrip:
  assumes "SealEd25519Key c js fs rnd f path priv passphrase = (None, f')"
    and "\<And>k n b. gcm_Open c k n (gcm_Seal c k n b) = Some b"
    and "\<And>p s t m th n. length (argon2_IDKey c p s t m th n) = n"
    and "\<And>i n b. rnd i n = Inr b \<Longrightarrow> length b = n"
    and "\<And>s n. rnd 0 saltLen = Inr s \<Longrightarrow> rnd 1 gcm_NonceSize = Inr n \<Longrightarrow>
      json_parse js (json_print js (sealed_json (sealed_file c passphrase priv s n))) =
        Some (sealed_json (sealed_file c passphrase priv s n))"
    and "\<And>b g. WriteFile fs f path b = (None, g) \<Longrightarrow> ReadFile fs g path = Inr b"
  shows "\<exists>key. OpenEd25519Key c js fs f' path passphrase = Inr key \<and> Public key = drop 32 priv \<and>
    (\<forall>m. Sign key m = Inr (ed25519_Sign c priv m))"
  using assms by (rule open_sealed)

definition sample_crypto :: crypto where
  "sample_crypto =
     \<lparr>argon2_IDKey = (\<lambda>p s t m th n. replicate n 1), gcm_Seal = (\<lambda>k n b. map (\<lambda>x. x + 1) b),
      gcm_Open = (\<lambda>k n b. Some (map (\<lambda>x. x - 1) b)), ed25519_Sign = (\<lambda>k m. take 64 m)\<rparr>"

definition sample_files :: "(string \<Rightarrow> bytes option) files" where
  "sample_files =
     \<lparr>ReadFile = (\<lambda>f p. case f p of None \<Rightarrow> Inl ''not found'' | Some b \<Rightarrow> Inr b),
      WriteFile = (\<lambda>f p b. (None, f(p \<mapsto> b)))\<rparr>"

definition sample_sealed_syntax :: json_syntax where
  "sample_sealed_syntax =
     \<lparr>json_parse = (\<lambda>_. Some (sealed_json (sealed_file sample_crypto [1] (replicate 64 7) (replicate 16 2) (replicate 12 2)))),
      json_print = (\<lambda>_. [3])\<rparr>"

theorem seal_open_roundtrip_witness:
  "\<exists>f' key. SealEd25519Key sample_crypto sample_sealed_syntax sample_files (\<lambda>i n. Inr (replicate n 2)) Map.empty
       ''k'' (replicate 64 7) [1] = (None, f') \<and>
     OpenEd25519Key sample_crypto sample_sealed_syntax sample_files f' ''k'' [1] = Inr key \<and>
     Public key = replicate 32 7"
proof -
  let ?rnd = "\<lambda>i n. Inr (replicate n 2)"
  have s: "SealEd25519Key sample_crypto sample_sealed_syntax sample_files ?rnd Map.empty
       ''k'' (replicate 64 7) [1] = (None, [''k'' \<mapsto> [3]])"
    by (simp add: SealEd25519Key_def PrivateKeySize_def boxCipher_def sample_crypto_def sample_files_def
        sample_sealed_syntax_def argonKeyLen_def)
  have "\<exists>key. OpenEd25519Key sample_crypto sample_sealed_syntax sample_files [''k'' \<mapsto> [3]] ''k'' [1] = Inr key \<and>
     Public key = drop 32 (replicate 64 7) \<and> (\<forall>m. Sign key m = Inr (ed25519_Sign sample_crypto (replicate 64 7) m))"
    by (rule seal_open_roundtrip [OF s])
      (auto simp: sample_crypto_def sample_files_def sample_sealed_syntax_def comp_def saltLen_def gcm_NonceSize_def)
  with s show ?thesis by auto
qed

text \<open>
  C32: a key is released only by an authenticated file. Opening succeeds exactly when the file
  reads as a sealed key of version 1, the passphrase is not empty, the nonce has its length
  and the box authenticates under the key derived from that passphrase to 64 bytes. Every
  other case is an error.
\<close>

theorem OpenEd25519Key_exact:
  "OpenEd25519Key c js fs f path passphrase = Inr key \<longleftrightarrow>
     (\<exists>raw j sealed gcm priv.
        ReadFile fs f path = Inr raw \<and> json_parse js raw = Some j \<and> decode_sealed j = Some sealed \<and>
        sk_Version sealed = 1 \<and> passphrase \<noteq> [] \<and> length (sk_Nonce sealed) = 12 \<and>
        gcm = argon2_IDKey c passphrase (sk_Salt sealed) 3 65536 4 32 \<and> length gcm \<in> {16, 24, 32} \<and>
        gcm_Open c gcm (sk_Nonce sealed) (sk_Box sealed) = Some priv \<and> length priv = 64 \<and>
        key = \<lparr>Public = drop 32 priv, Curve = ''ed25519'', Sign = (\<lambda>m. Inr (ed25519_Sign c priv m))\<rparr>)"
    (is "?l \<longleftrightarrow> ?r")
proof
  note defs = OpenEd25519Key_def boxCipher_def NewEd25519Key_def sealVersion_def gcm_NonceSize_def PrivateKeySize_def
    SeedSize_def argonTime_def argonMemory_def argonThreads_def argonKeyLen_def Let_def
  show "?l \<Longrightarrow> ?r"
    by (auto simp: defs split: sum.splits option.splits if_splits bind_splits)
  show "?r \<Longrightarrow> ?l"
    by (auto simp: defs)
qed

end
