(* ===== verification/Go_Flags.thy ===== *)
theory Go_Flags
  imports Flynn_Prelude
begin

text \<open>
  Go's package \<open>flag\<close>, as far as the commands use it: sets of string flags with empty defaults.
\<close>

datatype flag_error = ErrHelp | BadFlagSyntax string | FlagNotDefined string | FlagNeedsArgument string

definition split_at_equals :: "string \<Rightarrow> string \<times> string option" where
  "split_at_equals name =
     (let n = takeWhile (\<lambda>c. c \<noteq> CHR ''='') name in
      if length n = length name then (name, None) else (n, Some (drop (Suc (length n)) name)))"

text \<open>
  \<open>FlagSet.Parse\<close> for string flags: \<open>vals\<close> holds the flags defined so far with their values.
  The positional rest is not used by the program.
\<close>

fun parse_flags :: "(string \<times> string) list \<Rightarrow> string list \<Rightarrow> flag_error + (string \<times> string) list" where
  "parse_flags vals [] = Inr vals"
| "parse_flags vals (a # args) =
     (if length a < 2 \<or> hd a \<noteq> CHR ''-'' then Inr vals
      else if a = ''--'' then Inr vals
      else
        (let name = (if a ! 1 = CHR ''-'' then drop 2 a else drop 1 a) in
         if name = [] \<or> hd name = CHR ''-'' \<or> hd name = CHR ''='' then Inl (BadFlagSyntax a)
         else
           (case split_at_equals name of
              (n, v) \<Rightarrow>
                if n \<notin> set (map fst vals) then
                  Inl (if n = ''help'' \<or> n = ''h'' then ErrHelp else FlagNotDefined n)
                else
                  (case (v, args) of
                     (Some x, _) \<Rightarrow> parse_flags (map (\<lambda>(k, o'). if k = n then (k, x) else (k, o')) vals) args
                   | (None, []) \<Rightarrow> Inl (FlagNeedsArgument n)
                   | (None, x # args') \<Rightarrow>
                       parse_flags (map (\<lambda>(k, o'). if k = n then (k, x) else (k, o')) vals) args'))))"

declare parse_flags.simps [simp del]

definition flag_value :: "(string \<times> string) list \<Rightarrow> string \<Rightarrow> string" where
  "flag_value vals n = (case map_of vals n of None \<Rightarrow> [] | Some v \<Rightarrow> v)"

end
