(* ===== verification/Signer_Cmd.thy ===== *)
theory Signer_Cmd
  imports Signer_Key Go_Flags
begin

text \<open>
  The \<open>solana-signer\<close> binary (\<open>src/cmd/solana-signer/main.go\<close>): the \<open>seal\<close> command that an
  operator runs once, and the server that the host launches. Flags are parsed as Go's \<open>flag\<close>
  package does; the terminal, the file system and the primitives are arguments.
\<close>

section \<open>Sealing\<close>

text \<open>
  Standard input: a terminal, whose answer is that of \<open>term.ReadPassword\<close>, or a stream that
  delivers its bytes and then ends (\<open>None\<close>) or fails.
\<close>

datatype stdin = Terminal "string + bytes" | Pipe bytes "string option"

datatype cmd_error =
    FlagErr flag_error
  | SealNeedsPaths
  | ReadKeyErr string
  | KeyNotArray
  | KeyWrongSize nat
  | KeyByteOutOfRange nat
  | ReadPassphraseErr string
  | EmptyPassphrase
  | SealErr key_error
  | ServeErr signer_serve_error

definition trim_crlf :: "bytes \<Rightarrow> bytes" where
  "trim_crlf line = rev (dropWhile (\<lambda>b. b = 10 \<or> b = 13) (rev line))"

definition ReadString :: "bytes \<Rightarrow> bytes" where
  "ReadString b = (let l = takeWhile (\<lambda>x. x \<noteq> 10) b in if length l = length b then b else l @ [10])"

definition readPassphrase :: "stdin \<Rightarrow> cmd_error + bytes" where
  "readPassphrase s =
     (case s of
        Terminal r \<Rightarrow> wrap_error ReadPassphraseErr r
      | Pipe b err \<Rightarrow>
          (case err of
             Some e \<Rightarrow> if 10 \<in> set b then Inr (trim_crlf (ReadString b)) else Inl (ReadPassphraseErr e)
           | None \<Rightarrow> Inr (trim_crlf (ReadString b))))"

fun int_elements :: "json list \<Rightarrow> int list option" where
  "int_elements [] = Some []"
| "int_elements (j # js) =
     (case ((case j of JNumber s \<Rightarrow> ParseInt64 s | JNull \<Rightarrow> Some 0 | _ \<Rightarrow> None), int_elements js) of
        (Some n, Some ns) \<Rightarrow> Some (n # ns)
      | _ \<Rightarrow> None)"

definition decode_ints :: "json \<Rightarrow> int list option" where
  "decode_ints j = (case j of JArray js \<Rightarrow> int_elements js | JNull \<Rightarrow> Some [] | _ \<Rightarrow> None)"

fun key_bytes :: "nat \<Rightarrow> int list \<Rightarrow> cmd_error + bytes" where
  "key_bytes i [] = Inr []"
| "key_bytes i (n # ns) =
     (if n < 0 \<or> n > 255 then Inl (KeyByteOutOfRange i)
      else (case key_bytes (Suc i) ns of Inl e \<Rightarrow> Inl e | Inr bs \<Rightarrow> Inr (of_int n # bs)))"

definition readRawKey :: "json_syntax \<Rightarrow> 'f files \<Rightarrow> 'f \<Rightarrow> string \<Rightarrow> cmd_error + bytes" where
  "readRawKey js fs f path =
     (case ReadFile fs f path of
        Inl e \<Rightarrow> Inl (ReadKeyErr e)
      | Inr raw \<Rightarrow>
     (case Option.bind (json_parse js raw) decode_ints of
        None \<Rightarrow> Inl KeyNotArray
      | Some nums \<Rightarrow>
          if length nums \<noteq> PrivateKeySize then Inl (KeyWrongSize (length nums))
          else key_bytes 0 nums))"

definition seal ::
  "crypto \<Rightarrow> json_syntax \<Rightarrow> 'f files \<Rightarrow> (nat \<Rightarrow> nat \<Rightarrow> string + bytes) \<Rightarrow> stdin \<Rightarrow> 'f \<Rightarrow> string list \<Rightarrow>
   cmd_error option \<times> 'f" where
  "seal c js fs rnd inp f args =
     (case parse_flags [(''in'', []), (''out'', [])] args of
        Inl e \<Rightarrow> (Some (FlagErr e), f)
      | Inr vals \<Rightarrow>
          let path_in = flag_value vals ''in''; path_out = flag_value vals ''out'' in
          if path_in = [] \<or> path_out = [] then (Some SealNeedsPaths, f)
          else
            (case readRawKey js fs f path_in of
               Inl e \<Rightarrow> (Some e, f)
             | Inr priv \<Rightarrow>
            (case readPassphrase inp of
               Inl e \<Rightarrow> (Some e, f)
             | Inr pass \<Rightarrow>
                 if length pass = 0 then (Some EmptyPassphrase, f)
                 else
                   (case SealEd25519Key c js fs rnd f path_out priv pass of
                      (e, f') \<Rightarrow> (map_option SealErr e, f')))))"

section \<open>Serving\<close>

definition open_closure ::
  "crypto \<Rightarrow> json_syntax \<Rightarrow> 'f files \<Rightarrow> 'f \<Rightarrow> (key_error \<Rightarrow> string) \<Rightarrow> string \<Rightarrow> Opener" where
  "open_closure c js fs f ktext keyPath passphrase fromHost =
     (let path = (if keyPath = [] then fromHost else keyPath) in
      if path = [] then Inl ''no sealed key: pass --key, or have the host name one at unlock''
      else wrap_error ktext (OpenEd25519Key c js fs f path passphrase))"

definition serveWith ::
  "crypto \<Rightarrow> json_syntax \<Rightarrow> 'f files \<Rightarrow> 'f \<Rightarrow> (key_error \<Rightarrow> string) \<Rightarrow> (refusal signer_error \<Rightarrow> string) \<Rightarrow>
   (nat \<Rightarrow> bool) \<Rightarrow> string \<Rightarrow> string list \<Rightarrow> string option \<Rightarrow> bytes \<Rightarrow> (nat \<Rightarrow> bool) \<Rightarrow>
   cmd_error option \<times> bytes list \<times> Solana vault option" where
  "serveWith c js fs f ktext et cancelled version args rerr input wfails =
     (case parse_flags [(''key'', [])] args of
        Inl e \<Rightarrow> (Some (FlagErr e), [], None)
      | Inr vals \<Rightarrow>
          (case signer_Serve js et cancelled ''solana-signer'' version
                  (Some (open_closure c js fs f ktext (flag_value vals ''key'')))
                  (Some (solana_policy, \<lparr>Payer = []\<rparr>)) rerr input wfails of
             (err, out, v) \<Rightarrow> (map_option ServeErr err, out, v)))"

text \<open>\<open>run\<close>: the operator's command, or the server.\<close>

definition run_cmd ::
  "(string list \<Rightarrow> 'a) \<Rightarrow> (string list \<Rightarrow> 'b) \<Rightarrow> string list \<Rightarrow> 'a + 'b" where
  "run_cmd sealing serving args =
     (if 0 < length args \<and> args ! 0 = ''seal'' then Inl (sealing (drop 1 args)) else Inr (serving args))"

text \<open>
  \<open>main\<close>: the exit code, the files after it, what was written to standard output, and the vault
  if a server ran. \<open>rerr\<close>, \<open>input\<close> and \<open>wfails\<close> are standard input and output, \<open>inp\<close> the terminal
  or pipe the passphrase of \<open>seal\<close> is read from.
\<close>

definition exit_code :: "cmd_error option \<Rightarrow> nat" where
  "exit_code err = (case err of None \<Rightarrow> 0 | Some _ \<Rightarrow> 1)"

definition signer_main ::
  "crypto \<Rightarrow> json_syntax \<Rightarrow> 'f files \<Rightarrow> (nat \<Rightarrow> nat \<Rightarrow> string + bytes) \<Rightarrow> (key_error \<Rightarrow> string) \<Rightarrow>
   (refusal signer_error \<Rightarrow> string) \<Rightarrow> (nat \<Rightarrow> bool) \<Rightarrow> string \<Rightarrow> stdin \<Rightarrow> string option \<Rightarrow> bytes \<Rightarrow> (nat \<Rightarrow> bool) \<Rightarrow>
   'f \<Rightarrow> string list \<Rightarrow> nat \<times> 'f \<times> bytes list \<times> Solana vault option" where
  "signer_main c js fs rnd ktext et cancelled version inp rerr input wfails f args =
     (case run_cmd (seal c js fs rnd inp f)
             (\<lambda>args. serveWith c js fs f ktext et cancelled version args rerr input wfails) args of
        Inl (err, f') \<Rightarrow> (exit_code err, f', [], None)
      | Inr (err, out, v) \<Rightarrow> (exit_code err, f, out, v))"

section \<open>Lemmas\<close>

lemma trim_crlf_line:
  assumes "10 \<notin> set pass" and "pass = [] \<or> last pass \<noteq> 13"
  shows "trim_crlf (ReadString (pass @ 10 # rest)) = pass"
proof -
  have "takeWhile (\<lambda>x. x \<noteq> 10) (pass @ 10 # rest) = pass"
    using assms(1) by (induction pass) auto
  then have "ReadString (pass @ 10 # rest) = pass @ [10]" by (simp add: ReadString_def)
  moreover have "dropWhile (\<lambda>b. b = 10 \<or> b = 13) (rev pass) = rev pass"
    using assms by (cases pass rule: rev_cases) auto
  ultimately show ?thesis by (simp add: trim_crlf_def)
qed

lemma open_closure_opened:
  assumes "open_closure c js fs f ktext kp passphrase path = Inr k"
  obtains p where "OpenEd25519Key c js fs f p passphrase = Inr k" "p = (if kp = [] then path else kp)"
  using assms by (auto simp: open_closure_def Let_def split: if_splits)

section \<open>Properties\<close>

text \<open>
  C33: a key sealed by the \<open>seal\<close> command opens in the server. When \<open>seal --in A --out B\<close>
  reports success with the passphrase given as a line on standard input, the server's opener,
  launched without \<open>--key\<close> and told the path \<open>B\<close> at unlock, opens the key under the passphrase
  without its line break. The hypotheses are those of the sealing round trip.
\<close>

theorem sealed_key_unlocks:
  assumes "seal c js fs rnd (Pipe (pass @ 10 # rest) None) f [''--in'', a, ''--out'', b] = (None, f')"
    and "10 \<notin> set pass" and "last pass \<noteq> 13"
    and "\<And>k n x. gcm_Open c k n (gcm_Seal c k n x) = Some x"
    and "\<And>p s t m th n. length (argon2_IDKey c p s t m th n) = n"
    and "\<And>i n x. rnd i n = Inr x \<Longrightarrow> length x = n"
    and "\<And>priv s n. rnd 0 saltLen = Inr s \<Longrightarrow> rnd 1 gcm_NonceSize = Inr n \<Longrightarrow> readRawKey js fs f a = Inr priv \<Longrightarrow>
      json_parse js (json_print js (sealed_json (sealed_file c pass priv s n))) =
        Some (sealed_json (sealed_file c pass priv s n))"
    and "\<And>x g. WriteFile fs f b x = (None, g) \<Longrightarrow> ReadFile fs g b = Inr x"
  shows "\<exists>priv key. readRawKey js fs f a = Inr priv \<and> open_closure c js fs f' ktext [] pass b = Inr key \<and>
    Public key = drop 32 priv"
proof -
  have flags: "parse_flags [(''in'', []), (''out'', [])] [''--in'', a, ''--out'', b] = Inr [(''in'', a), (''out'', b)]"
    by (simp add: parse_flags.simps split_at_equals_def)
  have "pass = [] \<or> last pass \<noteq> 13" using assms(3) by simp
  with trim_crlf_line [OF assms(2)] have pass: "readPassphrase (Pipe (pass @ 10 # rest) None) = Inr pass"
    by (simp add: readPassphrase_def)
  obtain priv where priv: "readRawKey js fs f a = Inr priv" "b \<noteq> []"
    and "SealEd25519Key c js fs rnd f b priv pass = (None, f')"
    using assms(1) by (auto simp: seal_def flags flag_value_def pass Let_def split: if_splits sum.splits prod.splits)
  note sealed = this(3)
  have "\<exists>key. OpenEd25519Key c js fs f' b pass = Inr key \<and> Public key = drop 32 priv \<and>
      (\<forall>m. Sign key m = Inr (ed25519_Sign c priv m))"
    by (rule open_sealed [OF sealed]) (use assms(4-6,8) assms(7) [OF _ _ priv(1)] in auto)
  with priv show ?thesis by (auto simp: open_closure_def)
qed

definition sample_seal_syntax :: json_syntax where
  "sample_seal_syntax =
     \<lparr>json_parse = (\<lambda>b. if b = [9] then Some (JArray (replicate 64 (JNumber ''7'')))
        else Some (sealed_json (sealed_file sample_crypto [1] (replicate 64 7) (replicate 16 2) (replicate 12 2)))),
      json_print = (\<lambda>_. [3])\<rparr>"

lemma int_elements_sevens: "int_elements (replicate n (JNumber ''7'')) = Some (replicate n 7)"
  by (induction n) (simp_all add: ParseInt64_def)

lemma key_bytes_sevens: "key_bytes i (replicate n 7) = Inr (replicate n 7)"
  by (induction n arbitrary: i) simp_all

lemma sample_raw_key: "f ''a'' = Some [9] \<Longrightarrow> readRawKey sample_seal_syntax sample_files f ''a'' = Inr (replicate 64 7)"
  by (simp add: readRawKey_def sample_seal_syntax_def sample_files_def decode_ints_def PrivateKeySize_def
      int_elements_sevens key_bytes_sevens)

lemma sample_primitives:
  "gcm_Open sample_crypto k n (gcm_Seal sample_crypto k n x) = Some x"
  "length (argon2_IDKey sample_crypto pw s t m th l) = l"
  "WriteFile sample_files f path x = (None, f(path \<mapsto> x))" "ReadFile sample_files (f(path \<mapsto> x)) path = Inr x"
  by (simp_all add: sample_crypto_def sample_files_def comp_def)

lemma sample_seal_text:
  "json_parse sample_seal_syntax (json_print sample_seal_syntax j) =
     Some (sealed_json (sealed_file sample_crypto [1] (replicate 64 7) (replicate 16 2) (replicate 12 2)))"
  by (simp add: sample_seal_syntax_def)

theorem sealed_key_unlocks_witness:
  "\<exists>f' key. seal sample_crypto sample_seal_syntax sample_files (\<lambda>i n. Inr (replicate n 2)) (Pipe [1, 10] None)
      [''a'' \<mapsto> [9]] [''--in'', ''a'', ''--out'', ''b''] = (None, f') \<and>
    open_closure sample_crypto sample_seal_syntax sample_files f' (\<lambda>_. []) [] [1] ''b'' = Inr key \<and>
    Public key = replicate 32 7"
proof -
  let ?f = "[''a'' \<mapsto> [9 :: byte]]" and ?rnd = "\<lambda>i n. Inr (replicate n (2 :: byte))"
  have flags: "parse_flags [(''in'', []), (''out'', [])] [''--in'', ''a'', ''--out'', ''b''] = Inr [(''in'', ''a''), (''out'', ''b'')]"
    by (simp add: parse_flags.simps split_at_equals_def)
  have pass: "readPassphrase (Pipe ([1] @ 10 # []) None) = Inr [1]"
    by (simp add: readPassphrase_def ReadString_def trim_crlf_def)
  have raw: "readRawKey sample_seal_syntax sample_files ?f ''a'' = Inr (replicate 64 7)"
    by (simp add: sample_raw_key)
  have boxed: "SealEd25519Key sample_crypto sample_seal_syntax sample_files ?rnd ?f ''b'' (replicate 64 7) [1] =
      (None, ?f(''b'' \<mapsto> [3]))"
    by (simp add: SealEd25519Key_def PrivateKeySize_def boxCipher_def sample_crypto_def
        argonKeyLen_def sample_files_def sample_seal_syntax_def)
  have s: "seal sample_crypto sample_seal_syntax sample_files ?rnd (Pipe ([1] @ 10 # []) None)
      ?f [''--in'', ''a'', ''--out'', ''b''] = (None, ?f(''b'' \<mapsto> [3]))"
    using flags raw pass boxed by (simp add: seal_def flag_value_def)
  have "\<exists>priv key. readRawKey sample_seal_syntax sample_files ?f ''a'' = Inr priv \<and>
      open_closure sample_crypto sample_seal_syntax sample_files (?f(''b'' \<mapsto> [3])) (\<lambda>_. []) [] [1] ''b'' = Inr key \<and>
      Public key = drop 32 priv"
    by (rule sealed_key_unlocks [OF s])
      (auto simp: raw sample_primitives saltLen_def gcm_NonceSize_def sample_seal_text)
  with s show ?thesis by (auto simp: sample_raw_key)
qed


lemma signer_main_served:
  assumes "signer_main c js fs rnd ktext et cancelled version inp rerr input wfails f args = (code, f', out, Some v)"
  obtains err where "serveWith c js fs f ktext et cancelled version args rerr input wfails = (err, out, Some v)"
    "f' = f" "code = exit_code err"
proof (cases "0 < length args \<and> args ! 0 = ''seal''")
  case True
  with assms show thesis by (cases "seal c js fs rnd inp f (drop 1 args)") (simp add: signer_main_def run_cmd_def)
next
  case False
  then have "run_cmd (seal c js fs rnd inp f)
      (\<lambda>args. serveWith c js fs f ktext et cancelled version args rerr input wfails) args =
      Inr (serveWith c js fs f ktext et cancelled version args rerr input wfails)"
    by (simp only: run_cmd_def if_False)
  moreover obtain err out' v' where
    s: "serveWith c js fs f ktext et cancelled version args rerr input wfails = (err, out', v')" by (rule prod_cases3)
  ultimately have "f' = f" "code = exit_code err" "out' = out" "v' = Some v" using assms by (simp_all add: signer_main_def)
  with s show thesis by (intro that [of err]) simp_all
qed

text \<open>
  C28: the Solana signer as shipped. However the binary is invoked and whatever arrives on its
  input, every payload that was signed is a message the policy grants to the key that signed
  it, and that key is the one inside a sealed file, at the path of \<open>--key\<close> if it was given,
  that authenticated under a passphrase. A process that serves changes no file.
\<close>

theorem solana_signer_session:
  assumes "signer_main c js fs rnd ktext et cancelled version inp rerr input wfails f args = (code, f', out, Some v)"
    and "(k, payload) \<in> set (sign_calls v)"
  shows "(\<exists>m. fmt_message m payload \<and> approvable k m) \<and>
    (\<exists>path passphrase key. OpenEd25519Key c js fs f path passphrase = Inr key \<and> Public key = k \<and>
       (args = [''--key'', p] \<and> p \<noteq> [] \<longrightarrow> path = p)) \<and> f' = f"
proof -
  from assms(1) obtain err where served:
    "serveWith c js fs f ktext et cancelled version args rerr input wfails = (err, out, Some v)" and f': "f' = f"
    by (rule signer_main_served)
  obtain vals where vals: "parse_flags [(''key'', [])] args = Inr vals"
    using served by (auto simp: serveWith_def split: sum.splits)
  let ?opn = "open_closure c js fs f ktext (flag_value vals ''key'')"
  obtain err' where s: "signer_Serve js et cancelled ''solana-signer'' version (Some ?opn)
      (Some (solana_policy, \<lparr>Payer = []\<rparr>)) rerr input wfails = (err', out, Some v)"
    using served by (auto simp: serveWith_def vals split: prod.splits)
  have "custody_inv ?opn (locked_vault \<lparr>Payer = []\<rparr>)" by (simp add: custody_inv_def locked_vault_def)
  from custody.Serve_inv [OF this] session_vault [OF s] have "custody_inv ?opn v" by simp
  with assms(2) obtain key pass from_host where "?opn pass from_host = Inr key" "Public key = k"
    by (fastforce simp: custody_inv_def opened_def)
  then obtain path where "OpenEd25519Key c js fs f path pass = Inr key" "Public key = k"
    "path = (if flag_value vals ''key'' = [] then from_host else flag_value vals ''key'')"
    using open_closure_opened by metis
  moreover have "flag_value vals ''key'' = p" if "args = [''--key'', p]"
    using vals that by (auto simp: parse_flags.simps split_at_equals_def flag_value_def)
  ultimately have "OpenEd25519Key c js fs f path pass = Inr key \<and> Public key = k \<and>
      (args = [''--key'', p] \<and> p \<noteq> [] \<longrightarrow> path = p)" by auto
  moreover have "\<exists>m. fmt_message m payload \<and> approvable k m"
    using solana.session_safe [OF s assms(2)] by (simp add: safe_call_def solana_safe_def)
  ultimately show ?thesis using f' by blast
qed


definition sample_sealed :: sealedKey where
  "sample_sealed = sealed_file sample_crypto (bytes_of_string ''pw'') (replicate 64 5) (replicate 16 2) (replicate 12 2)"

lemma sample_opens:
  "OpenEd25519Key sample_crypto (sample_session (Some (sealed_json sample_sealed))) sample_files [''k'' \<mapsto> [1]] ''k''
     (bytes_of_string ''pw'') =
   Inr \<lparr>Public = replicate 32 5, Curve = ''ed25519'', Sign = (\<lambda>m. Inr (ed25519_Sign sample_crypto (replicate 64 5) m))\<rparr>"
proof -
  have "decode_sealed (sealed_json sample_sealed) = Some sample_sealed"
    by (rule decode_sealed_json) (simp add: sample_sealed_def sealed_file_def sealVersion_def)
  moreover have "json_parse (sample_session (Some (sealed_json sample_sealed))) [1] = Some (sealed_json sample_sealed)"
    by (simp add: sample_session_def)
  ultimately show ?thesis
    by (simp add: OpenEd25519Key_def sample_primitives boxCipher_def argonKeyLen_def NewEd25519Key_def SeedSize_def
        sample_sealed_def sealed_file_def PrivateKeySize_def gcm_NonceSize_def)
qed

theorem solana_signer_session_witness:
  "\<exists>out v. signer_main sample_crypto (sample_session (Some (sealed_json sample_sealed))) sample_files (\<lambda>_ _. Inr [])
      (\<lambda>_. []) (\<lambda>_. []) (\<lambda>_. False) ''dev'' (Pipe [] None) None [85, 10, 83, 10] (\<lambda>_. False)
      [''k'' \<mapsto> [1]] [''--key'', ''k''] = (0, [''k'' \<mapsto> [1]], out, Some v) \<and>
    (replicate 32 5, sample_payload) \<in> set (sign_calls v) \<and>
    (\<exists>passphrase key. OpenEd25519Key sample_crypto (sample_session (Some (sealed_json sample_sealed))) sample_files
       [''k'' \<mapsto> [1]] ''k'' passphrase = Inr key \<and> Public key = replicate 32 5)"
proof -
  let ?js = "sample_session (Some (sealed_json sample_sealed))"
  have vals: "parse_flags [(''key'', [])] [''--key'', ''k''] = Inr [(''key'', ''k'')]"
    by (simp add: parse_flags.simps split_at_equals_def)
  let ?key = "\<lparr>Public = replicate 32 5, Curve = ''ed25519'', Sign = (\<lambda>m. Inr (ed25519_Sign sample_crypto (replicate 64 5) m))\<rparr>"
  have opens: "open_closure sample_crypto ?js sample_files [''k'' \<mapsto> [1]] (\<lambda>_. []) ''k'' (bytes_of_string ''pw'') [] = Inr ?key"
    by (simp add: open_closure_def sample_opens)
  have key: "Public ?key = replicate 32 5" "Sign ?key sample_payload = Inr (ed25519_Sign sample_crypto (replicate 64 5) sample_payload)"
    by simp_all
  have "\<exists>out v. serveWith sample_crypto ?js sample_files [''k'' \<mapsto> [1]]
      (\<lambda>_. []) (\<lambda>_. []) (\<lambda>_. False) ''dev'' [''--key'', ''k''] None [85, 10, 83, 10] (\<lambda>_. False) = (None, out, Some v) \<and>
      sign_calls v = [(replicate 32 5, sample_payload)]"
    using sample_session_calls [of "open_closure sample_crypto ?js sample_files [''k'' \<mapsto> [1]] (\<lambda>_. []) ''k''",
        OF opens key(1,2), of "Some (sealed_json sample_sealed)" "\<lambda>_. []" "''solana-signer''" "''dev''"]
    by (auto simp: serveWith_def vals flag_value_def)
  then obtain out v where s: "signer_main sample_crypto ?js sample_files (\<lambda>_ _. Inr [])
      (\<lambda>_. []) (\<lambda>_. []) (\<lambda>_. False) ''dev'' (Pipe [] None) None [85, 10, 83, 10] (\<lambda>_. False)
      [''k'' \<mapsto> [1]] [''--key'', ''k''] = (0, [''k'' \<mapsto> [1]], out, Some v)"
    "(replicate 32 5, sample_payload) \<in> set (sign_calls v)"
    by (auto simp: signer_main_def run_cmd_def exit_code_def)
  from solana_signer_session [OF s, of "''k''"] s show ?thesis by auto
qed

end
