(* ===== verification/Token_Encoding.thy ===== *)
theory Token_Encoding
  imports Go_Strings
begin

unbundle bit_operations_syntax

text \<open>
  The byte formats of the token engine: the Borsh data of the Token Metadata \<open>Create\<close>
  instruction (\<open>src/token/borsh.go\<close>), and the base64 forms in which the host passes keys and
  signatures (\<open>src/token/address.go\<close>).

  A public key is its 32 bytes and a signature its 64 bytes.
\<close>

type_synonym pubkey = bytes
type_synonym signature = bytes

section \<open>Borsh\<close>

definition ixCreate :: byte where "ixCreate = 42"

definition tokenStandardFungible :: byte where "tokenStandardFungible = 2"

text \<open>\<open>binary.Write\<close> in little-endian order.\<close>

definition le_bytes :: "nat \<Rightarrow> 'a::len word \<Rightarrow> bytes" where
  "le_bytes n w = map (\<lambda>i. ucast (drop_bit (8 * i) w)) [0..<n]"

definition borshString :: "string \<Rightarrow> bytes" where
  "borshString s = le_bytes 4 (of_nat (length s) :: u32) @ bytes_of_string s"

definition createV1Data :: "string \<Rightarrow> string \<Rightarrow> string \<Rightarrow> byte \<Rightarrow> bytes" where
  "createV1Data name symbol uri decimals =
     [ixCreate, 0] @ borshString name @ borshString symbol @ borshString uri @
     le_bytes 2 (0 :: u16) @ [0] @ [0] @ [0] @ [tokenStandardFungible] @ [0] @ [0] @ [0] @ [0] @
     [1, decimals] @ [0]"

section \<open>Keys and signatures on the wire\<close>

datatype address_error = NotBase64 | WrongLength nat nat

definition PublicKeyLength :: nat where "PublicKeyLength = 32"

definition SignatureLength :: nat where "SignatureLength = 64"

definition ParsePubkeyBytes :: "string \<Rightarrow> address_error + pubkey" where
  "ParsePubkeyBytes b64 =
     (case DecodeString b64 of
        None \<Rightarrow> Inl NotBase64
      | Some raw \<Rightarrow>
          if length raw \<noteq> PublicKeyLength then Inl (WrongLength (length raw) PublicKeyLength) else Inr raw)"

definition ParseSignatureBytes :: "string \<Rightarrow> address_error + signature" where
  "ParseSignatureBytes b64 =
     (case DecodeString b64 of
        None \<Rightarrow> Inl NotBase64
      | Some raw \<Rightarrow>
          if length raw \<noteq> SignatureLength then Inl (WrongLength (length raw) SignatureLength) else Inr raw)"

section \<open>Reading the instruction back\<close>

text \<open>
  The layout of \<open>CreateArgs::V1\<close> as the comment of \<open>createV1Data\<close> gives it, read from the front.
  A reader takes what it needs and gives the rest; it fails on short input.
\<close>

record create_args =
  ca_name :: bytes
  ca_symbol :: bytes
  ca_uri :: bytes
  ca_seller_fee :: nat
  ca_creators :: bool
  ca_primary_sale :: bool
  ca_is_mutable :: bool
  ca_standard :: byte
  ca_decimals :: "byte option"

fun le_nat :: "bytes \<Rightarrow> nat" where
  "le_nat [] = 0"
| "le_nat (b # bs) = unat b + 256 * le_nat bs"

definition read_string :: "bytes \<Rightarrow> (bytes \<times> bytes) option" where
  "read_string b =
     (let n = le_nat (take 4 b); rest = drop 4 b in
      if length b < 4 \<or> length rest < n then None else Some (take n rest, drop n rest))"

text \<open>
  The reader of the whole instruction. It accepts only the shape in which every optional part
  but the decimals is absent: an instruction with creators, a collection, uses, a rule set or
  editions is not read.
\<close>

definition read_create :: "bytes \<Rightarrow> create_args option" where
  "read_create d =
     (if take 2 d \<noteq> [ixCreate, 0] then None
      else
        (case read_string (drop 2 d) of
           None \<Rightarrow> None
         | Some (name, d1) \<Rightarrow>
        (case read_string d1 of
           None \<Rightarrow> None
         | Some (symbol, d2) \<Rightarrow>
        (case read_string d2 of
           None \<Rightarrow> None
         | Some (uri, d3) \<Rightarrow>
             (case d3 of
                [f0, f1, creators, sale, mut, std, c, u, cd, rs, dtag, dec, p] \<Rightarrow>
                  if creators \<in> {0, 1} \<and> sale \<in> {0, 1} \<and> mut \<in> {0, 1} \<and> c = 0 \<and> u = 0 \<and> cd = 0 \<and> rs = 0 \<and>
                     dtag = 1 \<and> p = 0
                  then Some \<lparr>ca_name = name, ca_symbol = symbol, ca_uri = uri, ca_seller_fee = le_nat [f0, f1],
                     ca_creators = (creators = 1), ca_primary_sale = (sale = 1), ca_is_mutable = (mut = 1),
                     ca_standard = std, ca_decimals = Some dec\<rparr>
                  else None
              | _ \<Rightarrow> None)))))"

lemma length_le_bytes [simp]: "length (le_bytes n w) = n"
  by (simp add: le_bytes_def)

lemma le_nat_le_bytes_4: "le_nat (le_bytes 4 (w :: u32)) = unat w"
proof -
  have byte: "unat (ucast (drop_bit k w) :: byte) = unat w div 2 ^ k mod 256" for k
  proof -
    have "unat (drop_bit k w) = unat w div 2 ^ k"
      unfolding unat_drop_bit_eq by (simp only: drop_bit_eq_div)
    then show ?thesis by (simp add: unsigned_ucast_eq take_bit_eq_mod)
  qed
  have split: "n mod 256 + 256 * (n div 256 mod 256 + 256 * (n div 65536 mod 256 + 256 * (n div 16777216 mod 256))) = n"
    if "n < 4294967296" for n :: nat
  proof -
    have "n div 65536 = n div 256 div 256" "n div 16777216 = n div 256 div 256 div 256"
      by (simp_all add: div_mult2_eq [symmetric])
    moreover have "n div 256 div 256 div 256 < 256" using that by (simp add: div_mult2_eq [symmetric] less_mult_imp_div_less)
    ultimately show ?thesis
      using mod_mult_div_eq [of n 256] mod_mult_div_eq [of "n div 256" 256] mod_mult_div_eq [of "n div 256 div 256" 256]
      by simp
  qed
  have "unat w < 4294967296" using unsigned_less [of w] by simp
  then have "unat w div 16777216 mod 256 = unat w div 16777216" by (simp add: less_mult_imp_div_less)
  with split [OF \<open>unat w < 4294967296\<close>] have "unat w div 2 ^ 0 mod 256 + 256 * (unat w div 2 ^ 8 mod 256 +
      256 * (unat w div 2 ^ 16 mod 256 + 256 * (unat w div 2 ^ 24 mod 256 + 256 * 0))) = unat w"
    by simp
  moreover have "le_bytes 4 w = [ucast (drop_bit 0 w), ucast (drop_bit 8 w), ucast (drop_bit 16 w), ucast (drop_bit 24 w)]"
    by (simp add: le_bytes_def upt_rec)
  ultimately show ?thesis by (simp only: le_nat.simps byte)
qed

lemma read_string_borsh:
  assumes "length s < 2 ^ 32"
  shows "read_string (borshString s @ rest) = Some (bytes_of_string s, rest)"
proof -
  have "le_nat (le_bytes 4 (of_nat (length s) :: u32)) = length s"
    using assms by (simp add: le_nat_le_bytes_4 unat_of_nat)
  then show ?thesis by (simp add: read_string_def borshString_def)
qed

section \<open>Properties\<close>

text \<open>
  The metadata instruction says what it should and nothing else. Read back by the layout
  of \<open>CreateArgs::V1\<close>, the data built for a name, symbol, URI and decimals holds exactly those,
  with no royalty, no creators, no primary sale, the immutable flag, the fungible standard and
  no other part; in particular two different tokens never get the same data.
\<close>

theorem createV1Data_roundtrip:
  assumes "length name < 2 ^ 32" "length symbol < 2 ^ 32" "length uri < 2 ^ 32"
  shows "read_create (createV1Data name symbol uri decimals) =
    Some \<lparr>ca_name = bytes_of_string name, ca_symbol = bytes_of_string symbol, ca_uri = bytes_of_string uri,
      ca_seller_fee = 0, ca_creators = False, ca_primary_sale = False, ca_is_mutable = False,
      ca_standard = tokenStandardFungible, ca_decimals = Some decimals\<rparr>"
proof -
  have "le_bytes 2 (0 :: u16) = [0, 0]" by (simp add: le_bytes_def upt_rec)
  then show ?thesis
    using assms by (simp add: read_create_def createV1Data_def read_string_borsh)
qed

theorem createV1Data_roundtrip_witness:
  "read_create (createV1Data ''Gold'' ''GLD'' ''ipfs://x'' 9) =
    Some \<lparr>ca_name = bytes_of_string ''Gold'', ca_symbol = bytes_of_string ''GLD'', ca_uri = bytes_of_string ''ipfs://x'',
      ca_seller_fee = 0, ca_creators = False, ca_primary_sale = False, ca_is_mutable = False,
      ca_standard = tokenStandardFungible, ca_decimals = Some 9\<rparr>"
  by (rule createV1Data_roundtrip) simp_all

text \<open>
  Keys and signatures cross the host boundary unchanged, and only at their length. The
  base64 of 32 bytes parses back to that key and the base64 of 64 bytes to that signature;
  what parses as a key has 32 bytes and what parses as a signature has 64.
\<close>

theorem wire_keys_exact:
  "(ParsePubkeyBytes (EncodeToString k) = Inr k \<longleftrightarrow> length k = 32) \<and>
   (ParseSignatureBytes (EncodeToString g) = Inr g \<longleftrightarrow> length g = 64) \<and>
   (ParsePubkeyBytes t = Inr k' \<longleftrightarrow> DecodeString t = Some k' \<and> length k' = 32) \<and>
   (ParseSignatureBytes t = Inr g' \<longleftrightarrow> DecodeString t = Some g' \<and> length g' = 64)"
  by (auto simp: ParsePubkeyBytes_def ParseSignatureBytes_def PublicKeyLength_def SignatureLength_def
      base64_roundtrip split: option.splits)

end
