(* ===== verification/Host_Calls.thy ===== *)
theory Host_Calls
  imports Json_Values Token_Encoding
begin

unbundle bit_operations_syntax

text \<open>
  How the token engine talks to its host (\<open>src/token/hostrpc.go\<close>, and the request types of
  \<open>src/token/session.go\<close>).

  The engine runs on its own goroutine and stops wherever it needs the outside world: to hand
  out a call, to wait for the answer, to let time pass. Its behaviour is given by replay: an
  action is a function of the engine's own state and the list of what happens at those points,
  and it says where the engine stops when the list is used up (\<open>Blocked\<close>), or what it returns
  (\<open>Result\<close>) with the events it did not use. An event that cannot happen where it stands makes
  the replay \<open>Impossible\<close>. So a statement about all lists of events is a statement about all
  runs, and the places where some run blocks are all the requests the engine ever makes.

  Cancellation is an event too: wherever the code selects on \<open>ctx.Done()\<close>, the event \<open>CtxDone\<close>
  may be chosen. Go's \<open>select\<close> picks any ready case, so a request may still be taken after the
  context has ended.
\<close>

section \<open>Requests and replies\<close>

record SignRequest =
  sr_Pubkey :: pubkey
  sr_Message :: bytes

record FetchRequest =
  fr_Body :: bytes

text \<open>A \<open>HostCall\<close> has exactly one of its two pointers set.\<close>

datatype HostCall = SignCall SignRequest | FetchCall FetchRequest

record HostReply =
  hr_Signature :: signature
  hr_Body :: bytes
  hr_Err :: "string option"

datatype event = Taken | Reply HostReply | Tick | CtxDone

text \<open>
  The context an operation watches: none, that of the session, which only \<open>Close\<close> and the end of
  the session cancel, that of the submission, which has a deadline as well (\<open>lifecycleBudget\<close>), or
  that of the last look at an unresolved mint, which has a deadline only (\<open>cleanupBudget\<close>).
\<close>

datatype go_ctx = NoCtx | SessionCtx | OpCtx | CheckCtx

text \<open>
  Where the engine can stop: handing a call to the driver, waiting for its reply (each under a
  context), or waiting for the next poll, which happens only under the submission's context.
\<close>

datatype wait = WaitSend HostCall go_ctx | WaitReply HostCall go_ctx | WaitTick

datatype ('a, 's) outcome = Blocked wait | Result 'a 's "event list" | Impossible

type_synonym ('a, 's) action = "'s \<Rightarrow> event list \<Rightarrow> ('a, 's) outcome"

definition return :: "'a \<Rightarrow> ('a, 's) action" where
  "return x st es = Result x st es"

definition andThen :: "('a, 's) action \<Rightarrow> ('a \<Rightarrow> ('b, 's) action) \<Rightarrow> ('b, 's) action" where
  "andThen m f st es =
     (case m st es of Blocked w \<Rightarrow> Blocked w | Impossible \<Rightarrow> Impossible | Result x st' es' \<Rightarrow> f x st' es')"

text \<open>A point where the engine waits: the next event, if it can happen here.\<close>

definition possible :: "wait \<Rightarrow> event \<Rightarrow> bool" where
  "possible w e \<longleftrightarrow>
     (case w of
        WaitSend c cx \<Rightarrow> e = Taken \<or> cx \<noteq> NoCtx \<and> e = CtxDone
      | WaitReply c cx \<Rightarrow> (\<exists>r. e = Reply r) \<or> cx \<noteq> NoCtx \<and> e = CtxDone
      | WaitTick \<Rightarrow> e = Tick \<or> e = CtxDone)"

definition await :: "wait \<Rightarrow> (event, 's) action" where
  "await w st es =
     (case es of [] \<Rightarrow> Blocked w | e # es' \<Rightarrow> if possible w e then Result e st es' else Impossible)"

section \<open>The host transport\<close>

text \<open>The engine's own state: the request counter of the transport and the network it is on.\<close>

record engine_state =
  rpc_id :: u64
  eng_net :: string

type_synonym 'a engine_action = "('a, engine_state) action"

text \<open>
  How settled the state must be that an answer of the cluster speaks of, and the calls of the
  client library with the arguments the engine gives them: the message and the signatures of a
  transaction with the level its simulation reads at, and whether a status is searched for in the
  history.
\<close>

datatype commitment = CommitmentProcessed | CommitmentConfirmed | CommitmentFinalized

datatype rpc_method =
    GetLatestBlockhash commitment
  | GetBlockHeight commitment
  | SendTransaction bytes "signature list" commitment
  | GetSignatureStatuses bool signature
  | GetAccountInfo pubkey commitment
  | GetGenesisHash

datatype rpc_error =
    MarshalErr string
  | ContextErr
  | HostErr string
  | DecodeErr string
  | NodeErr string
  | ObjectErr string
  | ErrNotFound

text \<open>
  What the JSON-RPC library does with a request and a response: the request body for a method
  under an id, and the reading of a response body as the node's error or the result.
\<close>

datatype rpc_response = RpcError string | RpcResult rawMessage

record rpc_lib =
  rpc_request :: "nat \<Rightarrow> rpc_method \<Rightarrow> string + bytes"
  rpc_response_of :: "bytes \<Rightarrow> string + rpc_response"

definition roundTrip :: "go_ctx \<Rightarrow> bytes \<Rightarrow> (rpc_error + bytes) engine_action" where
  "roundTrip cx body =
     (let call = FetchCall \<lparr>fr_Body = body\<rparr> in
      andThen (await (WaitSend call cx)) (\<lambda>e.
        if e = CtxDone then return (Inl ContextErr)
        else andThen (await (WaitReply call cx)) (\<lambda>e.
          case e of
            Reply r \<Rightarrow> return (case hr_Err r of Some err \<Rightarrow> Inl (HostErr err) | None \<Rightarrow> Inr (hr_Body r))
          | _ \<Rightarrow> return (Inl ContextErr))))"

text \<open>\<open>int(h.id.Add(1) & math.MaxInt32)\<close>\<close>

definition next_id :: "nat engine_action" where
  "next_id st es =
     (let n = rpc_id st + 1 in Result (unat (n AND 0x7fffffff)) (st\<lparr>rpc_id := n\<rparr>) es)"

text \<open>\<open>CallForInto\<close>; \<open>dec\<close> is \<open>GetObject\<close> at the type of \<open>out\<close>.\<close>

definition decode_response ::
  "rpc_lib \<Rightarrow> (rawMessage \<Rightarrow> rpc_error + 'a) \<Rightarrow> rpc_error + bytes \<Rightarrow> rpc_error + 'a" where
  "decode_response lib dec res =
     (case res of
        Inl err \<Rightarrow> Inl err
      | Inr b \<Rightarrow>
          (case rpc_response_of lib b of
             Inl err \<Rightarrow> Inl (DecodeErr err)
           | Inr (RpcError err) \<Rightarrow> Inl (NodeErr err)
           | Inr (RpcResult raw) \<Rightarrow> dec raw))"

definition CallForInto ::
  "go_ctx \<Rightarrow> rpc_lib \<Rightarrow> rpc_method \<Rightarrow> (rawMessage \<Rightarrow> rpc_error + 'a) \<Rightarrow> (rpc_error + 'a) engine_action" where
  "CallForInto cx lib method dec =
     andThen next_id (\<lambda>i.
       case rpc_request lib i method of
         Inl err \<Rightarrow> return (Inl (MarshalErr err))
       | Inr body \<Rightarrow> andThen (roundTrip cx body) (\<lambda>res. return (decode_response lib dec res)))"

text \<open>
  The transport has no network, so the other two calls of the library's interface fail at once.
\<close>

datatype transport_error = errNoDirectTransport

definition CallWithCallback :: "transport_error engine_action" where
  "CallWithCallback = return errNoDirectTransport"

definition CallBatch :: "(transport_error + 'a) engine_action" where
  "CallBatch = return (Inl errNoDirectTransport)"

section \<open>The host signer\<close>

text \<open>
  \<open>roundTripSigner.Sign\<close> does not watch the context. Go returns the signature and the error of
  the reply together; the caller looks at the error first.
\<close>

definition roundTrip_Sign :: "pubkey \<Rightarrow> bytes \<Rightarrow> (string + signature) engine_action" where
  "roundTrip_Sign pub message =
     (let call = SignCall \<lparr>sr_Pubkey = pub, sr_Message = message\<rparr> in
      andThen (await (WaitSend call NoCtx)) (\<lambda>_.
        andThen (await (WaitReply call NoCtx)) (\<lambda>e.
          case e of
            Reply r \<Rightarrow> return (case hr_Err r of Some err \<Rightarrow> Inl err | None \<Rightarrow> Inr (hr_Signature r))
          | _ \<Rightarrow> return (Inl []))))"

end
