(* ===== verification/Host_Runs.thy ===== *)
theory Host_Runs
  imports Host_Calls
begin

unbundle bit_operations_syntax

text \<open>
  Laws of engine runs, shared by everything that talks to the host: an action reads its events
  one at a time (locale \<open>replayable\<close>), what it can ask for (\<open>asks\<close>, \<open>signs_once\<close>, \<open>rpc_wait\<close>), and
  in which order it waits (\<open>protocol\<close>, \<open>calls_after_tick\<close>). Each law comes with rules for
  \<open>return\<close>, \<open>andThen\<close>, case distinctions and loops, and holds of the transport and the signer.
\<close>

section \<open>Runs\<close>

text \<open>
  What it means that an action reads its events one at a time: a result rests on the events it
  used and on no others, before the last of them the action was still waiting, and an event that
  cannot happen where the action waits is not accepted there.
\<close>

definition replay_at :: "('a, 's) action \<Rightarrow> 's \<Rightarrow> event list \<Rightarrow> bool" where
  "replay_at m st es \<longleftrightarrow>
     (\<forall>x st' rest. m st es = Result x st' rest \<longrightarrow>
        (\<exists>u. es = u @ rest \<and> (\<forall>v. m st (u @ v) = Result x st' v) \<and>
          (\<forall>p q. u = p @ q \<longrightarrow> q \<noteq> [] \<longrightarrow> (\<exists>w. m st p = Blocked w)))) \<and>
     (\<forall>w p q. m st es = Blocked w \<longrightarrow> es = p @ q \<longrightarrow> (\<exists>w'. m st p = Blocked w')) \<and>
     (\<forall>w e q. m st es = Blocked w \<longrightarrow> \<not> possible w e \<longrightarrow> m st (es @ e # q) = Impossible)"

lemma replay_at_used:
  assumes "replay_at m st es" and "m st es = Result x st' rest"
  obtains u where "es = u @ rest" "\<And>v. m st (u @ v) = Result x st' v"
    "\<And>p q. u = p @ q \<Longrightarrow> q \<noteq> [] \<Longrightarrow> \<exists>w. m st p = Blocked w"
  using assms unfolding replay_at_def by metis

lemma replay_at_waits: "replay_at m st (p @ q) \<Longrightarrow> m st (p @ q) = Blocked w \<Longrightarrow> \<exists>w'. m st p = Blocked w'"
  unfolding replay_at_def by metis

lemma replay_at_refuses: "replay_at m st es \<Longrightarrow> m st es = Blocked w \<Longrightarrow> \<not> possible w e \<Longrightarrow> m st (es @ e # q) = Impossible"
  unfolding replay_at_def by metis

locale replayable =
  fixes m :: "('a, 's) action"
  assumes reads: "replay_at m st es"
begin

lemma rest_suffix: "m st es = Result x st' rest \<Longrightarrow> \<exists>u. es = u @ rest"
  using replay_at_used [OF reads] by metis

lemma next_possible: "m st es = Blocked w \<Longrightarrow> m st (es @ e # q) \<noteq> Impossible \<Longrightarrow> possible w e"
  using replay_at_refuses [OF reads] by metis

lemma more_events: "m st es = Result x st' rest \<Longrightarrow> m st (es @ v) = Result x st' (rest @ v)"
  using replay_at_used [OF reads, of st es x st' rest] by (metis append.assoc)

end

text \<open>Whatever a run comes to, it was waiting for its last event.\<close>

lemma came_from:
  assumes "replayable m" and "m st (es @ [e]) = Blocked w \<or> m st (es @ [e]) = Result x st' []"
  shows "\<exists>w'. m st es = Blocked w' \<and> possible w' e"
proof -
  have "\<exists>w'. m st es = Blocked w'"
    using assms(2)
  proof
    assume "m st (es @ [e]) = Blocked w"
    with replay_at_waits [OF replayable.reads [OF assms(1)]] show ?thesis by blast
  next
    assume result: "m st (es @ [e]) = Result x st' []"
    obtain u where "es @ [e] = u" "\<And>p q. u = p @ q \<Longrightarrow> q \<noteq> [] \<Longrightarrow> \<exists>w. m st p = Blocked w"
      using replay_at_used [OF replayable.reads [OF assms(1)] result] by auto
    then show ?thesis by blast
  qed
  with replayable.next_possible [OF assms(1), of st es _ e "[]"] assms(2) show ?thesis by auto
qed

lemma replayable_return [intro]: "replayable (return x)"
  by unfold_locales (auto simp: return_def replay_at_def)

lemma replayable_await [intro]: "replayable (await w)"
proof
  fix st :: 'a and es
  show "replay_at (await w) st es"
    by (cases es) (auto simp: replay_at_def await_def Cons_eq_append_conv split: if_splits intro: exI [of _ "[_]"])
qed

text \<open>A list that starts as \<open>u\<close> does: it stops within \<open>u\<close> or goes past it.\<close>

lemma append_split_cases:
  assumes "p @ q = u @ r"
  obtains (within) q' where "u = p @ q'" "q' \<noteq> []" | (past) p' where "p = u @ p'" "r = p' @ q"
proof -
  consider q' where "u = p @ q'" "q = q' @ r" | p' where "p = u @ p'" "r = p' @ q"
    using assms by (auto simp: append_eq_append_conv2)
  then show thesis
  proof cases
    case (1 q')
    then show thesis using within [of q'] past [of "[]"] by (cases "q' = []") auto
  qed (rule past)
qed

lemma andThen_Result:
  "andThen m f st es = Result y st'' rest \<longleftrightarrow>
     (\<exists>x st' r. m st es = Result x st' r \<and> f x st' r = Result y st'' rest)"
  by (auto simp: andThen_def split: outcome.splits)

lemma andThen_Blocked:
  "andThen m f st es = Blocked w \<longleftrightarrow>
     m st es = Blocked w \<or> (\<exists>x st' r. m st es = Result x st' r \<and> f x st' r = Blocked w)"
  by (auto simp: andThen_def split: outcome.splits)

lemma andThen_Impossible:
  "andThen m f st es = Impossible \<longleftrightarrow>
     m st es = Impossible \<or> (\<exists>x st' r. m st es = Result x st' r \<and> f x st' r = Impossible)"
  by (auto simp: andThen_def split: outcome.splits)

lemma andThen_uses:
  assumes m: "replay_at m st es" "m st es = Result x st' r"
    and f: "replay_at (f x) st' r" "f x st' r = Result y st'' rest"
  shows "\<exists>u. es = u @ rest \<and> (\<forall>v. andThen m f st (u @ v) = Result y st'' v) \<and>
    (\<forall>p q. u = p @ q \<longrightarrow> q \<noteq> [] \<longrightarrow> (\<exists>w. andThen m f st p = Blocked w))"
proof -
  obtain u1 where u1: "es = u1 @ r" "\<And>v. m st (u1 @ v) = Result x st' v"
    "\<And>p q. u1 = p @ q \<Longrightarrow> q \<noteq> [] \<Longrightarrow> \<exists>w. m st p = Blocked w" using replay_at_used [OF m] by blast
  obtain u2 where u2: "r = u2 @ rest" "\<And>v. f x st' (u2 @ v) = Result y st'' v"
    "\<And>p q. u2 = p @ q \<Longrightarrow> q \<noteq> [] \<Longrightarrow> \<exists>w. f x st' p = Blocked w" using replay_at_used [OF f] by blast
  have "\<exists>w. andThen m f st p = Blocked w" if "u1 @ u2 = p @ q" "q \<noteq> []" for p q
    using that(1) [symmetric]
  proof (cases rule: append_split_cases)
    case (within q')
    with u1(3) [of p q'] show ?thesis by (auto simp: andThen_Blocked)
  next
    case (past p')
    with u1(2) u2(3) [of p' q] that(2) show ?thesis by (auto simp: andThen_Blocked)
  qed
  with u1 u2 show ?thesis by (intro exI [of _ "u1 @ u2"]) (auto simp: andThen_Result)
qed

lemma andThen_waits:
  assumes m: "replay_at m st (p @ q)" and f: "\<And>x st' r. m st (p @ q) = Result x st' r \<Longrightarrow> replay_at (f x) st' r"
    and blocked: "andThen m f st (p @ q) = Blocked w"
  shows "\<exists>w'. andThen m f st p = Blocked w'"
  using blocked unfolding andThen_Blocked
proof (elim disjE exE conjE)
  assume "m st (p @ q) = Blocked w"
  with replay_at_waits [OF m] show "\<exists>w'. m st p = Blocked w' \<or> (\<exists>x st' r. m st p = Result x st' r \<and> f x st' r = Blocked w')"
    by auto
next
  fix x st' r
  assume r: "m st (p @ q) = Result x st' r" "f x st' r = Blocked w"
  obtain u where u: "p @ q = u @ r" "\<And>v. m st (u @ v) = Result x st' v"
    "\<And>p q. u = p @ q \<Longrightarrow> q \<noteq> [] \<Longrightarrow> \<exists>w. m st p = Blocked w" using replay_at_used [OF m r(1)] by blast
  from u(1) show "\<exists>w'. m st p = Blocked w' \<or> (\<exists>x st' r. m st p = Result x st' r \<and> f x st' r = Blocked w')"
  proof (cases rule: append_split_cases)
    case (within q')
    with u(3) [of p q'] show ?thesis by auto
  next
    case (past p')
    with r f [OF r(1)] replay_at_waits [of "f x" st' p' q w] u(2) show ?thesis by auto
  qed
qed

lemma andThen_refuses:
  assumes m: "replay_at m st es" and f: "\<And>x st' r. m st es = Result x st' r \<Longrightarrow> replay_at (f x) st' r"
    and "andThen m f st es = Blocked w" and "\<not> possible w e"
  shows "andThen m f st (es @ e # q) = Impossible"
  using assms(3) unfolding andThen_Blocked
proof (elim disjE exE conjE)
  assume "m st es = Blocked w"
  with replay_at_refuses [OF m] assms(4) show ?thesis by (auto simp: andThen_Impossible)
next
  fix x st' r
  assume r: "m st es = Result x st' r" "f x st' r = Blocked w"
  obtain u where u: "es = u @ r" "\<And>v. m st (u @ v) = Result x st' v"
    using replay_at_used [OF m r(1)] by blast
  from replay_at_refuses [OF f [OF r(1)] r(2) assms(4)] u show ?thesis by (auto simp: andThen_Impossible)
qed

lemma replay_at_andThen:
  assumes m: "replay_at m st es" and f: "\<And>x st' r. m st es = Result x st' r \<Longrightarrow> replay_at (f x) st' r"
  shows "replay_at (andThen m f) st es"
  unfolding replay_at_def
proof (intro conjI allI impI)
  fix y st'' rest
  assume "andThen m f st es = Result y st'' rest"
  then show "\<exists>u. es = u @ rest \<and> (\<forall>v. andThen m f st (u @ v) = Result y st'' v) \<and>
      (\<forall>p q. u = p @ q \<longrightarrow> q \<noteq> [] \<longrightarrow> (\<exists>w. andThen m f st p = Blocked w))"
    using andThen_uses [OF m _ f] by (auto simp: andThen_Result)
next
  show "\<exists>w'. andThen m f st p = Blocked w'" if "andThen m f st es = Blocked w" "es = p @ q" for w p q
    using andThen_waits [of m st p q f w] m f that by auto
  show "andThen m f st (es @ e # q) = Impossible" if "andThen m f st es = Blocked w" "\<not> possible w e" for w e q
    using andThen_refuses [OF m f that] .
qed

lemma replayable_andThen [intro]:
  assumes "replayable m" and "\<And>x. replayable (f x)"
  shows "replayable (andThen m f)"
proof
  fix st es
  show "replay_at (andThen m f) st es"
    by (rule replay_at_andThen) (rule replayable.reads, rule assms)+
qed

lemma await_first_uses:
  assumes "andThen (await w) f st es = Result r st' rest" and "\<And>e. replayable (f e)"
  shows "length rest < length es"
proof -
  obtain e es' where "es = e # es'" "f e st es' = Result r st' rest"
    using assms(1) by (auto simp: andThen_Result await_def split: list.splits if_splits)
  with replayable.rest_suffix [OF assms(2), of e st es' r st' rest] show ?thesis by auto
qed

text \<open>
  A loop that goes round while its body says \<open>None\<close>, and whose body always uses an event, reads
  its events one at a time if its body does.
\<close>

definition goes_round :: "('a option, 's) action \<Rightarrow> ('a, 's) action \<Rightarrow> bool" where
  "goes_round body loop \<longleftrightarrow>
     loop = andThen body (\<lambda>r. case r of Some x \<Rightarrow> return x | None \<Rightarrow> loop) \<and>
     (\<forall>st es x st' rest. body st es = Result x st' rest \<longrightarrow> length rest < length es)"

lemma replayable_loop:
  assumes "goes_round body loop" and "replayable body"
  shows "replayable loop"
proof
  fix st es
  show "replay_at loop st es"
  proof (induction "length es" arbitrary: st es rule: less_induct)
    case less
    have "replay_at (andThen body (\<lambda>r. case r of Some x \<Rightarrow> return x | None \<Rightarrow> loop)) st es"
    proof (rule replay_at_andThen)
      show "replay_at body st es" by (rule replayable.reads [OF assms(2)])
      fix r st' rest
      assume "body st es = Result r st' rest"
      then have "length rest < length es" using assms(1) by (auto simp: goes_round_def)
      with less show "replay_at (case r of Some x \<Rightarrow> return x | None \<Rightarrow> loop) st' rest"
        using replayable.reads [OF replayable_return] by (auto split: option.splits)
    qed
    then show ?case using assms(1) by (metis goes_round_def)
  qed
qed

lemma loop_last_turn:
  assumes "goes_round body loop" and "replayable body" and "loop st es = Result x st' rest"
  shows "\<exists>before st1 es1. es = before @ es1 \<and> body st1 es1 = Result (Some x) st' rest"
  using assms(3)
proof (induction "length es" arbitrary: st es rule: less_induct)
  case less
  from less.prems assms(1) have "andThen body (\<lambda>r. case r of Some x \<Rightarrow> return x | None \<Rightarrow> loop) st es = Result x st' rest"
    by (metis goes_round_def)
  then obtain r st1 es1 where b: "body st es = Result r st1 es1"
    and l: "(case r of Some x \<Rightarrow> return x | None \<Rightarrow> loop) st1 es1 = Result x st' rest" by (auto simp: andThen_Result)
  show ?case
  proof (cases r)
    case None
    have "length es1 < length es" using assms(1) b by (auto simp: goes_round_def)
    moreover have "loop st1 es1 = Result x st' rest" using l None by simp
    ultimately obtain before st2 es2 where "es1 = before @ es2" "body st2 es2 = Result (Some x) st' rest"
      using less.hyps by blast
    moreover obtain u where "es = u @ es1" using replayable.rest_suffix [OF assms(2) b] by blast
    ultimately have "es = (u @ before) @ es2" by simp
    with \<open>body st2 es2 = Result (Some x) st' rest\<close> show ?thesis by blast
  next
    case (Some y)
    with b l have "es = [] @ es \<and> body st es = Result (Some x) st' rest" by (simp add: return_def)
    then show ?thesis by blast
  qed
qed

lemma replayable_cases [intro]:
  "replayable m1 \<Longrightarrow> replayable m2 \<Longrightarrow> replayable (if b then m1 else m2)"
  "(\<And>x. replayable (f x)) \<Longrightarrow> (\<And>y. replayable (g y)) \<Longrightarrow> replayable (case s of Inl x \<Rightarrow> f x | Inr y \<Rightarrow> g y)"
  "replayable m0 \<Longrightarrow> (\<And>x. replayable (h x)) \<Longrightarrow> replayable (case v of None \<Rightarrow> m0 | Some x \<Rightarrow> h x)"
  by (simp_all split: sum.splits option.splits)

lemma replayable_next_id [intro]: "replayable next_id"
  by unfold_locales (auto simp: next_id_def Let_def replay_at_def)

lemma replayable_transport [intro]:
  "replayable (roundTrip cx body)" "replayable (CallForInto cx lib method dec)" "replayable (roundTrip_Sign pub msg)"
proof -
  show t: "replayable (roundTrip cx body)" for cx body
    unfolding roundTrip_def Let_def
    by (intro replayable_andThen replayable_cases replayable_await replayable_return) (auto split: event.splits)
  show "replayable (CallForInto cx lib method dec)"
    unfolding CallForInto_def
    by (intro replayable_andThen replayable_cases replayable_next_id replayable_return t)
  show "replayable (roundTrip_Sign pub msg)"
    unfolding roundTrip_Sign_def Let_def
    by (intro replayable_andThen replayable_await) (auto split: event.splits)
qed

section \<open>What an action asks for\<close>

text \<open>
  \<open>asks P m\<close>: every point where \<open>m\<close> can wait satisfies \<open>P\<close>. \<open>signs_once m\<close>: no run of \<open>m\<close> hands out
  two requests for a signature.
\<close>

definition asks :: "(wait \<Rightarrow> bool) \<Rightarrow> ('a, 's) action \<Rightarrow> bool" where
  "asks P m \<longleftrightarrow> (\<forall>st es w. m st es = Blocked w \<longrightarrow> P w)"

definition sign_wait :: "wait \<Rightarrow> bool" where
  "sign_wait w \<longleftrightarrow> (\<exists>r ctx. w = WaitSend (SignCall r) ctx)"

abbreviation no_sign :: "('a, 's) action \<Rightarrow> bool" where
  "no_sign \<equiv> asks (\<lambda>w. \<not> sign_wait w)"

definition signs_once :: "('a, 's) action \<Rightarrow> bool" where
  "signs_once m \<longleftrightarrow>
     (\<forall>st p q w w'. m st p = Blocked w \<longrightarrow> sign_wait w \<longrightarrow> m st (p @ q) = Blocked w' \<longrightarrow> sign_wait w' \<longrightarrow> q = [])"

lemma asks_return [intro, simp]: "asks P (return x)"
  by (simp add: asks_def return_def)

lemma asks_await [simp]: "asks P (await w) \<longleftrightarrow> P w"
  by (auto simp: asks_def await_def split: list.splits if_splits)

lemma asks_andThen [intro]: "asks P m \<Longrightarrow> (\<And>x. asks P (f x)) \<Longrightarrow> asks P (andThen m f)"
  by (auto simp: asks_def andThen_Blocked)

lemma asks_cases [intro]:
  "asks P m1 \<Longrightarrow> asks P m2 \<Longrightarrow> asks P (if b then m1 else m2)"
  "(\<And>x. asks P (f x)) \<Longrightarrow> (\<And>y. asks P (g y)) \<Longrightarrow> asks P (case s of Inl x \<Rightarrow> f x | Inr y \<Rightarrow> g y)"
  "asks P m0 \<Longrightarrow> (\<And>x. asks P (h x)) \<Longrightarrow> asks P (case v of None \<Rightarrow> m0 | Some x \<Rightarrow> h x)"
  by (simp_all split: sum.splits option.splits)

lemma asks_loop:
  assumes "goes_round body loop" and "asks P body"
  shows "asks P loop"
proof -
  have "P w" if "loop st es = Blocked w" for st es w
    using that
  proof (induction "length es" arbitrary: st es rule: less_induct)
    case less
    from less.prems assms(1) have "andThen body (\<lambda>r. case r of Some x \<Rightarrow> return x | None \<Rightarrow> loop) st es = Blocked w"
      by (metis goes_round_def)
    then consider "body st es = Blocked w"
      | x st' rest where "body st es = Result x st' rest" "(case x of Some x \<Rightarrow> return x | None \<Rightarrow> loop) st' rest = Blocked w"
      by (auto simp: andThen_Blocked)
    then show ?case
    proof cases
      case 1
      with assms(2) show ?thesis by (simp add: asks_def)
    next
      case 2
      then have "length rest < length es" using assms(1) by (auto simp: goes_round_def)
      with less 2(2) show ?thesis by (auto simp: return_def split: option.splits)
    qed
  qed
  then show ?thesis by (simp add: asks_def)
qed

lemma fetches_do_not_sign [simp]:
  "\<not> sign_wait (WaitSend (FetchCall f) c)" "\<not> sign_wait (WaitReply x c)" "\<not> sign_wait WaitTick"
  "sign_wait (WaitSend (SignCall r) c)"
  by (simp_all add: sign_wait_def)

lemma direct_calls_silent: "asks P CallWithCallback" "asks P CallBatch"
  by (simp_all add: CallWithCallback_def CallBatch_def)

lemma transport_no_sign [intro]: "no_sign (roundTrip cx body)" "no_sign (CallForInto cx lib method dec)"
proof -
  show t: "no_sign (roundTrip cx body)" for cx body
    unfolding roundTrip_def Let_def
    by (intro asks_andThen asks_cases) (auto split: event.splits)
  have "no_sign next_id" by (simp add: asks_def next_id_def Let_def)
  then show "no_sign (CallForInto cx lib method dec)"
    unfolding CallForInto_def by (intro asks_andThen asks_cases asks_return t)
qed

lemma no_sign_once [intro]: "no_sign m \<Longrightarrow> signs_once m"
  by (auto simp: asks_def signs_once_def)

lemma signs_once_late [intro]:
  assumes "replayable m" and "no_sign m" and "\<And>x. signs_once (f x)"
  shows "signs_once (andThen m f)"
  unfolding signs_once_def
proof (intro allI impI)
  fix st p q w w'
  assume 1: "andThen m f st p = Blocked w" "sign_wait w" and 2: "andThen m f st (p @ q) = Blocked w'" "sign_wait w'"
  from 1 assms(2) obtain x st' r where m: "m st p = Result x st' r" "f x st' r = Blocked w"
    by (auto simp: andThen_Blocked asks_def)
  with 2(1) replayable.more_events [OF assms(1) m(1), of q] have "f x st' (r @ q) = Blocked w'"
    by (auto simp: andThen_Blocked)
  with m(2) 1(2) 2(2) assms(3) [of x] show "q = []" by (auto simp: signs_once_def)
qed

lemma signs_once_early [intro]:
  assumes "signs_once m" and "\<And>x. no_sign (f x)"
  shows "signs_once (andThen m f)"
  using assms unfolding signs_once_def asks_def by (auto simp: andThen_Blocked)

lemma signs_once_cases [intro]:
  "signs_once m1 \<Longrightarrow> signs_once m2 \<Longrightarrow> signs_once (if b then m1 else m2)"
  "(\<And>x. signs_once (f x)) \<Longrightarrow> (\<And>y. signs_once (g y)) \<Longrightarrow> signs_once (case s of Inl x \<Rightarrow> f x | Inr y \<Rightarrow> g y)"
  "signs_once m0 \<Longrightarrow> (\<And>x. signs_once (h x)) \<Longrightarrow> signs_once (case v of None \<Rightarrow> m0 | Some x \<Rightarrow> h x)"
  by (simp_all split: sum.splits option.splits)

lemma roundTrip_Sign_once [intro]: "signs_once (roundTrip_Sign pub msg)"
proof -
  have "signs_once (await (WaitSend c NoCtx))" for c :: HostCall
    by (auto simp: signs_once_def await_def split: list.splits if_splits)
  then show ?thesis
    unfolding roundTrip_Sign_def Let_def
    by (intro signs_once_early asks_andThen) (auto split: event.splits)
qed

text \<open>
  The bytes the transport hands out: the library's encoding of one of the six methods, under
  a request id that fits into 31 bits.
\<close>

definition rpc_wait :: "rpc_lib \<Rightarrow> wait \<Rightarrow> bool" where
  "rpc_wait lib w \<longleftrightarrow>
     (\<forall>f ctx. w = WaitSend (FetchCall f) ctx \<longrightarrow> (\<exists>i method. i < 2 ^ 31 \<and> rpc_request lib i method = Inr (fr_Body f)))"

lemma rpc_wait_simps [simp]:
  "rpc_wait lib (WaitSend (SignCall r) c)" "rpc_wait lib (WaitReply x c)" "rpc_wait lib WaitTick"
  by (simp_all add: rpc_wait_def)

lemma next_id_bound: "next_id st es = Result i st' rest \<Longrightarrow> i < 2 ^ 31"
proof -
  have mask: "n AND 0x7fffffff = take_bit 31 n" for n :: u64
    by (simp add: take_bit_eq_mask mask_eq_exp_minus_1)
  have "unat (take_bit 31 n) < 2 ^ 31" for n :: u64
    using take_bit_nat_less_exp [of 31 "unat n"] by (simp add: unsigned_take_bit_eq)
  then show "next_id st es = Result i st' rest \<Longrightarrow> i < 2 ^ 31"
    by (auto simp: next_id_def Let_def mask)
qed

lemma transport_rpc [intro]: "asks (rpc_wait lib) (CallForInto cx lib method dec)"
proof -
  have t: "asks (rpc_wait lib) (roundTrip cx body)" if "rpc_request lib i method = Inr body" "i < 2 ^ 31" for i body
    unfolding roundTrip_def Let_def using that
    by (intro asks_andThen asks_cases) (auto simp: rpc_wait_def split: event.splits)
  then have "asks (rpc_wait lib) (case rpc_request lib i method of
      Inl err \<Rightarrow> return (Inl (MarshalErr err))
    | Inr body \<Rightarrow> andThen (roundTrip cx body) (\<lambda>res. return (decode_response lib dec res)))" if "i < 2 ^ 31" for i
    using that by (auto split: sum.splits)
  moreover have "asks (rpc_wait lib) next_id" by (simp add: asks_def next_id_def Let_def)
  ultimately show ?thesis
    unfolding CallForInto_def asks_def andThen_Blocked using next_id_bound by blast
qed

lemma sign_rpc [intro]: "asks (rpc_wait lib) (roundTrip_Sign pub msg)"
  unfolding roundTrip_Sign_def Let_def by (intro asks_andThen) (auto split: event.splits)

section \<open>The order of events\<close>

text \<open>
  What an engine owes its driver: it accepts every event that is possible where it waits, it
  waits for the answer to a call right after the call was taken, and at no other time.
\<close>

definition awaits_reply :: "wait \<Rightarrow> bool" where
  "awaits_reply w \<longleftrightarrow> (\<exists>c b. w = WaitReply c b)"

definition follows :: "wait \<Rightarrow> event \<Rightarrow> ('a, 's) outcome \<Rightarrow> bool" where
  "follows w e out \<longleftrightarrow>
     (if e = Taken then \<exists>c b. w = WaitSend c b \<and> out = Blocked (WaitReply c b)
      else out \<noteq> Impossible \<and> (\<forall>w'. out = Blocked w' \<longrightarrow> \<not> awaits_reply w'))"

definition protocol :: "('a, 's) action \<Rightarrow> bool" where
  "protocol m \<longleftrightarrow>
     (\<forall>st. m st [] \<noteq> Impossible \<and> (\<forall>w. m st [] = Blocked w \<longrightarrow> \<not> awaits_reply w)) \<and>
     (\<forall>st es w e. m st es = Blocked w \<longrightarrow> possible w e \<longrightarrow> follows w e (m st (es @ [e])))"

lemma awaits_reply_simps [simp]:
  "\<not> awaits_reply (WaitSend c b)" "awaits_reply (WaitReply c b)" "\<not> awaits_reply WaitTick"
  by (simp_all add: awaits_reply_def)

lemma possible_simps [simp]:
  "possible (WaitSend c b) e \<longleftrightarrow> e = Taken \<or> b \<noteq> NoCtx \<and> e = CtxDone"
  "possible (WaitReply c b) e \<longleftrightarrow> (\<exists>r. e = Reply r) \<or> b \<noteq> NoCtx \<and> e = CtxDone"
  "possible WaitTick e \<longleftrightarrow> e = Tick \<or> e = CtxDone"
  by (auto simp: possible_def)

lemma protocolI:
  assumes "\<And>st. m st [] \<noteq> Impossible" "\<And>st w. m st [] = Blocked w \<Longrightarrow> \<not> awaits_reply w"
    and "\<And>st es w e. m st es = Blocked w \<Longrightarrow> possible w e \<Longrightarrow> follows w e (m st (es @ [e]))"
  shows "protocol m"
  using assms by (auto simp: protocol_def)

lemma protocol_start:
  assumes "protocol m"
  shows "m st [] \<noteq> Impossible" "m st [] = Blocked w \<Longrightarrow> \<not> awaits_reply w"
  using assms by (auto simp: protocol_def)

lemma protocol_step: "protocol m \<Longrightarrow> m st es = Blocked w \<Longrightarrow> possible w e \<Longrightarrow> follows w e (m st (es @ [e]))"
  by (auto simp: protocol_def)

lemma result_uses_all:
  assumes "replayable m" and "m st es = Blocked w" and "m st (es @ [e]) = Result x st' r"
  shows "r = []"
proof (rule ccontr)
  assume "r \<noteq> []"
  obtain u where u: "es @ [e] = u @ r" "\<And>v. m st (u @ v) = Result x st' v"
    "\<And>p q. u = p @ q \<Longrightarrow> q \<noteq> [] \<Longrightarrow> \<exists>w. m st p = Blocked w"
    using replay_at_used [OF replayable.reads [OF assms(1)] assms(3)] by blast
  with \<open>r \<noteq> []\<close> obtain v where "es = u @ v" by (cases r rule: rev_cases) auto
  with u(2) assms(2) show False by simp
qed

lemma protocol_simple [intro]: "protocol (return x)" "protocol next_id" "protocol (await WaitTick)"
  by (rule protocolI; auto simp: return_def next_id_def Let_def await_def follows_def split: list.splits if_splits)+

lemma protocol_andThen [intro]:
  assumes m: "protocol m" "replayable m" and f: "\<And>x. protocol (f x)"
  shows "protocol (andThen m f)"
proof (rule protocolI)
  fix st
  show "andThen m f st [] \<noteq> Impossible"
    using protocol_start(1) [OF m(1), of st] protocol_start(1) [OF f] replayable.rest_suffix [OF m(2), of st "[]"]
    by (auto simp: andThen_def split: outcome.splits)
next
  fix st w
  assume "andThen m f st [] = Blocked w"
  then show "\<not> awaits_reply w"
    using protocol_start(2) [OF m(1), of st w] protocol_start(2) [OF f] replayable.rest_suffix [OF m(2), of st "[]"]
    by (fastforce simp: andThen_Blocked)
next
  fix st es w e
  assume "andThen m f st es = Blocked w" and p: "possible w e"
  then consider "m st es = Blocked w" | x st' r where "m st es = Result x st' r" "f x st' r = Blocked w"
    by (auto simp: andThen_Blocked)
  then show "follows w e (andThen m f st (es @ [e]))"
  proof cases
    case 1
    note step = protocol_step [OF m(1) 1 p]
    show ?thesis
    proof (cases "m st (es @ [e])")
      case (Result x st' r)
      with result_uses_all [OF m(2) 1] have "r = []" by blast
      with Result step protocol_start [OF f, of x st'] show ?thesis
        by (auto simp: follows_def andThen_def split: if_splits)
    qed (use step in \<open>auto simp: follows_def andThen_def split: if_splits\<close>)
  next
    case 2
    with replayable.more_events [OF m(2) 2(1), of "[e]"] protocol_step [OF f 2(2) p] show ?thesis
      by (simp add: andThen_def)
  qed
qed

lemma protocol_cases [intro]:
  "protocol m1 \<Longrightarrow> protocol m2 \<Longrightarrow> protocol (if b then m1 else m2)"
  "(\<And>x. protocol (f x)) \<Longrightarrow> (\<And>y. protocol (g y)) \<Longrightarrow> protocol (case s of Inl x \<Rightarrow> f x | Inr y \<Rightarrow> g y)"
  "protocol m0 \<Longrightarrow> (\<And>x. protocol (h x)) \<Longrightarrow> protocol (case v of None \<Rightarrow> m0 | Some x \<Rightarrow> h x)"
  by (simp_all split: sum.splits option.splits)

lemma protocol_calls [intro]:
  "protocol (roundTrip cx body)" "protocol (roundTrip_Sign pub msg)" "protocol (CallForInto cx lib method dec)"
proof -
  show t: "protocol (roundTrip cx body)" for cx body
  proof (rule protocolI)
    fix st es w e
    assume "roundTrip cx body st es = Blocked w" "possible w e"
    then show "follows w e (roundTrip cx body st (es @ [e]))"
      by (cases es; cases "tl es")
        (auto simp: roundTrip_def Let_def andThen_def await_def return_def follows_def split: if_splits event.splits)
  qed (auto simp: roundTrip_def Let_def andThen_def await_def)
  show "protocol (roundTrip_Sign pub msg)"
  proof (rule protocolI)
    fix st es w e
    assume "roundTrip_Sign pub msg st es = Blocked w" "possible w e"
    then show "follows w e (roundTrip_Sign pub msg st (es @ [e]))"
      by (cases es; cases "tl es")
        (auto simp: roundTrip_Sign_def Let_def andThen_def await_def return_def follows_def split: if_splits event.splits)
  qed (auto simp: roundTrip_Sign_def Let_def andThen_def await_def)
  show "protocol (CallForInto cx lib method dec)"
    unfolding CallForInto_def
    by (intro protocol_andThen protocol_cases protocol_simple replayable_transport replayable_next_id t)
qed

lemma protocol_loop:
  assumes loop: "goes_round body loop" and body: "protocol body" "replayable body"
  shows "protocol loop"
proof -
  let ?k = "\<lambda>r. case r of Some x \<Rightarrow> return x | None \<Rightarrow> loop"
  have unroll: "loop st es = andThen body ?k st es" for st es using loop by (metis goes_round_def)
  have uses: "body st es = Result x st' rest \<Longrightarrow> length rest < length es" for st es x st' rest
    using loop by (auto simp: goes_round_def)
  have start: "body st [] \<noteq> Result x st' r" for st x st' r using uses [of st "[]"] by auto
  have first: "loop st [] \<noteq> Impossible" "loop st [] = Blocked w \<Longrightarrow> \<not> awaits_reply w" for st w
    using start [of st] protocol_start [OF body(1), of st]
    by (auto simp: unroll [of st "[]"] andThen_def split: outcome.splits)
  have "follows w e (loop st (es @ [e]))" if "loop st es = Blocked w" "possible w e" for st es w e
    using that(1)
  proof (induction "length es" arbitrary: st es rule: less_induct)
    case less
    then consider "body st es = Blocked w" | x st' r where "body st es = Result x st' r" "?k x st' r = Blocked w"
      by (auto simp: unroll [of st es] andThen_Blocked)
    then show ?case
    proof cases
      case 1
      note step = protocol_step [OF body(1) 1 that(2)]
      show ?thesis
      proof (cases "body st (es @ [e])")
        case (Result x st' r)
        with result_uses_all [OF body(2) 1] have "r = []" by blast
        with Result step first [of st'] show ?thesis
          by (auto simp: unroll [of st "es @ [e]"] follows_def andThen_def return_def split: if_splits option.splits)
      qed (use step in \<open>auto simp: unroll [of st "es @ [e]"] follows_def andThen_def split: if_splits\<close>)
    next
      case 2
      then have "loop st' r = Blocked w" "x = None" by (auto simp: return_def split: option.splits)
      with less.hyps [OF uses [OF 2(1)]] replayable.more_events [OF body(2) 2(1), of "[e]"] show ?thesis
        by (simp add: unroll [of st "es @ [e]"] andThen_def)
    qed
  qed
  with first show ?thesis by (intro protocolI)
qed

text \<open>
  An engine that does not sleep twice: when the wait between two polls is over, the next thing
  it does is a call.
\<close>

definition calls_after_tick :: "('a, 's) action \<Rightarrow> bool" where
  "calls_after_tick m \<longleftrightarrow>
     (\<forall>st es. m st es = Blocked WaitTick \<longrightarrow> (\<exists>c b. m st (es @ [Tick]) = Blocked (WaitSend c b)))"

abbreviation no_tick :: "('a, 's) action \<Rightarrow> bool" where
  "no_tick \<equiv> asks (\<lambda>w. w \<noteq> WaitTick)"

lemma no_tick_calls [intro]: "no_tick m \<Longrightarrow> calls_after_tick m"
  unfolding asks_def calls_after_tick_def by blast

lemma calls_after_tick_andThen [intro]:
  assumes "replayable m" and "calls_after_tick m" and "\<And>x. calls_after_tick (f x)"
  shows "calls_after_tick (andThen m f)"
  unfolding calls_after_tick_def
proof (intro allI impI)
  fix st es
  assume "andThen m f st es = Blocked WaitTick"
  then consider "m st es = Blocked WaitTick" | x st' r where "m st es = Result x st' r" "f x st' r = Blocked WaitTick"
    by (auto simp: andThen_Blocked)
  then show "\<exists>c b. andThen m f st (es @ [Tick]) = Blocked (WaitSend c b)"
  proof cases
    case 1
    with assms(2) obtain c b where "m st (es @ [Tick]) = Blocked (WaitSend c b)"
      unfolding calls_after_tick_def by blast
    then show ?thesis by (auto simp: andThen_Blocked)
  next
    case 2
    with assms(3) [of x] replayable.more_events [OF assms(1) 2(1), of "[Tick]"] show ?thesis
      by (auto simp: calls_after_tick_def andThen_Blocked)
  qed
qed

lemma calls_after_tick_cases [intro]:
  "calls_after_tick m1 \<Longrightarrow> calls_after_tick m2 \<Longrightarrow> calls_after_tick (if b then m1 else m2)"
  "(\<And>x. calls_after_tick (f x)) \<Longrightarrow> (\<And>y. calls_after_tick (g y)) \<Longrightarrow>
     calls_after_tick (case s of Inl x \<Rightarrow> f x | Inr y \<Rightarrow> g y)"
  "calls_after_tick m0 \<Longrightarrow> (\<And>x. calls_after_tick (h x)) \<Longrightarrow> calls_after_tick (case v of None \<Rightarrow> m0 | Some x \<Rightarrow> h x)"
  by (simp_all split: sum.splits option.splits)

lemma calls_after_tick_await:
  assumes "\<And>e. no_tick (f e)" and "\<And>st. \<exists>c b. f Tick st [] = Blocked (WaitSend c b)"
  shows "calls_after_tick (andThen (await WaitTick) f)"
  unfolding calls_after_tick_def
proof (intro allI impI)
  fix st es
  assume w: "andThen (await WaitTick) f st es = Blocked WaitTick"
  have "es = []"
  proof (cases es)
    case (Cons e es')
    with w assms(1) [of e] show ?thesis by (auto simp: andThen_def await_def asks_def split: if_splits)
  qed
  with assms(2) [of st] show "\<exists>c b. andThen (await WaitTick) f st (es @ [Tick]) = Blocked (WaitSend c b)"
    by (simp add: andThen_def await_def)
qed

lemma calls_after_tick_loop:
  assumes loop: "goes_round body loop" and body: "calls_after_tick body" "replayable body"
  shows "calls_after_tick loop"
proof -
  have unroll: "loop st es = andThen body (\<lambda>r. case r of Some x \<Rightarrow> return x | None \<Rightarrow> loop) st es" for st es
    using loop by (metis goes_round_def)
  have "\<exists>c b. loop st (es @ [Tick]) = Blocked (WaitSend c b)" if "loop st es = Blocked WaitTick" for st es
    using that
  proof (induction "length es" arbitrary: st es rule: less_induct)
    case less
    then consider "body st es = Blocked WaitTick"
      | x st' r where "body st es = Result x st' r" "(case x of Some x \<Rightarrow> return x | None \<Rightarrow> loop) st' r = Blocked WaitTick"
      by (auto simp: unroll [of st es] andThen_Blocked)
    then show ?case
    proof cases
      case 1
      with body(1) obtain c b where "body st (es @ [Tick]) = Blocked (WaitSend c b)"
        unfolding calls_after_tick_def by blast
      then show ?thesis by (auto simp: unroll [of st "es @ [Tick]"] andThen_Blocked)
    next
      case 2
      moreover from this have "loop st' r = Blocked WaitTick" "x = None" by (auto simp: return_def split: option.splits)
      moreover have "length r < length es" using loop 2(1) by (auto simp: goes_round_def)
      ultimately show ?thesis
        using less.hyps [of r st'] replayable.more_events [OF body(2) 2(1), of "[Tick]"]
        by (auto simp: unroll [of st "es @ [Tick]"] andThen_Blocked)
    qed
  qed
  then show ?thesis by (simp add: calls_after_tick_def)
qed

lemma transport_no_tick [intro]: "no_tick (CallForInto cx lib method dec)" "no_tick (roundTrip_Sign pub msg)"
proof -
  have t: "no_tick (roundTrip cx body)" for cx body
    unfolding roundTrip_def Let_def by (intro asks_andThen asks_cases) (auto split: event.splits)
  have "no_tick next_id" by (simp add: asks_def next_id_def Let_def)
  then show "no_tick (CallForInto cx lib method dec)"
    unfolding CallForInto_def by (intro asks_andThen asks_cases asks_return t)
  show "no_tick (roundTrip_Sign pub msg)"
    unfolding roundTrip_Sign_def Let_def by (intro asks_andThen) (auto split: event.splits)
qed

text \<open>A library whose requests can always be encoded; then a call starts by handing one out.\<close>

definition encodes :: "rpc_lib \<Rightarrow> bool" where
  "encodes lib \<longleftrightarrow> (\<forall>i method. \<exists>body. rpc_request lib i method = Inr body)"

lemma call_hands_out:
  assumes "encodes lib"
  shows "\<exists>c b. CallForInto cx lib method dec st [] = Blocked (WaitSend c b)"
proof -
  obtain body where "rpc_request lib (unat ((rpc_id st + 1) AND 0x7fffffff)) method = Inr body"
    using assms unfolding encodes_def by blast
  then show ?thesis
    by (auto simp: CallForInto_def andThen_def next_id_def Let_def roundTrip_def await_def)
qed

end
