(* ===== verification/Token_Network.thy ===== *)
theory Token_Network
  imports Go_Strings
begin

text \<open>
  Networks and metadata addresses (\<open>src/token/network.go\<close>): which clusters hold real value,
  how a cluster is recognised by its genesis hash, and which metadata URIs name their content
  by hash. A \<open>Network\<close> is a string, as in the code; \<open>url.Parse\<close> and the conversion of a whole
  Unicode string to lower case are fields of \<open>url_lib\<close>.
\<close>

type_synonym Network = string

definition Mainnet :: Network where "Mainnet = ''mainnet''"

definition Devnet :: Network where "Devnet = ''devnet''"

definition Testnet :: Network where "Testnet = ''testnet''"

definition Localnet :: Network where "Localnet = ''localnet''"

lemmas network_defs = Mainnet_def Devnet_def Testnet_def Localnet_def

record url_lib =
  str_ToLower :: "string \<Rightarrow> string"
  url_Parse :: "string \<Rightarrow> (string \<times> string) option"

text \<open>\<open>url_Parse\<close> gives the host and the path of the URL.\<close>

definition ContentAddressed :: "url_lib \<Rightarrow> string \<Rightarrow> bool" where
  "ContentAddressed lib uri =
     (let u = str_ToLower lib (TrimSpace uri) in
      if HasPrefix u ''ipfs://'' \<or> HasPrefix u ''ar://'' then True
      else
        (case url_Parse lib u of
           None \<Rightarrow> False
         | Some (host, path) \<Rightarrow>
             if host = [] then False
             else if Contains path ''/ipfs/'' then True
             else HasSuffix host ''arweave.net''))"

definition Live :: "Network \<Rightarrow> bool" where
  "Live n = (if n = Devnet \<or> n = Testnet \<or> n = Localnet then False else True)"

definition mainnetGenesis :: string where
  "mainnetGenesis = ''5eykt4UsFv8P8NJdTREpY1vzqKqZKvdpKuc147dw2N9d''"

definition devnetGenesis :: string where
  "devnetGenesis = ''EtWTRABZaYq6iMfeYKouRu166VU2xqa1wcaWoxPkrZBG''"

definition testnetGenesis :: string where
  "testnetGenesis = ''4uhcVJyU9pJkvQyS88uRDiswHXSCkY3zQawwpjk2NsNY''"

definition ClassifyGenesis :: "string \<Rightarrow> Network" where
  "ClassifyGenesis hash =
     (let h = TrimSpace hash in
      if h = devnetGenesis then Devnet
      else if h = testnetGenesis then Testnet
      else if h = mainnetGenesis then Mainnet
      else Mainnet)"

section \<open>Properties\<close>

lemma Live_ClassifyGenesis: "Live (ClassifyGenesis h) \<longleftrightarrow> TrimSpace h \<notin> {devnetGenesis, testnetGenesis}"
  by (auto simp: ClassifyGenesis_def Let_def Live_def network_defs)

text \<open>
  Only a proven test cluster relaxes the custody rules. A genesis hash is classified as a
  network without real value exactly when, up to surrounding white space, it is the genesis
  hash of devnet or of testnet; every other answer of a node, the empty one included, counts
  as live, and so does every network name but the three test clusters.
\<close>

theorem only_test_clusters_relax:
  "(Live (ClassifyGenesis h) \<longleftrightarrow> TrimSpace h \<notin> {devnetGenesis, testnetGenesis}) \<and>
   (Live n \<longleftrightarrow> n \<notin> {''devnet'', ''testnet'', ''localnet''})"
  by (simp add: Live_ClassifyGenesis) (simp add: Live_def network_defs)

text \<open>
  A host that merely ends in the letters of the Arweave gateway counts as content
  addressed, so metadata served from such a host is not disclosed as mutable.
\<close>

theorem lookalike_gateway_is_trusted:
  assumes "url_Parse lib (str_ToLower lib (TrimSpace uri)) = Some (''evil-arweave.net'', path)"
  shows "ContentAddressed lib uri"
  using assms by (simp add: ContentAddressed_def HasSuffix_def Let_def)

theorem lookalike_gateway_is_trusted_witness:
  "ContentAddressed \<lparr>str_ToLower = (\<lambda>s. s), url_Parse = (\<lambda>s. Some (drop 8 s, []))\<rparr> ''https://evil-arweave.net''"
proof (rule lookalike_gateway_is_trusted [where path = "[]"])
  have "TrimSpace ''https://evil-arweave.net'' = ''https://evil-arweave.net''"
    by (simp add: TrimSpace_def trim_codes_def trim_with.simps space_prefix_def space_encodings_def char_of_def bit_0)
  then show "url_Parse \<lparr>str_ToLower = (\<lambda>s. s), url_Parse = (\<lambda>s. Some (drop 8 s, []))\<rparr>
      (str_ToLower \<lparr>str_ToLower = (\<lambda>s. s), url_Parse = (\<lambda>s. Some (drop 8 s, []))\<rparr> (TrimSpace ''https://evil-arweave.net'')) =
    Some (''evil-arweave.net'', [])"
    by simp
qed

end
