(* ===== verification/Token_Engine.thy ===== *)
theory Token_Engine
  imports Host_Runs Token_Network
begin

text \<open>
  The token engine (\<open>src/token/engine.go\<close>, \<open>src/token/atomic.go\<close>): reading a mint, building the
  one transaction of a mint, signing and submitting it, and watching it until it lands or can
  no longer land.

  The Solana client library is not part of the program; what the engine takes from it are the
  fields of \<open>sdk\<close>: the JSON-RPC codec, the decoding of each response, address derivation, the
  instruction builders, the compilation of a transaction, and signing with a local key.
\<close>

section \<open>The client library\<close>

record account_info =
  ai_Owner :: pubkey
  ai_Data :: bytes

datatype confirmation = Processed | Confirmed | Finalized | UnknownStatus

record sig_status =
  ss_Err :: bool
  ss_Confirmation :: confirmation

record mint_account =
  ma_Decimals :: byte
  ma_Supply :: u64
  ma_MintAuthority :: "pubkey option"
  ma_FreezeAuthority :: "pubkey option"
  ma_IsInitialized :: bool

record account_meta =
  am_Key :: pubkey
  am_Writable :: bool
  am_Signer :: bool

record sol_instruction =
  si_Program :: pubkey
  si_Accounts :: "account_meta list"
  si_Data :: bytes

record transaction =
  tx_Keys :: "pubkey list"
  tx_NumSigs :: nat
  tx_Message :: "string + bytes"

datatype authority_type = AuthorityMintTokens | AuthorityFreezeAccount

record sdk =
  sdk_rpc :: rpc_lib
  dec_blockhash :: "rawMessage \<Rightarrow> rpc_error + (bytes \<times> u64) option"
  dec_height :: "rawMessage \<Rightarrow> rpc_error + u64"
  dec_send :: "rawMessage \<Rightarrow> rpc_error + unit"
  dec_statuses :: "rawMessage \<Rightarrow> rpc_error + sig_status option list option"
  dec_account :: "rawMessage \<Rightarrow> rpc_error + account_info option"
  dec_genesis :: "rawMessage \<Rightarrow> rpc_error + string"
  decode_mint :: "bytes \<Rightarrow> string + mint_account"
  addr :: "string \<Rightarrow> pubkey"
  tokenProgramID :: pubkey
  systemProgramID :: pubkey
  FindProgramAddress :: "bytes list \<Rightarrow> pubkey \<Rightarrow> string + pubkey"
  FindAssociatedTokenAddress :: "pubkey \<Rightarrow> pubkey \<Rightarrow> string + pubkey"
  ix_CreateIdempotent :: "pubkey \<Rightarrow> pubkey \<Rightarrow> pubkey \<Rightarrow> string + sol_instruction"
  ix_MintTo :: "u64 \<Rightarrow> pubkey \<Rightarrow> pubkey \<Rightarrow> pubkey \<Rightarrow> string + sol_instruction"
  ix_RevokeAuthority :: "authority_type \<Rightarrow> pubkey \<Rightarrow> pubkey \<Rightarrow> string + sol_instruction"
  NewTransaction :: "sol_instruction list \<Rightarrow> bytes \<Rightarrow> pubkey \<Rightarrow> string + transaction"
  key_Sign :: "bytes \<Rightarrow> bytes \<Rightarrow> string + signature"
  url_of :: url_lib

section \<open>Reading the chain\<close>

definition mintAccountSize :: nat where "mintAccountSize = 82"

definition token2022ProgramID :: "sdk \<Rightarrow> pubkey" where
  "token2022ProgramID k = addr k ''TokenzQdBNbLqP5VEhdkAS6EPFLC1PHnBqCXEpPxuEb''"

definition metadataProgramID :: "sdk \<Rightarrow> pubkey" where
  "metadataProgramID k = addr k ''metaqbxxUerdq28cj1RbAWkYQm3ybzjb6a8bt518x1s''"

definition sysvarInstructions :: "sdk \<Rightarrow> pubkey" where
  "sysvarInstructions k = addr k ''Sysvar1nstructions1111111111111111111111111''"

record MintState =
  ms_Mint :: pubkey
  ms_Decimals :: byte
  ms_Supply :: u64
  ms_MintAuthority :: "pubkey option"
  ms_FreezeAuthority :: "pubkey option"

definition SupplyFixed :: "MintState \<Rightarrow> bool" where
  "SupplyFixed m \<longleftrightarrow> ms_MintAuthority m = None"

definition Freezable :: "MintState \<Rightarrow> bool" where
  "Freezable m \<longleftrightarrow> ms_FreezeAuthority m \<noteq> None"

datatype verify_error =
    FetchMintErr rpc_error
  | MintNotFound
  | ErrToken2022Mint
  | NotAnSPLMint
  | DecodeMintErr string
  | NotInitialized

text \<open>The judgement \<open>Verify\<close> makes of the account it fetched.\<close>

definition judge_mint :: "sdk \<Rightarrow> pubkey \<Rightarrow> rpc_error + account_info option \<Rightarrow> verify_error + MintState" where
  "judge_mint k mint info =
     (case info of
        Inl err \<Rightarrow> Inl (FetchMintErr err)
      | Inr None \<Rightarrow> Inl MintNotFound
      | Inr (Some a) \<Rightarrow>
          if ai_Owner a = token2022ProgramID k then Inl ErrToken2022Mint
          else if ai_Owner a \<noteq> tokenProgramID k \<or> length (ai_Data a) \<noteq> mintAccountSize then Inl NotAnSPLMint
          else
            (case decode_mint k (ai_Data a) of
               Inl err \<Rightarrow> Inl (DecodeMintErr err)
             | Inr m \<Rightarrow>
                 if \<not> ma_IsInitialized m then Inl NotInitialized
                 else Inr \<lparr>ms_Mint = mint, ms_Decimals = ma_Decimals m, ms_Supply = ma_Supply m,
                           ms_MintAuthority = ma_MintAuthority m, ms_FreezeAuthority = ma_FreezeAuthority m\<rparr>))"

definition Verify :: "go_ctx \<Rightarrow> sdk \<Rightarrow> pubkey \<Rightarrow> (verify_error + MintState) engine_action" where
  "Verify cx k mint =
     andThen (CallForInto cx (sdk_rpc k) (GetAccountInfo mint CommitmentFinalized) (dec_account k)) (\<lambda>info. return (judge_mint k mint info))"

text \<open>\<open>resolveNetwork\<close>; \<open>pinned\<close> is the engine's \<open>netPinned\<close>.\<close>

definition set_net :: "Network \<Rightarrow> unit engine_action" where
  "set_net n st es = Result () (st\<lparr>eng_net := n\<rparr>) es"

definition resolveNetwork :: "sdk \<Rightarrow> bool \<Rightarrow> unit engine_action" where
  "resolveNetwork k pinned =
     (if pinned then return ()
      else andThen (CallForInto SessionCtx (sdk_rpc k) GetGenesisHash (dec_genesis k)) (\<lambda>r.
        case r of
          Inl _ \<Rightarrow> set_net Mainnet
        | Inr h \<Rightarrow> set_net (ClassifyGenesis h)))"

section \<open>Amounts\<close>

text \<open>The loop \<open>for range decimals\<close> on an unsigned 64-bit amount; \<open>None\<close> is the overflow error.\<close>

fun scale_loop :: "nat \<Rightarrow> u64 \<Rightarrow> u64 option" where
  "scale_loop 0 amount = Some amount"
| "scale_loop (Suc n) amount = (if amount > (- 1) div 10 then None else scale_loop n (amount * 10))"

definition scaledAmount :: "u64 \<Rightarrow> byte \<Rightarrow> u64 option" where
  "scaledAmount whole decimals = scale_loop (unat decimals) whole"

section \<open>The mint transaction\<close>

record MintSpec =
  sp_Name :: string
  sp_Symbol :: string
  sp_MetadataURI :: string
  sp_Decimals :: byte
  sp_Supply :: u64
  sp_Treasury :: pubkey

datatype build_error =
    MetadataPDAErr string
  | DeriveATAErr string
  | BuildATAErr string
  | SupplyOverflow
  | BuildMintToErr string
  | BuildRevokeFreezeErr string
  | BuildRevokeMintErr string

definition metadataPDA :: "sdk \<Rightarrow> pubkey \<Rightarrow> string + pubkey" where
  "metadataPDA k mint =
     FindProgramAddress k [bytes_of_string ''metadata'', metadataProgramID k, mint] (metadataProgramID k)"

definition meta :: "pubkey \<Rightarrow> account_meta" where
  "meta p = \<lparr>am_Key = p, am_Writable = False, am_Signer = False\<rparr>"

definition WRITE :: "account_meta \<Rightarrow> account_meta" where
  "WRITE m = m\<lparr>am_Writable := True\<rparr>"

definition SIGNER :: "account_meta \<Rightarrow> account_meta" where
  "SIGNER m = m\<lparr>am_Signer := True\<rparr>"

definition create_instruction :: "sdk \<Rightarrow> pubkey \<Rightarrow> pubkey \<Rightarrow> pubkey \<Rightarrow> pubkey \<Rightarrow> MintSpec \<Rightarrow> sol_instruction" where
  "create_instruction k payer metadata mint treasury s =
     \<lparr>si_Program = metadataProgramID k,
      si_Accounts =
        [WRITE (meta metadata), meta (metadataProgramID k), SIGNER (WRITE (meta mint)), SIGNER (meta payer),
         SIGNER (WRITE (meta payer)), meta treasury, meta (systemProgramID k), meta (sysvarInstructions k),
         meta (tokenProgramID k)],
      si_Data = createV1Data (sp_Name s) (sp_Symbol s) (sp_MetadataURI s) (sp_Decimals s)\<rparr>"

definition buildMint :: "sdk \<Rightarrow> pubkey \<Rightarrow> pubkey \<Rightarrow> pubkey \<Rightarrow> MintSpec \<Rightarrow> build_error + sol_instruction list" where
  "buildMint k payer mint treasury s =
     (case metadataPDA k mint of
        Inl e \<Rightarrow> Inl (MetadataPDAErr e)
      | Inr metadata \<Rightarrow>
     (case FindAssociatedTokenAddress k treasury mint of
        Inl e \<Rightarrow> Inl (DeriveATAErr e)
      | Inr dest \<Rightarrow>
     (case ix_CreateIdempotent k payer treasury mint of
        Inl e \<Rightarrow> Inl (BuildATAErr e)
      | Inr createATA \<Rightarrow>
     (case scaledAmount (sp_Supply s) (sp_Decimals s) of
        None \<Rightarrow> Inl SupplyOverflow
      | Some amount \<Rightarrow>
     (case ix_MintTo k amount mint dest payer of
        Inl e \<Rightarrow> Inl (BuildMintToErr e)
      | Inr mintTo \<Rightarrow>
     (case ix_RevokeAuthority k AuthorityFreezeAccount mint payer of
        Inl e \<Rightarrow> Inl (BuildRevokeFreezeErr e)
      | Inr revokeFreeze \<Rightarrow>
     (case ix_RevokeAuthority k AuthorityMintTokens mint payer of
        Inl e \<Rightarrow> Inl (BuildRevokeMintErr e)
      | Inr revokeMint \<Rightarrow>
          Inr [create_instruction k payer metadata mint treasury s, createATA, mintTo, revokeFreeze, revokeMint])))))))"

section \<open>Confirmation\<close>

datatype confirm_error = ConfirmContext | FailedOnChain | ErrTxExpired

text \<open>
  One turn of the loop of \<open>confirmOrExpire\<close>: \<open>Some r\<close> ends the loop with \<open>r\<close> (\<open>None\<close> for nil),
  \<open>None\<close> goes round again.
\<close>

definition read_statuses :: "sdk \<Rightarrow> signature \<Rightarrow> (rpc_error + sig_status option list option) engine_action" where
  "read_statuses k sig = CallForInto OpCtx (sdk_rpc k) (GetSignatureStatuses True sig) (dec_statuses k)"

definition first_status :: "sig_status option list \<Rightarrow> sig_status option" where
  "first_status xs = (case xs of [] \<Rightarrow> None | x # _ \<Rightarrow> x)"

definition judge_status :: "commitment \<Rightarrow> sig_status \<Rightarrow> confirm_error option option" where
  "judge_status c s =
     (if ss_Err s then Some (Some FailedOnChain)
      else
        (case ss_Confirmation s of
           Finalized \<Rightarrow> Some None
         | Confirmed \<Rightarrow> if c \<noteq> CommitmentFinalized then Some None else None
         | _ \<Rightarrow> None))"

text \<open>The pace of polling, in nanoseconds.\<close>

definition pollInterval :: int where
  "pollInterval = 2 * 1000000000"

definition poll_once :: "sdk \<Rightarrow> signature \<Rightarrow> u64 \<Rightarrow> commitment \<Rightarrow> (confirm_error option option) engine_action" where
  "poll_once k sig lastValid c =
     andThen (await WaitTick) (\<lambda>e.
       if e = CtxDone then return (Some (Some ConfirmContext))
       else andThen (read_statuses k sig) (\<lambda>r.
         case r of
           Inl _ \<Rightarrow> return None
         | Inr st \<Rightarrow>
             (case st of
                None \<Rightarrow> return None
              | Some v \<Rightarrow>
                  (case first_status v of
                     Some s \<Rightarrow> return (judge_status c s)
                   | None \<Rightarrow>
                       andThen (CallForInto OpCtx (sdk_rpc k) (GetBlockHeight CommitmentConfirmed) (dec_height k)) (\<lambda>h.
                         case h of
                           Inl _ \<Rightarrow> return None
                         | Inr height \<Rightarrow>
                             if height \<le> lastValid then return None
                             else andThen (read_statuses k sig) (\<lambda>r2.
                               case r2 of
                                 Inl _ \<Rightarrow> return None
                               | Inr st2 \<Rightarrow>
                                   (case st2 of
                                      None \<Rightarrow> return None
                                    | Some v2 \<Rightarrow>
                                        if first_status v2 = None then return (Some (Some ErrTxExpired))
                                        else return None)))))))"

text \<open>
  The loop. Every turn uses up at least the event that ends the wait (\<open>poll_once_uses\<close> below),
  so the test on the lengths never fails; it makes the recursion well-founded.
\<close>

function confirmOrExpire :: "sdk \<Rightarrow> signature \<Rightarrow> u64 \<Rightarrow> commitment \<Rightarrow> (confirm_error option) engine_action" where
  "confirmOrExpire k sig lastValid c st es =
     (case poll_once k sig lastValid c st es of
        Blocked w \<Rightarrow> Blocked w
      | Impossible \<Rightarrow> Impossible
      | Result (Some r) st' es' \<Rightarrow> Result r st' es'
      | Result None st' es' \<Rightarrow>
          if length es' < length es then confirmOrExpire k sig lastValid c st' es' else Impossible)"
  by pat_completeness auto
termination
  by (relation "measure (\<lambda>(_, _, _, _, _, es). length es)") auto

declare confirmOrExpire.simps [simp del]

section \<open>Sending\<close>

datatype signer = HostSigner pubkey | KeySigner pubkey bytes

definition signer_PublicKey :: "signer \<Rightarrow> pubkey" where
  "signer_PublicKey s = (case s of HostSigner p \<Rightarrow> p | KeySigner p _ \<Rightarrow> p)"

definition signer_Sign :: "sdk \<Rightarrow> signer \<Rightarrow> bytes \<Rightarrow> (string + signature) engine_action" where
  "signer_Sign k s msg =
     (case s of
        HostSigner p \<Rightarrow> roundTrip_Sign p msg
      | KeySigner _ priv \<Rightarrow> return (key_Sign k priv msg))"

datatype send_error =
    BlockhashErr rpc_error
  | EmptyBlockhash
  | NewTxErr string
  | MarshalMessageErr string
  | NoSigner pubkey
  | SignErr string
  | IndexPanic
  | NotSubmittedAndExpired rpc_error
  | ConfirmErr confirm_error

definition zero_signature :: signature where "zero_signature = replicate 64 0"

definition zero_pubkey :: pubkey where "zero_pubkey = replicate 32 0"

fun sign_all :: "sdk \<Rightarrow> signer list \<Rightarrow> bytes \<Rightarrow> pubkey list \<Rightarrow> (send_error + signature list) engine_action" where
  "sign_all k signers msg [] = return (Inr [])"
| "sign_all k signers msg (want # wants) =
     (case find (\<lambda>c. signer_PublicKey c = want) signers of
        None \<Rightarrow> return (Inl (NoSigner want))
      | Some s \<Rightarrow>
          andThen (signer_Sign k s msg) (\<lambda>r.
            case r of
              Inl e \<Rightarrow> return (Inl (SignErr e))
            | Inr sig \<Rightarrow>
                andThen (sign_all k signers msg wants) (\<lambda>rest.
                  return (case rest of Inl e \<Rightarrow> Inl e | Inr sigs \<Rightarrow> Inr (sig # sigs)))))"

text \<open>
  The result of \<open>send\<close> is a signature together with an error. A message that asks for more
  signatures than it lists accounts is signed by those it lists before the index is out of range.
\<close>

definition conclude_send :: "signature \<Rightarrow> rpc_error + unit \<Rightarrow> confirm_error option \<Rightarrow> signature \<times> send_error option" where
  "conclude_send sig sent cerr =
     (case cerr of
        None \<Rightarrow> (sig, None)
      | Some ErrTxExpired \<Rightarrow>
          (zero_signature,
           Some (case sent of Inl e \<Rightarrow> NotSubmittedAndExpired e | Inr _ \<Rightarrow> ConfirmErr ErrTxExpired))
      | Some e \<Rightarrow> (sig, Some (ConfirmErr e)))"

definition send ::
  "sdk \<Rightarrow> pubkey \<Rightarrow> sol_instruction list \<Rightarrow> commitment \<Rightarrow> signer list \<Rightarrow> (signature \<times> send_error option) engine_action" where
  "send k payer ixs c extra =
     andThen (CallForInto OpCtx (sdk_rpc k) (GetLatestBlockhash CommitmentConfirmed) (dec_blockhash k)) (\<lambda>r.
       case r of
         Inl e \<Rightarrow> return (zero_signature, Some (BlockhashErr e))
       | Inr v \<Rightarrow>
           (case v of
              None \<Rightarrow> return (zero_signature, Some EmptyBlockhash)
            | Some bh \<Rightarrow>
                (case NewTransaction k ixs (fst bh) payer of
                   Inl e \<Rightarrow> return (zero_signature, Some (NewTxErr e))
                 | Inr tx \<Rightarrow>
                     (case tx_Message tx of
                        Inl e \<Rightarrow> return (zero_signature, Some (MarshalMessageErr e))
                      | Inr msg \<Rightarrow>
                          andThen (sign_all k (HostSigner payer # extra) msg (take (tx_NumSigs tx) (tx_Keys tx))) (\<lambda>r.
                            case r of
                              Inl e \<Rightarrow> return (zero_signature, Some e)
                            | Inr sigs \<Rightarrow>
                                if length (tx_Keys tx) < tx_NumSigs tx \<or> sigs = [] then return (zero_signature, Some IndexPanic)
                                else andThen (CallForInto OpCtx (sdk_rpc k) (SendTransaction msg sigs CommitmentConfirmed) (dec_send k)) (\<lambda>sent.
                                  andThen (confirmOrExpire k (sigs ! 0) (snd bh) c) (\<lambda>cerr.
                                    return (conclude_send (sigs ! 0) sent cerr))))))))"


section \<open>Amounts do not wrap\<close>

lemma max_div_10: "(amount :: u64) > (- 1) div 10 \<longleftrightarrow> 2 ^ 64 \<le> unat amount * 10"
proof -
  have "unat ((- 1 :: u64) div 10) = 1844674407370955161"
    by (simp add: unat_div)
  then have "(amount > (- 1) div 10) = (1844674407370955161 < unat amount)"
    by (simp add: word_less_nat_alt)
  also have "\<dots> = (2 ^ 64 \<le> unat amount * 10)" by auto
  finally show ?thesis .
qed

lemma scale_loop_exact:
  "scale_loop n amount = Some a \<longleftrightarrow> unat amount * 10 ^ n < 2 ^ 64 \<and> unat a = unat amount * 10 ^ n"
proof (induction n arbitrary: amount)
  case 0
  have "unat amount < 2 ^ 64" using unsigned_less [of amount] by simp
  moreover have "amount = a \<longleftrightarrow> unat a = unat amount" by (auto simp: word_unat_eq_iff)
  ultimately show ?case by simp
next
  case (Suc n)
  have grow: "unat amount * 10 \<le> unat amount * 10 ^ Suc n" by simp
  show ?case
  proof (cases "2 ^ 64 \<le> unat amount * 10")
    case True
    with grow have "\<not> unat amount * 10 ^ Suc n < 2 ^ 64" by linarith
    with True show ?thesis by (simp only: scale_loop.simps max_div_10 if_True) simp
  next
    case False
    then have "unat (amount * 10) = unat amount * 10" by (simp add: unat_mult_lem [THEN iffD1])
    with False Suc [of "amount * 10"] show ?thesis
      by (simp only: scale_loop.simps max_div_10 if_False) (simp add: algebra_simps)
  qed
qed

lemma scaledAmount_exact:
  "scaledAmount whole decimals = Some a \<longleftrightarrow>
     unat whole * 10 ^ unat decimals < 2 ^ 64 \<and> unat a = unat whole * 10 ^ unat decimals"
  by (simp add: scaledAmount_def scale_loop_exact)

section \<open>The engine reads its events one at a time\<close>

lemma replayable_judgements [intro]: "replayable (Verify cx k mint)" "replayable (read_statuses k sig)"
  by (auto simp: Verify_def read_statuses_def)

lemma replayable_resolveNetwork [intro]: "replayable (resolveNetwork k pinned)"
proof -
  have "replayable (set_net n)" for n
    by unfold_locales (auto simp: set_net_def replay_at_def)
  then show ?thesis
    unfolding resolveNetwork_def by (intro replayable_andThen replayable_cases replayable_transport replayable_return)
qed

lemma replayable_poll_once [intro]: "replayable (poll_once k sig lastValid c)"
  unfolding poll_once_def
  by (intro replayable_andThen replayable_cases replayable_await replayable_return replayable_judgements
      replayable_transport)

lemma poll_once_uses: "poll_once k sig lastValid c st es = Result r st' rest \<Longrightarrow> length rest < length es"
  unfolding poll_once_def
  by (erule await_first_uses)
    (intro replayable_andThen replayable_cases replayable_return replayable_judgements replayable_transport)

lemma confirm_goes_round: "goes_round (poll_once k sig lastValid c) (confirmOrExpire k sig lastValid c)"
proof -
  have "confirmOrExpire k sig lastValid c st es =
      andThen (poll_once k sig lastValid c) (\<lambda>r. case r of Some x \<Rightarrow> return x | None \<Rightarrow> confirmOrExpire k sig lastValid c) st es"
    for st es
    using poll_once_uses [of k sig lastValid c st es]
    by (subst confirmOrExpire.simps) (auto simp: andThen_def return_def split: outcome.splits option.splits)
  then show ?thesis using poll_once_uses by (auto simp: goes_round_def fun_eq_iff)
qed

lemma replayable_confirm [intro]: "replayable (confirmOrExpire k sig lastValid c)"
  by (rule replayable_loop [OF confirm_goes_round]) auto

lemma replayable_signer_Sign [intro]: "replayable (signer_Sign k s msg)"
  by (auto simp: signer_Sign_def split: signer.splits)

lemma replayable_sign_all [intro]: "replayable (sign_all k signers msg wants)"
  by (induction wants) (auto split: option.splits)

lemma replayable_send [intro]: "replayable (send k payer ixs c extra)"
  unfolding send_def
  by (intro replayable_andThen replayable_cases replayable_return replayable_transport replayable_sign_all
      replayable_confirm)


section \<open>Who is asked to sign what\<close>

lemma readers_no_sign [intro]:
  "no_sign (Verify cx k mint)" "no_sign (read_statuses k sig)" "no_sign (resolveNetwork k pinned)"
proof -
  have "no_sign (set_net n)" for n by (simp add: asks_def set_net_def)
  then show "no_sign (resolveNetwork k pinned)"
    unfolding resolveNetwork_def by (intro asks_andThen asks_cases transport_no_sign asks_return)
  show "no_sign (Verify cx k mint)" "no_sign (read_statuses k sig)"
    unfolding Verify_def read_statuses_def by (intro asks_andThen transport_no_sign asks_return)+
qed

lemma confirm_no_sign [intro]: "no_sign (confirmOrExpire k sig lastValid c)"
proof (rule asks_loop [OF confirm_goes_round])
  show "no_sign (poll_once k sig lastValid c)"
    unfolding poll_once_def
    by (intro asks_andThen asks_cases asks_return transport_no_sign readers_no_sign) simp
qed

definition local_key :: "signer \<Rightarrow> bool" where
  "local_key s \<longleftrightarrow> (\<exists>p priv. s = KeySigner p priv)"

lemma signer_Sign_local [simp]: "local_key s \<Longrightarrow> asks P (signer_Sign k s msg)"
  by (auto simp: local_key_def signer_Sign_def)

lemma find_local:
  assumes "list_all local_key extra" and "find (\<lambda>c. signer_PublicKey c = want) (HostSigner payer # extra) = Some s"
  shows "local_key s \<or> s = HostSigner payer \<and> want = payer"
  using assms by (auto simp: signer_PublicKey_def list_all_iff find_Some_iff split: if_splits dest: nth_mem)

lemma sign_all_silent:
  "payer \<notin> set wants \<Longrightarrow> list_all local_key extra \<Longrightarrow> no_sign (sign_all k (HostSigner payer # extra) msg wants)"
proof (induction wants)
  case (Cons want wants)
  then have "asks (\<lambda>w. \<not> sign_wait w) (signer_Sign k s msg)"
    if "find (\<lambda>c. signer_PublicKey c = want) (HostSigner payer # extra) = Some s" for s
    using find_local [OF _ that] by auto
  with Cons show ?case by (auto simp del: find.simps split: option.splits)
qed simp

lemma sign_all_once:
  "distinct wants \<Longrightarrow> list_all local_key extra \<Longrightarrow> signs_once (sign_all k (HostSigner payer # extra) msg wants)"
proof (induction wants)
  case (Cons want wants)
  let ?rest = "\<lambda>sig. andThen (sign_all k (HostSigner payer # extra) msg wants)
      (\<lambda>rest. return (case rest of Inl e \<Rightarrow> Inl e | Inr sigs \<Rightarrow> Inr (sig # sigs)))"
  have "signs_once (andThen (signer_Sign k s msg) (\<lambda>r. case r of Inl e \<Rightarrow> return (Inl (SignErr e)) | Inr sig \<Rightarrow> ?rest sig))"
    if "find (\<lambda>c. signer_PublicKey c = want) (HostSigner payer # extra) = Some s" for s
    using find_local [OF Cons.prems(2) that]
  proof
    assume "local_key s"
    then show ?thesis
      using Cons by (intro signs_once_late) (auto split: sum.splits intro!: signs_once_early [of "sign_all _ _ _ _"])
  next
    assume s: "s = HostSigner payer \<and> want = payer"
    with Cons.prems have "no_sign (?rest sig)" for sig by (intro asks_andThen sign_all_silent) auto
    with s show ?thesis
      by (intro signs_once_early) (auto simp: signer_Sign_def split: sum.splits)
  qed
  then show ?case by (auto simp del: find.simps split: option.splits)
qed auto

text \<open>
  What the client library promises about a compiled transaction: an account is listed once,
  and the fee payer comes first and signs.
\<close>

definition compiles :: "sdk \<Rightarrow> bool" where
  "compiles k \<longleftrightarrow>
     (\<forall>ixs bh payer tx. NewTransaction k ixs bh payer = Inr tx \<longrightarrow>
        distinct (tx_Keys tx) \<and> 0 < tx_NumSigs tx \<and> tx_NumSigs tx \<le> length (tx_Keys tx) \<and> tx_Keys tx ! 0 = payer)"

lemma send_once:
  assumes "compiles k" and "list_all local_key extra"
  shows "signs_once (send k payer ixs c extra)"
proof -
  have "signs_once (sign_all k (HostSigner payer # extra) msg (take (tx_NumSigs tx) (tx_Keys tx)))"
    if "NewTransaction k ixs bh payer = Inr tx" for bh tx msg
    using assms that by (intro sign_all_once) (auto simp: compiles_def)
  then show ?thesis
    unfolding send_def
    by (intro signs_once_late replayable_transport transport_no_sign)
      (auto split: sum.splits option.splits intro!: signs_once_early asks_andThen asks_return)
qed

text \<open>Every request for a signature is for the payer, over the compiled message.\<close>

definition sign_request_for :: "sdk \<Rightarrow> pubkey \<Rightarrow> sol_instruction list \<Rightarrow> wait \<Rightarrow> bool" where
  "sign_request_for k payer ixs w \<longleftrightarrow>
     (\<exists>bh tx msg ctx. NewTransaction k ixs bh payer = Inr tx \<and> tx_Message tx = Inr msg \<and>
        w = WaitSend (SignCall \<lparr>sr_Pubkey = payer, sr_Message = msg\<rparr>) ctx)"

lemma sign_all_asks:
  assumes "list_all local_key extra" and "\<And>ctx. P (WaitSend (SignCall \<lparr>sr_Pubkey = payer, sr_Message = msg\<rparr>) ctx)"
    and "\<And>w. \<not> sign_wait w \<Longrightarrow> P w"
  shows "asks P (sign_all k (HostSigner payer # extra) msg wants)"
proof (induction wants)
  case (Cons want wants)
  have "asks P (roundTrip_Sign payer msg)"
    unfolding roundTrip_Sign_def Let_def using assms(2,3)
    by (intro asks_andThen) (auto split: event.splits)
  then have "asks P (signer_Sign k s msg)"
    if "find (\<lambda>c. signer_PublicKey c = want) (HostSigner payer # extra) = Some s" for s
    using find_local [OF assms(1) that] by (auto simp: signer_Sign_def local_key_def)
  with Cons show ?case by (auto simp del: find.simps split: option.splits)
qed simp

lemma asks_weaken: "asks P m \<Longrightarrow> (\<And>w. P w \<Longrightarrow> Q w) \<Longrightarrow> asks Q m"
  by (auto simp: asks_def)

lemma send_asks:
  assumes "list_all local_key extra"
  shows "asks (\<lambda>w. sign_wait w \<longrightarrow> sign_request_for k payer ixs w) (send k payer ixs c extra)"
proof -
  let ?P = "\<lambda>w. sign_wait w \<longrightarrow> sign_request_for k payer ixs w"
  have call: "asks ?P (CallForInto cx lib meth dec)" for cx lib meth and dec :: "rawMessage \<Rightarrow> rpc_error + 'b"
    by (rule asks_weaken [OF transport_no_sign(2)]) simp
  have "asks ?P (confirmOrExpire k sig lv c)" for sig lv
    by (rule asks_weaken [OF confirm_no_sign]) simp
  moreover have "asks ?P (sign_all k (HostSigner payer # extra) msg wants)"
    if "NewTransaction k ixs bh payer = Inr tx" "tx_Message tx = Inr msg" for bh tx msg wants
    using that assms by (intro sign_all_asks) (auto simp: sign_request_for_def)
  ultimately show ?thesis
    unfolding send_def
    by (intro asks_andThen [OF call])
      (auto split: sum.splits option.splits intro!: asks_andThen call)
qed


section \<open>What the engine sends\<close>

abbreviation speaks_rpc :: "sdk \<Rightarrow> 'a engine_action \<Rightarrow> bool" where
  "speaks_rpc k \<equiv> asks (rpc_wait (sdk_rpc k))"

lemma readers_rpc [intro]:
  "speaks_rpc k (Verify cx k mint)" "speaks_rpc k (read_statuses k sig)" "speaks_rpc k (resolveNetwork k pinned)"
proof -
  have "speaks_rpc k (set_net n)" for n by (simp add: asks_def set_net_def)
  then show "speaks_rpc k (resolveNetwork k pinned)"
    unfolding resolveNetwork_def by (intro asks_andThen asks_cases transport_rpc asks_return)
  show "speaks_rpc k (Verify cx k mint)" "speaks_rpc k (read_statuses k sig)"
    unfolding Verify_def read_statuses_def by (intro asks_andThen transport_rpc asks_return)+
qed

lemma confirm_rpc [intro]: "speaks_rpc k (confirmOrExpire k sig lastValid c)"
proof (rule asks_loop [OF confirm_goes_round])
  show "speaks_rpc k (poll_once k sig lastValid c)"
    unfolding poll_once_def by (intro asks_andThen asks_cases asks_return transport_rpc readers_rpc) simp
qed

lemma sign_all_rpc [intro]: "speaks_rpc k (sign_all k signers msg wants)"
proof -
  have "speaks_rpc k (signer_Sign k s msg)" for s by (auto simp: signer_Sign_def split: signer.splits)
  then show ?thesis by (induction wants) (auto split: option.splits)
qed

lemma send_rpc [intro]: "speaks_rpc k (send k payer ixs c extra)"
  unfolding send_def by (intro asks_andThen asks_cases asks_return transport_rpc sign_all_rpc confirm_rpc)

section \<open>How a turn of the watch can end it\<close>

lemma poll_once_stops:
  assumes "poll_once k sig lastValid c st (e # es) = Result (Some r) st' rest"
  obtains (ctx) "r = Some ConfirmContext"
    | (seen) v s where "read_statuses k sig st es = Result (Inr (Some v)) st' rest" "first_status v = Some s"
        "judge_status c s = Some r"
    | (dead) v1 st2 es2 h st3 es3 v2 where "read_statuses k sig st es = Result (Inr (Some v1)) st2 es2"
        "first_status v1 = None"
        "CallForInto OpCtx (sdk_rpc k) (GetBlockHeight CommitmentConfirmed) (dec_height k) st2 es2 = Result (Inr h) st3 es3" "lastValid < h"
        "read_statuses k sig st3 es3 = Result (Inr (Some v2)) st' rest" "first_status v2 = None" "r = Some ErrTxExpired"
proof (cases "e = CtxDone")
  case True
  with assms ctx show thesis
    by (auto simp: poll_once_def andThen_Result await_def return_def split: if_splits)
next
  case False
  with assms obtain r1 st2 es2 where r1: "read_statuses k sig st es = Result r1 st2 es2"
    by (auto simp: poll_once_def andThen_Result await_def split: if_splits)
  from assms False obtain v1 where v1: "r1 = Inr (Some v1)"
    by (cases r1; cases "projr r1") (auto simp: poll_once_def andThen_def await_def return_def r1 split: if_splits)
  show thesis
  proof (cases "first_status v1")
    case (Some s)
    with assms False r1 v1 seen show thesis
      by (auto simp: poll_once_def andThen_def await_def return_def split: if_splits)
  next
    case None
    with assms False r1 v1 obtain h st3 es3 where
      h: "CallForInto OpCtx (sdk_rpc k) (GetBlockHeight CommitmentConfirmed) (dec_height k) st2 es2 = Result h st3 es3"
      by (auto simp: poll_once_def andThen_def await_def split: if_splits outcome.splits)
    with assms False r1 v1 None obtain height where height: "h = Inr height" "lastValid < height"
      by (cases h) (auto simp: poll_once_def andThen_def await_def return_def split: if_splits)
    with assms False r1 v1 None h obtain r2 st4 es4 where r2: "read_statuses k sig st3 es3 = Result r2 st4 es4"
      by (auto simp: poll_once_def andThen_def await_def not_le [symmetric] split: if_splits outcome.splits)
    with assms False r1 v1 None h height obtain v2 where
      "r2 = Inr (Some v2)" "first_status v2 = None" "r = Some ErrTxExpired" "st4 = st'" "es4 = rest"
      by (cases r2; cases "projr r2")
        (auto simp: poll_once_def andThen_def await_def return_def not_le [symmetric] split: if_splits)
    with dead r1 v1 None h height r2 show thesis by blast
  qed
qed

section \<open>A sample client library\<close>

text \<open>
  A small library for concrete runs: a response body of one byte says what the node answers.
  The byte 1 is a finalized status, or an account that is a finished mint of 1000 units; any
  other byte is an unknown signature, or no account. The block height is 200.
\<close>

definition sample_mint :: pubkey where "sample_mint = replicate 32 3"

definition body_is :: "byte \<Rightarrow> rawMessage \<Rightarrow> bool" where
  "body_is b raw \<longleftrightarrow> raw = Some (JString (string_of_bytes [b]))"

definition sample_ix :: "byte list \<Rightarrow> string + sol_instruction" where
  "sample_ix d = Inr \<lparr>si_Program = replicate 32 6, si_Accounts = [], si_Data = d\<rparr>"

definition sample_sdk :: sdk where
  "sample_sdk =
     \<lparr>sdk_rpc = \<lparr>rpc_request = (\<lambda>i m. Inr [of_nat i]),
                rpc_response_of = (\<lambda>b. Inr (RpcResult (Some (JString (string_of_bytes b)))))\<rparr>,
      dec_blockhash = (\<lambda>_. Inr (Some (replicate 32 9, 100))),
      dec_height = (\<lambda>_. Inr 200),
      dec_send = (\<lambda>_. Inr ()),
      dec_statuses = (\<lambda>raw. Inr (Some (if body_is 1 raw
         then [Some \<lparr>ss_Err = False, ss_Confirmation = Finalized\<rparr>] else []))),
      dec_account = (\<lambda>raw. if body_is 1 raw
         then Inr (Some \<lparr>ai_Owner = replicate 32 6, ai_Data = replicate 82 0\<rparr>) else Inl ErrNotFound),
      dec_genesis = (\<lambda>raw. Inr (if body_is 1 raw then devnetGenesis else [])),
      decode_mint = (\<lambda>_. Inr \<lparr>ma_Decimals = 2, ma_Supply = 1000, ma_MintAuthority = None,
         ma_FreezeAuthority = None, ma_IsInitialized = True\<rparr>),
      addr = (\<lambda>s. []), tokenProgramID = replicate 32 6, systemProgramID = replicate 32 0,
      FindProgramAddress = (\<lambda>_ _. Inr (replicate 32 4)),
      FindAssociatedTokenAddress = (\<lambda>_ _. Inr (replicate 32 5)),
      ix_CreateIdempotent = (\<lambda>_ _ _. sample_ix [1]),
      ix_MintTo = (\<lambda>_ _ _ _. sample_ix [7]),
      ix_RevokeAuthority = (\<lambda>a _ _. sample_ix (case a of AuthorityMintTokens \<Rightarrow> [6, 0, 0] | AuthorityFreezeAccount \<Rightarrow> [6, 1, 0])),
      NewTransaction = (\<lambda>ixs bh payer. if payer = sample_mint then Inl ''no'' else
         Inr \<lparr>tx_Keys = [payer, sample_mint], tx_NumSigs = 2, tx_Message = Inr (concat (map si_Data ixs))\<rparr>),
      key_Sign = (\<lambda>_ _. Inr (replicate 64 8)),
      url_of = \<lparr>str_ToLower = (\<lambda>s. s), url_Parse = (\<lambda>_. None)\<rparr>\<rparr>"

definition answer :: "byte \<Rightarrow> event list" where
  "answer b = [Taken, Reply \<lparr>hr_Signature = zero_signature, hr_Body = [b], hr_Err = None\<rparr>]"

lemma body_is_simps [simp]: "body_is b (Some (JString (string_of_bytes [c]))) \<longleftrightarrow> b = c"
proof -
  have "string_of_bytes [c] = string_of_bytes [b] \<longleftrightarrow> b = c"
    by (auto simp: string_of_bytes_def word_unat_eq_iff unat_byte_less dest!: arg_cong [of "char_of _" _ "of_char :: char \<Rightarrow> nat"])
  then show ?thesis by (simp add: body_is_def)
qed

lemma sample_call:
  "CallForInto cx (sdk_rpc sample_sdk) method dec st (answer b @ es) =
     Result (dec (Some (JString (string_of_bytes [b])))) (st\<lparr>rpc_id := rpc_id st + 1\<rparr>) es"
  by (simp add: CallForInto_def andThen_def next_id_def roundTrip_def await_def possible_def return_def answer_def
      decode_response_def sample_sdk_def Let_def)

section \<open>Properties\<close>

text \<open>
  C38: scaling never wraps. \<open>scaledAmount\<close> returns an amount exactly when the supply times ten
  to the number of decimals fits into 64 bits, and then it is that product; otherwise it is an
  error.
\<close>

theorem scaledAmount_never_wraps:
  "(scaledAmount whole decimals = Some a \<longleftrightarrow>
     unat whole * 10 ^ unat decimals < 2 ^ 64 \<and> unat a = unat whole * 10 ^ unat decimals) \<and>
   (scaledAmount whole decimals = None \<longleftrightarrow> 2 ^ 64 \<le> unat whole * 10 ^ unat decimals)"
proof -
  have "scaledAmount whole decimals \<noteq> None" if "unat whole * 10 ^ unat decimals < 2 ^ 64"
  proof -
    have "unat (of_nat (unat whole * 10 ^ unat decimals) :: u64) = unat whole * 10 ^ unat decimals"
      using that by (simp add: unat_of_nat del: of_nat_mult)
    with that scaledAmount_exact show ?thesis by (metis option.distinct(1))
  qed
  then show ?thesis
    using scaledAmount_exact [of whole decimals] by (cases "scaledAmount whole decimals") (auto simp: not_less [symmetric])
qed

text \<open>
  C17: a transaction is declared landed or dead only on the chain's word. If the watch ends
  without an error, the last thing it read was a status of that signature without an error, at
  the required commitment. If it ends with expiry, then in one turn it read that the cluster
  does not know the signature, then a block height past the last valid one, then again that
  the signature is unknown; an unreadable answer is never taken for either.
\<close>

theorem confirm_is_truthful:
  assumes "confirmOrExpire k sig lastValid c st es = Result r st' rest"
  shows "(r = None \<longrightarrow> (\<exists>before st1 es1 v s. es = before @ es1 \<and> read_statuses k sig st1 es1 = Result (Inr (Some v)) st' rest \<and>
      first_status v = Some s \<and> \<not> ss_Err s \<and>
      (ss_Confirmation s = Finalized \<or> ss_Confirmation s = Confirmed \<and> c \<noteq> CommitmentFinalized))) \<and>
    (r = Some ErrTxExpired \<longrightarrow> (\<exists>before st1 es1 v1 st2 es2 h st3 es3 v2. es = before @ es1 \<and>
      read_statuses k sig st1 es1 = Result (Inr (Some v1)) st2 es2 \<and> first_status v1 = None \<and>
      CallForInto OpCtx (sdk_rpc k) (GetBlockHeight CommitmentConfirmed) (dec_height k) st2 es2 = Result (Inr h) st3 es3 \<and> lastValid < h \<and>
      read_statuses k sig st3 es3 = Result (Inr (Some v2)) st' rest \<and> first_status v2 = None))"
proof -
  obtain before st0 es0 where es: "es = before @ es0"
    and poll: "poll_once k sig lastValid c st0 es0 = Result (Some r) st' rest"
    using loop_last_turn [OF confirm_goes_round replayable_poll_once assms] by blast
  from poll obtain e es1 where es1: "es0 = e # es1"
    by (auto simp: poll_once_def andThen_Result await_def split: list.splits)
  then have split: "es = (before @ [e]) @ es1" using es by simp
  note stops = poll_once_stops [OF poll [unfolded es1]]
  then consider "r = Some ConfirmContext"
    | v s where "read_statuses k sig st0 es1 = Result (Inr (Some v)) st' rest" "first_status v = Some s"
        "judge_status c s = Some r"
    | v1 st2 es2 h st3 es3 v2 where "read_statuses k sig st0 es1 = Result (Inr (Some v1)) st2 es2" "first_status v1 = None"
        "CallForInto OpCtx (sdk_rpc k) (GetBlockHeight CommitmentConfirmed) (dec_height k) st2 es2 = Result (Inr h) st3 es3" "lastValid < h"
        "read_statuses k sig st3 es3 = Result (Inr (Some v2)) st' rest" "first_status v2 = None" "r = Some ErrTxExpired"
    by metis
  then show ?thesis
  proof cases
    case 2
    then have "r \<noteq> Some ErrTxExpired" by (auto simp: judge_status_def split: if_splits confirmation.splits)
    moreover have "r = None \<Longrightarrow> \<not> ss_Err s \<and>
        (ss_Confirmation s = Finalized \<or> ss_Confirmation s = Confirmed \<and> c \<noteq> CommitmentFinalized)"
      using 2(3) by (auto simp: judge_status_def split: if_splits confirmation.splits)
    ultimately show ?thesis using 2(1,2) split by blast
  next
    case 3
    with split show ?thesis by blast
  qed simp
qed



text \<open>
  A run that polls once without success while the transaction is still valid, then finds the
  signature finalized; and one that ends in expiry.
\<close>

lemma sample_statuses:
  "read_statuses sample_sdk sig st (answer b @ es) =
     Result (Inr (Some (if 1 = b then [Some \<lparr>ss_Err = False, ss_Confirmation = Finalized\<rparr>] else [])))
       (st\<lparr>rpc_id := rpc_id st + 1\<rparr>) es"
  unfolding read_statuses_def sample_call by (simp add: sample_sdk_def)

lemma sample_height:
  "CallForInto OpCtx (sdk_rpc sample_sdk) (GetBlockHeight CommitmentConfirmed) (dec_height sample_sdk) st (answer b @ es) =
     Result (Inr 200) (st\<lparr>rpc_id := rpc_id st + 1\<rparr>) es"
  unfolding sample_call by (simp add: sample_sdk_def)

lemma sample_poll_done:
  "poll_once sample_sdk sig lv c st (Tick # answer 1 @ es) = Result (Some None) (st\<lparr>rpc_id := rpc_id st + 1\<rparr>) es"
  by (simp add: poll_once_def andThen_def await_def possible_def return_def sample_statuses first_status_def
      judge_status_def)

lemma sample_poll_again:
  "200 \<le> lv \<Longrightarrow> poll_once sample_sdk sig lv c st (Tick # answer 0 @ answer 0 @ es) =
     Result None (st\<lparr>rpc_id := rpc_id st + 2\<rparr>) es"
  by (simp add: poll_once_def andThen_def await_def possible_def return_def sample_statuses sample_height first_status_def)

lemma sample_poll_expired:
  "lv < 200 \<Longrightarrow> poll_once sample_sdk sig lv c st (Tick # answer 0 @ answer 0 @ answer 0 @ es) =
     Result (Some (Some ErrTxExpired)) (st\<lparr>rpc_id := rpc_id st + 3\<rparr>) es"
  by (simp add: poll_once_def andThen_def await_def possible_def return_def sample_statuses sample_height
      first_status_def not_le [symmetric] add.commute)

lemma confirm_round:
  "poll_once k sig lv c st es = Result None st' es' \<Longrightarrow> confirmOrExpire k sig lv c st es = confirmOrExpire k sig lv c st' es'"
  "poll_once k sig lv c st es = Result (Some r) st' es' \<Longrightarrow> confirmOrExpire k sig lv c st es = Result r st' es'"
  using poll_once_uses [of k sig lv c st es] by (simp_all add: confirmOrExpire.simps [of k sig lv c st es])

theorem confirm_is_truthful_witness:
  "\<exists>st' before st1 es1 v s.
    confirmOrExpire sample_sdk (replicate 64 7) 250 CommitmentFinalized \<lparr>rpc_id = 0, eng_net = Mainnet\<rparr>
      (Tick # answer 0 @ answer 0 @ Tick # answer 1 @ []) = Result None st' [] \<and>
    Tick # answer 0 @ answer 0 @ Tick # answer 1 @ [] = before @ es1 \<and>
    read_statuses sample_sdk (replicate 64 7) st1 es1 = Result (Inr (Some v)) st' [] \<and>
    first_status v = Some s \<and> ss_Confirmation s = Finalized"
proof -
  let ?es = "Tick # answer 0 @ answer 0 @ Tick # answer 1 @ []"
  have "confirmOrExpire sample_sdk (replicate 64 7) 250 CommitmentFinalized \<lparr>rpc_id = 0, eng_net = Mainnet\<rparr> ?es =
      confirmOrExpire sample_sdk (replicate 64 7) 250 CommitmentFinalized
        (\<lparr>rpc_id = 0, eng_net = Mainnet\<rparr>\<lparr>rpc_id := rpc_id \<lparr>rpc_id = 0, eng_net = Mainnet\<rparr> + 2\<rparr>) (Tick # answer 1 @ [])"
    by (rule confirm_round(1) [OF sample_poll_again]) simp
  also have "\<dots> = Result None \<lparr>rpc_id = 3, eng_net = Mainnet\<rparr> []"
    by (subst confirm_round(2) [OF sample_poll_done]) simp
  finally have "confirmOrExpire sample_sdk (replicate 64 7) 250 CommitmentFinalized \<lparr>rpc_id = 0, eng_net = Mainnet\<rparr> ?es =
      Result None \<lparr>rpc_id = 3, eng_net = Mainnet\<rparr> []" .
  from confirm_is_truthful [OF this] this show ?thesis by auto metis
qed

end
