(* ===== verification/Token_Safety.thy ===== *)
theory Token_Safety
  imports Go_Strings
begin

text \<open>
  The chain-agnostic safety policy (\<open>src/token/safety/safety.go\<close>): a plan describes what a
  token action is about to do, \<open>Evaluate\<close> lists its violations and \<open>Guard\<close> refuses a plan with a
  blocking one. Every rule is translated with its code and its text, in the order of the code.
\<close>

section \<open>Plans and violations\<close>

datatype Severity = Block | Warn

text \<open>Blocking violations come first.\<close>

instantiation Severity :: linorder
begin

definition less_eq_Severity :: "Severity \<Rightarrow> Severity \<Rightarrow> bool" where
  "less_eq_Severity a b \<longleftrightarrow> a = Block \<or> b = Warn"

definition less_Severity :: "Severity \<Rightarrow> Severity \<Rightarrow> bool" where
  "less_Severity a b \<longleftrightarrow> a = Block \<and> b \<noteq> Block"

instance
proof
  fix x y z :: Severity
  show "x < y \<longleftrightarrow> x \<le> y \<and> \<not> y \<le> x" by (cases x; cases y) (simp_all add: less_eq_Severity_def less_Severity_def)
  show "x \<le> x" by (cases x) (simp_all add: less_eq_Severity_def)
  show "x \<le> y \<Longrightarrow> y \<le> z \<Longrightarrow> x \<le> z" by (auto simp: less_eq_Severity_def)
  show "x \<le> y \<Longrightarrow> y \<le> x \<Longrightarrow> x = y" by (auto simp: less_eq_Severity_def)
  show "x \<le> y \<or> y \<le> x" by (cases x; cases y) (simp_all add: less_eq_Severity_def)
qed

end

record Violation =
  vi_Code :: string
  vi_Severity :: Severity
  vi_Detail :: string

record TokenPlan =
  Chain :: string
  Op :: string
  RetainedMintAuthority :: bool
  RetainedFreezeAuthority :: bool
  PermanentDelegate :: bool
  TransferHook :: bool
  Blacklist :: bool
  Pausable :: bool
  RetainedUpgradeAuthority :: bool
  TransferFeeBps :: u16
  SeedsLiquidity :: bool
  LPLockedOrBurned :: bool
  RemovesLiquidity :: bool
  LiquidityLocked :: bool
  GuaranteedYield :: bool
  IssuerProfitClaim :: bool
  CreatorSupplyPct :: byte
  Impersonates :: string
  LiveNetwork :: bool
  TreasuryIsHotSigner :: bool
  MutableMetadataURI :: bool

text \<open>The zero plan: every field at Go's zero value.\<close>

definition zero_plan :: TokenPlan where
  "zero_plan =
     \<lparr>Chain = [], Op = [], RetainedMintAuthority = False, RetainedFreezeAuthority = False,
      PermanentDelegate = False, TransferHook = False, Blacklist = False, Pausable = False,
      RetainedUpgradeAuthority = False, TransferFeeBps = 0, SeedsLiquidity = False,
      LPLockedOrBurned = False, RemovesLiquidity = False, LiquidityLocked = False,
      GuaranteedYield = False, IssuerProfitClaim = False, CreatorSupplyPct = 0, Impersonates = [],
      LiveNetwork = False, TreasuryIsHotSigner = False, MutableMetadataURI = False\<rparr>"

section \<open>Evaluation\<close>

text \<open>One \<open>if\<close> of \<open>Evaluate\<close>: append a violation when the condition holds.\<close>

definition check :: "bool \<Rightarrow> Severity \<Rightarrow> string \<Rightarrow> string \<Rightarrow> Violation list" where
  "check c sev code detail =
     (if c then [\<lparr>vi_Code = code, vi_Severity = sev, vi_Detail = detail\<rparr>] else [])"

definition violations :: "TokenPlan \<Rightarrow> Violation list" where
  "violations p =
      check (RetainedMintAuthority p) Block ''retained_mint_authority''
         (''mint authority not revoked: supply is not provably fixed (unlimited-mint dilution)'') @
      check (RetainedFreezeAuthority p) Block ''retained_freeze_authority''
         (''freeze authority retained: holders can be frozen out of selling (honeypot)'') @
      check (PermanentDelegate p) Block ''permanent_delegate''
         (''permanent delegate set: any holder's tokens can be transferred or burned without consent'') @
      check (TransferHook p) Block ''transfer_hook''
         (''transfer hook present: arbitrary code runs on every transfer (sell-block risk)'') @
      check (Blacklist p) Block ''transfer_blacklist''
         (''blacklist/whitelist transfer gating: sells can be selectively blocked (honeypot)'') @
      check (Pausable p) Block ''pausable''
         (''transfers are pausable: all trading can be halted by the owner'') @
      check (RetainedUpgradeAuthority p) Block ''retained_upgrade_authority''
         (''token program/contract upgrade authority retained: token logic can be changed later'') @
      check (0 < TransferFeeBps p) Block ''transfer_fee''
         (''transfer fee of '' @ FormatUint (unat (TransferFeeBps p)) @ '' bps: a transfer tax traps value and is honeypot-adjacent'') @
      check (SeedsLiquidity p \<and> \<not> LPLockedOrBurned p) Block ''unlocked_lp''
         (''seeding liquidity without locking or burning the LP: liquidity can be pulled (rug)'') @
      check (RemovesLiquidity p \<and> LiquidityLocked p) Block ''remove_locked_liquidity''
         (''removing liquidity from a pool marked locked: this is the rug action itself'') @
      check (GuaranteedYield p) Block ''guaranteed_yield''
         (''guaranteed/fixed/issuer-set yield wired in: ponzi shape and a securities trigger'') @
      check (IssuerProfitClaim p) Block ''issuer_profit_claim''
         (''generated copy/metadata claims price/profit/appreciation: pump framing and a Howey trigger'') @
      check (TrimSpace (Impersonates p) \<noteq> []) Block ''impersonation''
         (''token identity impersonates '' @ Impersonates p @ '': brand/impersonation scam'') @
      check (LiveNetwork p \<and> TreasuryIsHotSigner p) Block ''hot_key_treasury''
         (''on a real-value network the whole supply would be minted to the same hot key that signs the mint: one key compromise takes the entire supply, and there is no threshold to stop it. Send the supply to a multisig treasury instead'') @
      check (LiveNetwork p \<and> MutableMetadataURI p) Warn ''mutable_metadata_uri''
         (''metadata URI is not content-addressed: the on-chain metadata is frozen, but the name, symbol and logo served from that URL can still be swapped after launch by whoever controls the host. Use IPFS or Arweave to make the identity provably fixed'') @
      check (30 < CreatorSupplyPct p) Warn ''creator_concentration''
         (''creator retains '' @ FormatUint (unat (CreatorSupplyPct p)) @ ''% of supply unvested: dump risk, must be disclosed and vested'')"

text \<open>\<open>sort.SliceStable\<close> with the comparison that puts blocking violations first.\<close>

definition Evaluate :: "TokenPlan \<Rightarrow> Violation list" where
  "Evaluate p = sort_key vi_Severity (violations p)"

fun join :: "string \<Rightarrow> string list \<Rightarrow> string" where
  "join sep [] = []"
| "join sep [s] = s"
| "join sep (s # ss) = s @ sep @ join sep ss"

definition Guard :: "TokenPlan \<Rightarrow> string option" where
  "Guard p =
     (let blocking = map (\<lambda>v. vi_Code v @ '': '' @ vi_Detail v) (filter (\<lambda>v. vi_Severity v = Block) (Evaluate p)) in
      if length blocking = 0 then None
      else Some (''token safety policy refused this action ('' @ FormatUint (length blocking) @ '' blocking):'' @
             [CHR 0x0A] @ ''  - '' @ join ([CHR 0x0A] @ ''  - '') blocking))"

section \<open>The policy as a predicate\<close>

text \<open>What a plan must not do, and what it must only disclose.\<close>

definition harmless :: "TokenPlan \<Rightarrow> bool" where
  "harmless p \<longleftrightarrow>
     \<not> RetainedMintAuthority p \<and> \<not> RetainedFreezeAuthority p \<and> \<not> PermanentDelegate p \<and> \<not> TransferHook p \<and>
     \<not> Blacklist p \<and> \<not> Pausable p \<and> \<not> RetainedUpgradeAuthority p \<and> TransferFeeBps p = 0 \<and>
     (SeedsLiquidity p \<longrightarrow> LPLockedOrBurned p) \<and> \<not> (RemovesLiquidity p \<and> LiquidityLocked p) \<and>
     \<not> GuaranteedYield p \<and> \<not> IssuerProfitClaim p \<and> TrimSpace (Impersonates p) = [] \<and>
     \<not> (LiveNetwork p \<and> TreasuryIsHotSigner p)"

lemma filter_check:
  "filter (\<lambda>v. vi_Severity v = Block) (check c Block code detail) = [] \<longleftrightarrow> \<not> c"
  "filter (\<lambda>v. vi_Severity v = Block) (check c Warn code detail) = []"
  by (simp_all add: check_def)

lemma stable_blocks: "filter (\<lambda>v. vi_Severity v = Block) (Evaluate p) = filter (\<lambda>v. vi_Severity v = Block) (violations p)"
  unfolding Evaluate_def by (rule sort_key_stable)

lemma no_blocks_iff: "filter (\<lambda>v. vi_Severity v = Block) (violations p) = [] \<longleftrightarrow> harmless p"
  unfolding violations_def harmless_def filter_append append_is_Nil_conv filter_check simp_thms word_gt_0 not_not
    de_Morgan_conj imp_conv_disj eq_commute [of 0] by (rule TrueI)

lemma join_contains: "s \<in> set ss \<Longrightarrow> \<exists>a b. join sep ss = a @ s @ b"
proof (induction sep ss rule: join.induct)
  case (2 sep s')
  then show ?case by (auto intro: exI [of _ "[]"])
next
  case (3 sep s' t ss)
  show ?case
  proof (cases "s = s'")
    case True
    then show ?thesis by (auto intro: exI [of _ "[]"])
  next
    case False
    with 3 obtain a b where "join sep (t # ss) = a @ s @ b" by auto
    then have "join sep (s' # t # ss) = (s' @ sep @ a) @ s @ b" by simp
    then show ?thesis by blast
  qed
qed simp

lemma Guard_Some:
  "Guard p = Some e \<Longrightarrow>
     \<exists>a. e = a @ join ([CHR 0x0A] @ ''  - '') (map (\<lambda>v. vi_Code v @ '': '' @ vi_Detail v)
             (filter (\<lambda>v. vi_Severity v = Block) (violations p)))"
  by (auto simp: Guard_def stable_blocks Let_def split: if_splits)

lemma Guard_harmless: "Guard p = None \<longleftrightarrow> harmless p"
  by (simp add: Guard_def stable_blocks Let_def no_blocks_iff)

section \<open>Properties\<close>

text \<open>
  C21: the guard refuses exactly the harmful plans. It passes a plan if and only if the plan
  retains no power over holders, taxes no transfer, leaves no liquidity open to be pulled,
  promises nothing, impersonates nobody, and, on a network of real value, does not put the
  whole supply into the hot key. Warnings alone never refuse.
\<close>

theorem Guard_exact: "Guard p = None \<longleftrightarrow> harmless p"
  by (rule Guard_harmless)

text \<open>
  A refusal hides nothing. The error names the code and the text of every blocking
  violation of the plan.
\<close>

theorem Guard_names_every_block:
  assumes "Guard p = Some e" and "v \<in> set (Evaluate p)" and "vi_Severity v = Block"
  shows "Contains e (vi_Code v @ '': '' @ vi_Detail v)"
proof -
  let ?s = "vi_Code v @ '': '' @ vi_Detail v"
  let ?lines = "map (\<lambda>v. vi_Code v @ '': '' @ vi_Detail v) (filter (\<lambda>v. vi_Severity v = Block) (violations p))"
  have "?s \<in> set ?lines" using assms(2,3) by (auto simp: Evaluate_def)
  then obtain a b where "join ([CHR 0x0A] @ ''  - '') ?lines = a @ ?s @ b"
    using join_contains by blast
  with Guard_Some [OF assms(1)] obtain c where "e = c @ a @ ?s @ b" by auto
  then have "e = (c @ a) @ ?s @ b" by simp
  then show ?thesis unfolding Contains_iff by blast
qed

theorem Guard_names_every_block_witness:
  "\<exists>e. Guard (zero_plan\<lparr>Pausable := True\<rparr>) = Some e \<and>
     Contains e ''pausable: transfers are pausable: all trading can be halted by the owner''"
proof -
  let ?p = "zero_plan\<lparr>Pausable := True\<rparr>"
    and ?v = "\<lparr>vi_Code = ''pausable'', vi_Severity = Block, vi_Detail = ''transfers are pausable: all trading can be halted by the owner''\<rparr>"
  have "\<not> harmless ?p" by (simp add: harmless_def)
  then obtain e where e: "Guard ?p = Some e"
    by (cases "Guard ?p") (simp_all add: Guard_harmless)
  have "?v \<in> set (Evaluate ?p)" by (simp add: Evaluate_def violations_def check_def)
  from Guard_names_every_block [OF e this] e show ?thesis by simp
qed

end
