(* ===== verification/Token_Impersonation.thy ===== *)
theory Token_Impersonation
  imports Go_Strings
begin

text \<open>
  The impersonation check (\<open>src/token/safety/impersonation.go\<close>): a name or symbol is folded to a
  canonical form, and refused when that form is a protected brand.

  Ranging over a Go string decodes UTF-8, with U+FFFD for every byte that does not start a
  well-formed sequence; the decoder is modelled in full. Of the Unicode tables the code uses,
  category Cf is written out, and \<open>unicode.ToLower\<close> is given where it matters: the characters
  whose lower case is an ASCII letter. Every other character is dropped by the code after the
  conversion, whatever it is converted to.
\<close>

section \<open>UTF-8\<close>

definition cont_byte :: "nat \<Rightarrow> bool" where
  "cont_byte b \<longleftrightarrow> 0x80 \<le> b \<and> b \<le> 0xBF"

definition second_byte :: "nat \<Rightarrow> nat \<Rightarrow> bool" where
  "second_byte b0 b1 \<longleftrightarrow>
     (if b0 = 0xE0 then 0xA0 \<le> b1 \<and> b1 \<le> 0xBF
      else if b0 = 0xED then 0x80 \<le> b1 \<and> b1 \<le> 0x9F
      else if b0 = 0xF0 then 0x90 \<le> b1 \<and> b1 \<le> 0xBF
      else if b0 = 0xF4 then 0x80 \<le> b1 \<and> b1 \<le> 0x8F
      else cont_byte b1)"

text \<open>The rune that starts with byte \<open>b\<close>, and how many of the bytes after it belong to it.\<close>

definition rune_at :: "nat \<Rightarrow> nat list \<Rightarrow> nat \<times> nat" where
  "rune_at b bs =
     (if b < 0x80 then (b, 0)
      else if 0xC2 \<le> b \<and> b \<le> 0xDF \<and> 1 \<le> length bs \<and> cont_byte (bs ! 0) then
        ((b - 0xC0) * 64 + (bs ! 0 - 0x80), 1)
      else if 0xE0 \<le> b \<and> b \<le> 0xEF \<and> 2 \<le> length bs \<and> second_byte b (bs ! 0) \<and> cont_byte (bs ! 1) then
        ((b - 0xE0) * 4096 + (bs ! 0 - 0x80) * 64 + (bs ! 1 - 0x80), 2)
      else if 0xF0 \<le> b \<and> b \<le> 0xF4 \<and> 3 \<le> length bs \<and> second_byte b (bs ! 0) \<and> cont_byte (bs ! 1) \<and> cont_byte (bs ! 2) then
        ((b - 0xF0) * 262144 + (bs ! 0 - 0x80) * 4096 + (bs ! 1 - 0x80) * 64 + (bs ! 2 - 0x80), 3)
      else (0xFFFD, 0))"

function decode_runes :: "nat list \<Rightarrow> nat list" where
  "decode_runes [] = []"
| "decode_runes (b # bs) = (case rune_at b bs of (r, n) \<Rightarrow> r # decode_runes (drop n bs))"
  by pat_completeness auto
termination
  by (relation "measure length") auto

definition string_runes :: "string \<Rightarrow> nat list" where
  "string_runes s = decode_runes (map of_char s)"

definition encode_rune :: "nat \<Rightarrow> nat list" where
  "encode_rune r =
     (if r < 0x80 then [r]
      else if r < 0x800 then [0xC0 + r div 64, 0x80 + r mod 64]
      else if r < 0x10000 then [0xE0 + r div 4096, 0x80 + r div 64 mod 64, 0x80 + r mod 64]
      else [0xF0 + r div 262144, 0x80 + r div 4096 mod 64, 0x80 + r div 64 mod 64, 0x80 + r mod 64])"

definition scalar :: "nat \<Rightarrow> bool" where
  "scalar r \<longleftrightarrow> r < 0xD800 \<or> 0xE000 \<le> r \<and> r < 0x110000"

definition string_of_runes :: "nat list \<Rightarrow> string" where
  "string_of_runes rs = map char_of (concat (map encode_rune rs))"

section \<open>Folding\<close>

text \<open>Unicode category Cf, as inclusive ranges.\<close>

definition Cf :: "(nat \<times> nat) list" where
  "Cf =
     [(0xAD, 0xAD), (0x600, 0x605), (0x61C, 0x61C), (0x6DD, 0x6DD), (0x70F, 0x70F), (0x890, 0x891),
      (0x8E2, 0x8E2), (0x180E, 0x180E), (0x200B, 0x200F), (0x202A, 0x202E), (0x2060, 0x2064),
      (0x2066, 0x206F), (0xFEFF, 0xFEFF), (0xFFF9, 0xFFFB), (0x110BD, 0x110BD), (0x110CD, 0x110CD),
      (0x13430, 0x1343F), (0x1BCA0, 0x1BCA3), (0x1D173, 0x1D17A), (0xE0001, 0xE0001), (0xE0020, 0xE007F)]"

definition is_Cf :: "nat \<Rightarrow> bool" where
  "is_Cf r \<longleftrightarrow> list_ex (\<lambda>(lo, hi). lo \<le> r \<and> r \<le> hi) Cf"

definition confusables :: "(nat \<times> nat) list" where
  "confusables =
     [(0x430, 0x61), (0x435, 0x65), (0x43E, 0x6F), (0x440, 0x70), (0x441, 0x63), (0x443, 0x79),
      (0x445, 0x78), (0x43A, 0x6B), (0x43D, 0x68), (0x432, 0x62), (0x442, 0x74), (0x43C, 0x6D),
      (0x410, 0x61), (0x415, 0x65), (0x41E, 0x6F), (0x420, 0x70), (0x421, 0x63), (0x423, 0x79),
      (0x425, 0x78), (0x41A, 0x6B), (0x41D, 0x68), (0x412, 0x62), (0x422, 0x74), (0x41C, 0x6D),
      (0x3BF, 0x6F), (0x39F, 0x6F), (0x3B1, 0x61), (0x3C1, 0x70), (0x3C4, 0x74), (0x3C5, 0x79),
      (0x3B9, 0x69), (0x3BA, 0x6B), (0x3BD, 0x76)]"

text \<open>
  \<open>unicode.ToLower\<close> where the result is ASCII: the capital letters, U+0130 (dotted I) and
  U+212A (Kelvin sign). Any other character has a lower case outside ASCII, or none.
\<close>

definition to_lower :: "nat \<Rightarrow> nat" where
  "to_lower r =
     (if 0x41 \<le> r \<and> r \<le> 0x5A then r + 32
      else if r = 0x130 then 0x69 else if r = 0x212A then 0x6B else r)"

text \<open>What one rune contributes to the canonical form.\<close>

definition fold_rune :: "nat \<Rightarrow> string" where
  "fold_rune r =
     (if is_Cf r then []
      else let r1 = (case map_of confusables r of None \<Rightarrow> r | Some m \<Rightarrow> m);
               r2 = to_lower r1
           in if 0x61 \<le> r2 \<and> r2 \<le> 0x7A \<or> 0x30 \<le> r2 \<and> r2 \<le> 0x39 then [char_of r2] else [])"

definition normalize :: "string \<Rightarrow> string" where
  "normalize s = concat (map fold_rune (string_runes s))"

section \<open>Brands\<close>

definition protectedBrands :: "(string \<times> string) list" where
  "protectedBrands =
     [(''usdc'', ''USDC''), (''usd coin'', ''USDC''), (''usdt'', ''USDT''), (''tether'', ''USDT''),
      (''sol'', ''SOL''), (''solana'', ''Solana''), (''wsol'', ''wSOL''), (''btc'', ''BTC''),
      (''bitcoin'', ''Bitcoin''), (''wbtc'', ''WBTC''), (''eth'', ''ETH''), (''ethereum'', ''Ethereum''),
      (''weth'', ''WETH''), (''bnb'', ''BNB''), (''dai'', ''DAI''), (''usds'', ''USDS''), (''bonk'', ''BONK''),
      (''jup'', ''JUP''), (''jupiter'', ''Jupiter''), (''pyth'', ''PYTH''), (''jito'', ''JITO''),
      (''jitosol'', ''JitoSOL'')]"

text \<open>
  The Go map is filled in an unspecified order. The canonical forms of the keys are distinct
  (\<open>brand_keys_distinct\<close>), so every order gives this map.
\<close>

definition normalizedBrands :: "string \<rightharpoonup> string" where
  "normalizedBrands = map_of (filter (\<lambda>(n, _). n \<noteq> []) (map (\<lambda>(k, v). (normalize k, v)) protectedBrands))"

definition brand_of :: "string \<Rightarrow> string option" where
  "brand_of s = (let n = normalize s in if n \<noteq> [] then normalizedBrands n else None)"

definition ImpersonationTarget :: "string \<Rightarrow> string \<Rightarrow> string" where
  "ImpersonationTarget name symbol =
     (case brand_of name of
        Some brand \<Rightarrow> brand
      | None \<Rightarrow> (case brand_of symbol of Some brand \<Rightarrow> brand | None \<Rightarrow> []))"

section \<open>Decoding what was encoded\<close>

lemma sixbit_2: "\<exists>a b. r = a * 64 + b \<and> b < 64 \<and> r div 64 = a \<and> r mod 64 = b" for r :: nat
  by (metis div_mult_mod_eq mod_less_divisor zero_less_numeral)

lemma rune_at_encode:
  assumes "scalar r"
  shows "\<exists>b bs. encode_rune r = b # bs \<and> rune_at b (bs @ rest) = (r, length bs)"
proof -
  obtain q z where z: "r = q * 64 + z" "z < 64" "r div 64 = q" "r mod 64 = z" using sixbit_2 [of r] by blast
  obtain p y where y: "q = p * 64 + y" "y < 64" "q div 64 = p" "q mod 64 = y" using sixbit_2 [of q] by blast
  obtain k x where x: "p = k * 64 + x" "x < 64" "p div 64 = k" "p mod 64 = x" using sixbit_2 [of p] by blast
  have d: "r div 4096 = p" "r div 262144 = k"
    using z(3) y(3) x(3) div_mult2_eq [of r 64 64] div_mult2_eq [of r 4096 64] by simp_all
  have digits: "r div 64 mod 64 = y" "r div 4096 mod 64 = x" using z y x d by simp_all
  consider "r < 0x80" | "0x80 \<le> r" "r < 0x800" | "0x800 \<le> r" "r < 0x10000" | "0x10000 \<le> r" "r < 0x110000"
    using assms unfolding scalar_def by linarith
  then show ?thesis
  proof cases
    case 1
    then show ?thesis by (simp add: encode_rune_def rune_at_def)
  next
    case 2
    then have "2 \<le> q" "q < 32" using z(1,2) by linarith+
    with 2 z show ?thesis by (simp add: encode_rune_def rune_at_def cont_byte_def)
  next
    case 3
    then have "p < 16" "p = 0 \<longrightarrow> 32 \<le> y" "p = 13 \<longrightarrow> y < 32"
      using z(1,2) y(1,2) assms by (auto simp: scalar_def)
    with 3 z y d digits show ?thesis
      by (auto simp: encode_rune_def rune_at_def cont_byte_def second_byte_def)
  next
    case 4
    then have lead: "k \<le> 4" "k = 0 \<longrightarrow> 16 \<le> x" "k = 4 \<longrightarrow> x < 16"
      using z(1,2) y(1,2) x(1,2) by linarith+
    have second: "second_byte (0xF0 + k) (0x80 + x)"
      using lead x(2) by (auto simp: second_byte_def cont_byte_def)
    have cont: "cont_byte (0x80 + y)" "cont_byte (0x80 + z)" using y(2) z(2) by (simp_all add: cont_byte_def)
    have val: "k * 262144 + x * 4096 + y * 64 + z = r" using z(1) y(1) x(1) by simp
    have enc: "encode_rune r = [0xF0 + k, 0x80 + x, 0x80 + y, 0x80 + z]"
      using 4(1) d digits z(4) by (simp add: encode_rune_def)
    have "rune_at (0xF0 + k) ((0x80 + x) # (0x80 + y) # (0x80 + z) # rest) = (r, 3)"
      unfolding rune_at_def using lead(1) second cont by (simp add: val)
    with enc show ?thesis by simp
  qed
qed

lemma encode_rune_bytes: "scalar r \<Longrightarrow> b \<in> set (encode_rune r) \<Longrightarrow> b < 256"
proof -
  assume "scalar r" and b: "b \<in> set (encode_rune r)"
  then have "r < 0x110000" unfolding scalar_def by linarith
  then have "r div 262144 < 5" "r < 0x10000 \<Longrightarrow> r div 4096 < 16" "r < 0x800 \<Longrightarrow> r div 64 < 32"
    by (simp_all add: less_mult_imp_div_less)
  moreover have "k mod 64 < 64" for k :: nat by simp
  ultimately show "b < 256"
    using b by (auto simp: encode_rune_def split: if_splits intro: order_less_trans [of _ "0x80 + 64"])
qed

lemma decode_encode: "\<forall>r \<in> set rs. scalar r \<Longrightarrow> decode_runes (concat (map encode_rune rs)) = rs"
proof (induction rs)
  case (Cons r rs)
  obtain b bs where "encode_rune r = b # bs" "rune_at b (bs @ concat (map encode_rune rs)) = (r, length bs)"
    using rune_at_encode [of r "concat (map encode_rune rs)"] Cons.prems by auto
  with Cons show ?case by simp
qed simp

lemma runes_roundtrip [codec_simps]: "\<forall>r \<in> set rs. scalar r \<Longrightarrow> string_runes (string_of_runes rs) = rs"
proof -
  assume s: "\<forall>r \<in> set rs. scalar r"
  then have "map of_char (string_of_runes rs :: string) = concat (map encode_rune rs)"
    by (auto simp: string_of_runes_def intro!: map_idI mod_less encode_rune_bytes)
  with decode_encode [OF s] show ?thesis by (simp add: string_runes_def)
qed

lemma normalize_runes: "\<forall>r \<in> set rs. scalar r \<Longrightarrow> normalize (string_of_runes rs) = concat (map fold_rune rs)"
  by (simp add: normalize_def runes_roundtrip)

section \<open>Canonical forms\<close>

definition canonical_char :: "char \<Rightarrow> bool" where
  "canonical_char c \<longleftrightarrow>
     (let n = (of_char c :: nat) in 0x61 \<le> n \<and> n \<le> 0x7A \<or> 0x30 \<le> n \<and> n \<le> 0x39)"

lemma fold_rune_canonical: "c \<in> set (fold_rune r) \<Longrightarrow> canonical_char c"
  by (auto simp: fold_rune_def canonical_char_def Let_def split: if_splits)

lemma ascii_runes: "\<forall>c \<in> set s. (of_char c :: nat) < 0x80 \<Longrightarrow> string_runes s = map of_char s"
  by (induction s) (simp_all add: string_runes_def rune_at_def)

lemma fold_rune_ascii: "canonical_char c \<Longrightarrow> fold_rune (of_char c) = [c]"
proof -
  assume c: "canonical_char c"
  have k: "map_of confusables n = None \<and> \<not> is_Cf n" if "n < 0x80" for n
    using that by (auto simp: confusables_def is_Cf_def Cf_def)
  have "(of_char c :: nat) < 0x80" using c by (auto simp: canonical_char_def Let_def)
  with k [of "of_char c"] c show "fold_rune (of_char c) = [c]"
    by (auto simp: fold_rune_def to_lower_def canonical_char_def Let_def)
qed

lemma normalize_canonical: "\<forall>c \<in> set s. canonical_char c \<Longrightarrow> normalize s = s"
proof -
  assume s: "\<forall>c \<in> set s. canonical_char c"
  then have "\<forall>c \<in> set s. (of_char c :: nat) < 0x80" by (auto simp: canonical_char_def Let_def)
  with s show ?thesis
    by (simp add: normalize_def ascii_runes comp_def fold_rune_ascii cong: map_cong)
qed


text \<open>The table of brands by canonical form, evaluated.\<close>

lemma normalize_usd_coin: "normalize ''usd coin'' = ''usdcoin''"
  by (simp add: normalize_def ascii_runes fold_rune_def is_Cf_def Cf_def confusables_def to_lower_def
      char_of_def bit_0)

lemma normalize_self: "list_all canonical_char s \<Longrightarrow> normalize s = s"
  by (simp add: normalize_canonical list_all_iff)

lemma normalized_table:
  "map (\<lambda>(k, v). (normalize k, v)) protectedBrands =
     [(''usdc'', ''USDC''), (''usdcoin'', ''USDC''), (''usdt'', ''USDT''), (''tether'', ''USDT''),
      (''sol'', ''SOL''), (''solana'', ''Solana''), (''wsol'', ''wSOL''), (''btc'', ''BTC''),
      (''bitcoin'', ''Bitcoin''), (''wbtc'', ''WBTC''), (''eth'', ''ETH''), (''ethereum'', ''Ethereum''),
      (''weth'', ''WETH''), (''bnb'', ''BNB''), (''dai'', ''DAI''), (''usds'', ''USDS''), (''bonk'', ''BONK''),
      (''jup'', ''JUP''), (''jupiter'', ''Jupiter''), (''pyth'', ''PYTH''), (''jito'', ''JITO''),
      (''jitosol'', ''JitoSOL'')]"
  unfolding protectedBrands_def by (simp add: normalize_usd_coin normalize_self canonical_char_def)

lemma brand_keys_distinct: "distinct (map fst (map (\<lambda>(k, v). (normalize k, v)) protectedBrands))"
  unfolding normalized_table by simp

lemma normalizedBrands_Nil: "normalizedBrands [] = None"
  unfolding normalizedBrands_def normalized_table by simp

section \<open>Spelling a brand\<close>

text \<open>
  What a spelling is, without folding: for each letter, the characters that stand for it. They
  are its small and its capital form, the Cyrillic and Greek letters that look like it (of
  the Greek ones the capital only for o), and for i and k the two letters of other scripts whose
  lower case they are. A digit stands for itself.
\<close>

definition look_alikes :: "(char \<times> nat list) list" where
  "look_alikes =
     [(CHR ''a'', [0x430, 0x410, 0x3B1]), (CHR ''b'', [0x432, 0x412]), (CHR ''c'', [0x441, 0x421]),
      (CHR ''e'', [0x435, 0x415]), (CHR ''h'', [0x43D, 0x41D]), (CHR ''i'', [0x3B9, 0x130]),
      (CHR ''k'', [0x43A, 0x41A, 0x3BA, 0x212A]), (CHR ''m'', [0x43C, 0x41C]), (CHR ''o'', [0x43E, 0x41E, 0x3BF, 0x39F]),
      (CHR ''p'', [0x440, 0x420, 0x3C1]), (CHR ''t'', [0x442, 0x422, 0x3C4]), (CHR ''v'', [0x3BD]),
      (CHR ''x'', [0x445, 0x425]), (CHR ''y'', [0x443, 0x423, 0x3C5])]"

definition stands_for :: "nat \<Rightarrow> char \<Rightarrow> bool" where
  "stands_for r c \<longleftrightarrow>
     (let n = (of_char c :: nat) in
      if 0x61 \<le> n \<and> n \<le> 0x7A then r = n \<or> r = n - 32 \<or> (\<exists>rs. (c, rs) \<in> set look_alikes \<and> r \<in> set rs)
      else 0x30 \<le> n \<and> n \<le> 0x39 \<and> r = n)"

text \<open>
  A name spells a text when it has, in order, a character for each letter and digit of the text,
  and otherwise only characters that stand for nothing. The spaces of the text need not be there.
\<close>

inductive spells :: "nat list \<Rightarrow> string \<Rightarrow> bool" where
  spelt: "spells [] []"
| letter: "stands_for r c \<Longrightarrow> spells rs s \<Longrightarrow> spells (r # rs) (c # s)"
| ignored: "\<forall>c. \<not> stands_for r c \<Longrightarrow> spells rs s \<Longrightarrow> spells (r # rs) s"
| space: "spells rs s \<Longrightarrow> spells rs (CHR '' '' # s)"

definition imitates :: "nat list \<Rightarrow> string \<Rightarrow> bool" where
  "imitates rs brand \<longleftrightarrow> (\<exists>key. (key, brand) \<in> set protectedBrands \<and> spells rs key)"

lemma table_fold:
  "list_all (\<lambda>(c, rs). canonical_char c \<and> list_all (\<lambda>r. fold_rune r = [c]) rs) look_alikes"
  unfolding look_alikes_def
  by (simp add: fold_rune_def is_Cf_def Cf_def confusables_def to_lower_def char_of_def bit_0 canonical_char_def)

lemma table_complete:
  "list_all (\<lambda>(r, m). \<exists>rs. (char_of m, rs) \<in> set look_alikes \<and> r \<in> set rs) confusables"
  unfolding look_alikes_def confusables_def by (simp add: char_of_def bit_0)

lemma fold_capital:
  assumes "0x41 \<le> r" "r \<le> 0x5A"
  shows "fold_rune r = [char_of (r + 32)]"
proof -
  have "map_of confusables r = None \<and> \<not> is_Cf r"
    using assms by (auto simp: confusables_def is_Cf_def Cf_def)
  then show ?thesis using assms by (simp add: fold_rune_def to_lower_def)
qed

text \<open>Folding gives exactly the letter or digit a character stands for.\<close>

lemma stands_canonical: "stands_for r c \<Longrightarrow> canonical_char c"
  by (auto simp: stands_for_def canonical_char_def Let_def split: if_splits)

lemma stands_folds:
  assumes "stands_for r c"
  shows "fold_rune r = [c]"
proof -
  let ?n = "of_char c :: nat"
  note canonical = stands_canonical [OF assms]
  from assms consider "r = ?n" | "0x61 \<le> ?n" "?n \<le> 0x7A" "r = ?n - 32"
    | rs where "(c, rs) \<in> set look_alikes" "r \<in> set rs"
    by (auto simp: stands_for_def Let_def split: if_splits)
  then show ?thesis
  proof cases
    case 1
    with fold_rune_ascii [OF canonical] show ?thesis by simp
  next
    case 2
    with fold_capital [of r] show ?thesis by simp
  next
    case 3
    with table_fold show ?thesis by (auto simp: list_all_iff)
  qed
qed

lemma folds_stands:
  assumes "fold_rune r = [c]"
  shows "stands_for r c"
proof -
  have canonical: "canonical_char c" using assms fold_rune_canonical [of c r] by simp
  have rebuilt: "of_char (char_of m :: char) = m" if "m < 256" for m :: nat using that by simp
  show ?thesis
  proof (cases "map_of confusables r")
    case (Some m)
    then have in_table: "(r, m) \<in> set confusables" by (rule map_of_SomeD)
    then have "0x61 \<le> m" "m \<le> 0x7A" by (auto simp: confusables_def)
    with assms Some have "c = char_of m" by (auto simp: fold_rune_def to_lower_def split: if_splits)
    with in_table table_complete \<open>0x61 \<le> m\<close> \<open>m \<le> 0x7A\<close> show ?thesis
      by (fastforce simp: stands_for_def list_all_iff rebuilt)
  next
    case None
    with assms have c: "c = char_of (to_lower r)" and
      small: "0x61 \<le> to_lower r \<and> to_lower r \<le> 0x7A \<or> 0x30 \<le> to_lower r \<and> to_lower r \<le> 0x39"
      by (auto simp: fold_rune_def Let_def split: if_splits)
    then have n: "of_char c = to_lower r" by auto
    have special: "stands_for 0x130 (CHR ''i'')" "stands_for 0x212A (CHR ''k'')"
      unfolding stands_for_def look_alikes_def by (auto simp: Let_def)
    show ?thesis
    proof (cases "r = 0x130 \<or> r = 0x212A")
      case True
      with c special show ?thesis by (auto simp: to_lower_def char_of_def bit_0)
    next
      case False
      with n small show ?thesis by (auto simp: stands_for_def Let_def to_lower_def split: if_splits)
    qed
  qed
qed

lemma fold_stands: "fold_rune r = [c] \<longleftrightarrow> stands_for r c"
  using stands_folds folds_stands by blast

lemma fold_ignored: "fold_rune r = [] \<longleftrightarrow> (\<forall>c. \<not> stands_for r c)"
proof -
  have "fold_rune r = [] \<or> (\<exists>c. fold_rune r = [c])" by (auto simp: fold_rune_def Let_def)
  then show ?thesis using fold_stands [of r] by (metis list.distinct(1))
qed

text \<open>So a text is spelt exactly if the characters fold to it without its spaces.\<close>

lemma spells_folds: "spells rs s \<Longrightarrow> concat (map fold_rune rs) = filter (\<lambda>c. c \<noteq> CHR '' '') s"
proof (induction rule: spells.induct)
  case (letter r c rs s)
  then have "c \<noteq> CHR '' ''" using stands_canonical [of r c] by (auto simp: canonical_char_def)
  with letter fold_stands show ?case by simp
next
  case (ignored r rs s)
  then show ?case using fold_ignored by simp
qed simp_all

lemma spells_spaces: "spells rs s \<Longrightarrow> \<forall>c \<in> set us. c = CHR '' '' \<Longrightarrow> spells rs (us @ s)"
  by (induction us) (auto intro: spells.space)

lemma folds_spells: "concat (map fold_rune rs) = filter (\<lambda>c. c \<noteq> CHR '' '') s \<Longrightarrow> spells rs s"
proof (induction rs arbitrary: s)
  case Nil
  then have "filter (\<lambda>c. c \<noteq> CHR '' '') s = []" by simp
  then have "\<forall>c \<in> set s. c = CHR '' ''" by (simp only: filter_empty_conv) blast
  with spells_spaces [OF spells.spelt] show ?case by simp
next
  case (Cons r rs)
  show ?case
  proof (cases "fold_rune r = []")
    case True
    with Cons fold_ignored show ?thesis by (auto intro: spells.ignored)
  next
    case False
    then obtain c where c: "fold_rune r = [c]" by (auto simp: fold_rune_def Let_def split: if_splits)
    with Cons.prems have "filter (\<lambda>c. c \<noteq> CHR '' '') s = c # concat (map fold_rune rs)" by simp
    then obtain us vs where s: "s = us @ c # vs" "\<forall>u \<in> set us. u = CHR '' ''"
      "concat (map fold_rune rs) = filter (\<lambda>c. c \<noteq> CHR '' '') vs"
      by (auto dest: filter_eq_ConsD)
    from Cons.IH [OF s(3)] c fold_stands have "spells (r # rs) (c # vs)" by (auto intro: spells.letter)
    with s show ?thesis by (simp add: spells_spaces)
  qed
qed

lemma spells_iff: "spells rs s \<longleftrightarrow> concat (map fold_rune rs) = filter (\<lambda>c. c \<noteq> CHR '' '') s"
  using spells_folds folds_spells by blast

lemma brand_keys_canonical:
  "list_all (\<lambda>(k, v). normalize k = filter (\<lambda>c. c \<noteq> CHR '' '') k \<and> normalize k \<noteq> [] \<and> v \<noteq> []) protectedBrands"
  unfolding protectedBrands_def by (simp add: normalize_usd_coin normalize_self canonical_char_def)

lemma brand_of_exact: "brand_of s = Some brand \<longleftrightarrow> imitates (string_runes s) brand"
proof -
  let ?table = "map (\<lambda>(k, v). (normalize k, v)) protectedBrands"
  have all: "filter (\<lambda>(n, _). n \<noteq> []) ?table = ?table"
    using brand_keys_canonical by (force simp: filter_id_conv list_all_iff)
  have "brand_of s = Some brand \<longleftrightarrow> map_of ?table (normalize s) = Some brand"
    using normalizedBrands_Nil unfolding brand_of_def normalizedBrands_def all by (auto simp: Let_def)
  also have "\<dots> \<longleftrightarrow> (normalize s, brand) \<in> set ?table"
    using brand_keys_distinct by (rule map_of_eq_Some_iff)
  also have "\<dots> \<longleftrightarrow> (\<exists>key. (key, brand) \<in> set protectedBrands \<and> normalize s = normalize key)" by auto
  also have "\<dots> \<longleftrightarrow> imitates (string_runes s) brand"
    using brand_keys_canonical by (force simp: imitates_def spells_iff normalize_def [of s] list_all_iff)
  finally show ?thesis .
qed

section \<open>Properties\<close>

text \<open>
  C34: the check reports exactly the names that spell a protected brand. For a name and a symbol
  in UTF-8, a brand is reported if and only if the name spells one of its keys, or the name
  spells no brand and the symbol does. To spell is to have, in order, a character that stands
  for each letter or digit, by \<open>look_alikes\<close>, and between them only characters that stand for
  nothing: invisible ones, separators, and all letters of other scripts that are not listed.
  So letter case, spaces, zero-width characters and the listed look-alikes hide no brand, and no
  name is refused without spelling one; but a Greek capital tau, which is not listed, hides USDT.
\<close>

theorem impersonation_exact:
  assumes "\<forall>r \<in> set name. scalar r" and "\<forall>r \<in> set symbol. scalar r"
  shows "ImpersonationTarget (string_of_runes name) (string_of_runes symbol) = brand \<and> brand \<noteq> [] \<longleftrightarrow>
    imitates name brand \<or> (\<nexists>b. imitates name b) \<and> imitates symbol brand"
proof -
  have proper: "b \<noteq> []" if "imitates rs b" for rs b
    using that brand_keys_canonical by (auto simp: imitates_def list_all_iff)
  have brands: "brand_of (string_of_runes name) = Some b \<longleftrightarrow> imitates name b"
    "brand_of (string_of_runes symbol) = Some b \<longleftrightarrow> imitates symbol b" for b
    using assms by (simp_all add: brand_of_exact runes_roundtrip)
  show ?thesis
  proof (cases "brand_of (string_of_runes name)")
    case None
    with brands(1) have none: "\<not> imitates name b" for b by simp
    show ?thesis
    proof (cases "brand_of (string_of_runes symbol)")
      case (Some b)
      then have "imitates symbol b' \<longleftrightarrow> b' = b" for b' using brands(2) [of b'] by auto
      with Some \<open>brand_of (string_of_runes name) = None\<close> none proper [of symbol b] show ?thesis
        by (auto simp: ImpersonationTarget_def)
    next
      case None
      then have "\<not> imitates symbol b" for b using brands(2) [of b] by simp
      with None \<open>brand_of (string_of_runes name) = None\<close> none show ?thesis by (simp add: ImpersonationTarget_def)
    qed
  next
    case (Some b)
    then have "imitates name b' \<longleftrightarrow> b' = b" for b' using brands(1) [of b'] by auto
    with Some proper [of name b] show ?thesis by (auto simp: ImpersonationTarget_def)
  qed
qed

text \<open>
  Tether with a zero-width space, a Cyrillic letter and a hyphen is reported; USD with a Greek
  capital tau is not.
\<close>

theorem impersonation_exact_witness:
  "ImpersonationTarget (string_of_runes [0x54, 0x200B, 0x65, 0x74, 0x48, 0x2D, 0x435, 0x72]) (string_of_runes []) = ''USDT'' \<and>
   ImpersonationTarget (string_of_runes [0x55, 0x53, 0x44, 0x3A4]) (string_of_runes []) = []"
proof -
  let ?tether = "[0x54, 0x200B, 0x65, 0x74, 0x48, 0x2D, 0x435, 0x72] :: nat list" and ?usd = "[0x55, 0x53, 0x44, 0x3A4] :: nat list"
  have folds: "concat (map fold_rune ?tether) = ''tether''" "concat (map fold_rune ?usd) = ''usd''"
    by (simp_all add: fold_rune_def is_Cf_def Cf_def confusables_def to_lower_def char_of_def bit_0)
  have "imitates ?tether ''USDT''" unfolding imitates_def spells_iff folds
    by (intro exI [of _ "''tether''"]) (simp add: protectedBrands_def)
  moreover have none: "\<not> imitates ?usd b" "\<not> imitates [] b" for b
    unfolding imitates_def spells_iff folds by (auto simp: protectedBrands_def)
  ultimately show ?thesis
    using impersonation_exact [of ?tether "[]" "''USDT''"]
      impersonation_exact [of ?usd "[]" "ImpersonationTarget (string_of_runes ?usd) (string_of_runes [])"]
    by (auto simp: scalar_def)
qed

text \<open>
  Folding is idempotent, and its results are strings of small ASCII letters and digits:
  the form that is compared is a normal form.
\<close>

theorem normalize_normal_form:
  "normalize (normalize s) = normalize s \<and> list_all canonical_char (normalize s)"
proof -
  have "list_all canonical_char (normalize s)"
    by (auto simp: list_all_iff normalize_def intro: fold_rune_canonical)
  then show ?thesis by (simp add: normalize_self)
qed

end
