(* ===== verification/Token_Mint.thy ===== *)
theory Token_Mint
  imports Token_Engine Token_Safety Token_Impersonation
begin

text \<open>
  The guarded mint (\<open>src/token/mint.go\<close>): validation, the safety policy, the treasury check, one
  transaction, and the verification of what the chain holds afterwards.

  \<open>Mint\<close> is an action of \<open>Host_Calls\<close>, so its theorems speak about every sequence of host
  answers, timer ticks and cancellations. The fresh key pair of \<open>solana.NewWallet\<close> is an
  argument. A run-time panic ends the run with the error \<open>Panicked\<close>.
\<close>

section \<open>Checks before anything is signed\<close>

definition maxNameLen :: nat where "maxNameLen = 32"

definition maxSymbolLen :: nat where "maxSymbolLen = 10"

definition maxURILen :: nat where "maxURILen = 200"

datatype mint_error =
    BadName nat
  | BadSymbol nat
  | BadURI nat
  | ZeroSupply
  | OverflowSupply
  | SafetyRefused string
  | TreasuryUnchecked rpc_error
  | TreasuryIsConfig
  | BuildErr build_error
  | DidNotLand send_error
  | Unresolved send_error verify_error
  | LandedUnsafe bool bool send_error
  | VerifyFailed verify_error
  | FreezePresent
  | AuthorityNotRevoked
  | SupplyMismatch u64 u64
  | Panicked

definition validateMetadata :: "string \<Rightarrow> string \<Rightarrow> string \<Rightarrow> mint_error option" where
  "validateMetadata name symbol uri =
     (if length name = 0 \<or> length name > maxNameLen then Some (BadName (length name))
      else if length symbol = 0 \<or> length symbol > maxSymbolLen then Some (BadSymbol (length symbol))
      else if length uri = 0 \<or> length uri > maxURILen then Some (BadURI (length uri))
      else None)"

definition treasury :: "pubkey \<Rightarrow> MintSpec \<Rightarrow> pubkey" where
  "treasury payer s = (if sp_Treasury s = zero_pubkey then payer else sp_Treasury s)"

definition SquadsV4ProgramID :: "sdk \<Rightarrow> pubkey" where
  "SquadsV4ProgramID k = addr k ''SQDS4ep65T869zMMBKyuUq6aD6EgTu8psMjkvj52pCf''"

definition judge_treasury :: "sdk \<Rightarrow> rpc_error + account_info option \<Rightarrow> mint_error option" where
  "judge_treasury k info =
     (case info of
        Inl ErrNotFound \<Rightarrow> None
      | Inr None \<Rightarrow> None
      | Inl err \<Rightarrow> Some (TreasuryUnchecked err)
      | Inr (Some a) \<Rightarrow> if ai_Owner a = SquadsV4ProgramID k then Some TreasuryIsConfig else None)"

definition checkTreasurySpendable :: "sdk \<Rightarrow> pubkey \<Rightarrow> (mint_error option) engine_action" where
  "checkTreasurySpendable k t =
     andThen (CallForInto SessionCtx (sdk_rpc k) (GetAccountInfo t CommitmentFinalized) (dec_account k)) (\<lambda>info. return (judge_treasury k info))"

text \<open>The plan \<open>Mint\<close> submits to the safety policy.\<close>

definition mint_plan :: "sdk \<Rightarrow> pubkey \<Rightarrow> Network \<Rightarrow> MintSpec \<Rightarrow> TokenPlan" where
  "mint_plan k payer net s =
     zero_plan\<lparr>Chain := ''solana'', Op := ''mint'', CreatorSupplyPct := 100,
       Impersonates := ImpersonationTarget (sp_Name s) (sp_Symbol s),
       LiveNetwork := Live net,
       TreasuryIsHotSigner := (treasury payer s = payer),
       MutableMetadataURI := \<not> ContentAddressed (url_of k) (sp_MetadataURI s)\<rparr>"

section \<open>Checks afterwards\<close>

definition checkSupply :: "MintState \<Rightarrow> MintSpec \<Rightarrow> mint_error option" where
  "checkSupply st s =
     (case scaledAmount (sp_Supply s) (sp_Decimals s) of
        None \<Rightarrow> Some OverflowSupply
      | Some expected \<Rightarrow> if ms_Supply st \<noteq> expected then Some (SupplyMismatch (ms_Supply st) expected) else None)"

definition verifySafe :: "sdk \<Rightarrow> pubkey \<Rightarrow> MintSpec \<Rightarrow> (mint_error option) engine_action" where
  "verifySafe k mint s =
     andThen (Verify OpCtx k mint) (\<lambda>r. return (
       case r of
         Inl err \<Rightarrow> Some (VerifyFailed err)
       | Inr st \<Rightarrow>
           if Freezable st then Some FreezePresent
           else if \<not> SupplyFixed st then Some AuthorityNotRevoked
           else checkSupply st s))"

type_synonym mint_outcome = "pubkey \<times> Violation list \<times> mint_error option"

definition resolveUnconfirmed ::
  "sdk \<Rightarrow> pubkey \<Rightarrow> MintSpec \<Rightarrow> Violation list \<Rightarrow> send_error \<Rightarrow> mint_outcome engine_action" where
  "resolveUnconfirmed k mint s disclosures cause =
     andThen (Verify CheckCtx k mint) (\<lambda>r. return (
       mint, disclosures,
       case r of
         Inl err \<Rightarrow> Some (Unresolved cause err)
       | Inr st \<Rightarrow>
           if \<not> SupplyFixed st \<or> Freezable st then Some (LandedUnsafe (SupplyFixed st) (Freezable st) cause)
           else checkSupply st s))"

section \<open>The mint\<close>

text \<open>\<open>errors.Is(err, errTxExpired)\<close> on the error of \<open>send\<close>.\<close>

definition is_expired :: "send_error \<Rightarrow> bool" where
  "is_expired e \<longleftrightarrow> e = ConfirmErr ErrTxExpired \<or> (\<exists>x. e = NotSubmittedAndExpired x)"

definition get_net :: "Network engine_action" where
  "get_net st es = Result (eng_net st) st es"

text \<open>From the signing of the transaction on.\<close>

definition submit_mint ::
  "sdk \<Rightarrow> pubkey \<Rightarrow> pubkey \<times> bytes \<Rightarrow> MintSpec \<Rightarrow> Violation list \<Rightarrow> sol_instruction list \<Rightarrow> mint_outcome engine_action" where
  "submit_mint k payer wallet s disclosures ixs =
     andThen (send k payer ixs CommitmentFinalized [KeySigner (fst wallet) (snd wallet)]) (\<lambda>r.
       case snd r of
         None \<Rightarrow> andThen (verifySafe k (fst wallet) s) (\<lambda>e. return (fst wallet, disclosures, e))
       | Some e \<Rightarrow>
           if e = IndexPanic then return (zero_pubkey, [], Some Panicked)
           else if is_expired e then return (zero_pubkey, disclosures, Some (DidNotLand e))
           else resolveUnconfirmed k (fst wallet) s disclosures e)"

definition Mint ::
  "sdk \<Rightarrow> pubkey \<Rightarrow> bool \<Rightarrow> pubkey \<times> bytes \<Rightarrow> MintSpec \<Rightarrow> mint_outcome engine_action" where
  "Mint k payer pinned wallet s =
     (case validateMetadata (sp_Name s) (sp_Symbol s) (sp_MetadataURI s) of
        Some e \<Rightarrow> return (zero_pubkey, [], Some e)
      | None \<Rightarrow>
          if sp_Supply s = 0 then return (zero_pubkey, [], Some ZeroSupply)
          else andThen (resolveNetwork k pinned) (\<lambda>_.
            if scaledAmount (sp_Supply s) (sp_Decimals s) = None then return (zero_pubkey, [], Some OverflowSupply)
            else andThen get_net (\<lambda>net.
              let plan = mint_plan k payer net s in
              case Guard plan of
                Some refusal \<Rightarrow> return (zero_pubkey, [], Some (SafetyRefused refusal))
              | None \<Rightarrow>
                  let disclosures = Evaluate plan in
                  andThen (checkTreasurySpendable k (treasury payer s)) (\<lambda>t.
                    case t of
                      Some e \<Rightarrow> return (zero_pubkey, disclosures, Some e)
                    | None \<Rightarrow>
                        (case buildMint k payer (fst wallet) (treasury payer s) s of
                           Inl e \<Rightarrow> return (zero_pubkey, disclosures, Some (BuildErr e))
                         | Inr ixs \<Rightarrow> submit_mint k payer wallet s disclosures ixs)))))"

section \<open>Lemmas\<close>

lemma replayable_checks [intro]:
  "replayable (checkTreasurySpendable k t)" "replayable (verifySafe k mint s)"
  "replayable (resolveUnconfirmed k mint s d e)" "replayable get_net"
proof -
  show "replayable get_net" by unfold_locales (auto simp: get_net_def replay_at_def)
qed (auto simp: checkTreasurySpendable_def verifySafe_def resolveUnconfirmed_def)

lemma checks_no_sign [intro]:
  "no_sign (checkTreasurySpendable k t)" "no_sign (verifySafe k mint s)"
  "no_sign (resolveUnconfirmed k mint s d e)" "no_sign get_net"
proof -
  show "no_sign get_net" by (simp add: asks_def get_net_def)
qed (auto simp: checkTreasurySpendable_def verifySafe_def resolveUnconfirmed_def)

lemma submit_mint_asks:
  "asks (\<lambda>w. sign_wait w \<longrightarrow> sign_request_for k payer ixs w) (submit_mint k payer wallet s d ixs)"
proof -
  have weak: "no_sign m \<Longrightarrow> asks (\<lambda>w. sign_wait w \<longrightarrow> sign_request_for k payer ixs w) m" for m :: "'x engine_action"
    by (auto elim: asks_weaken)
  show ?thesis
    unfolding submit_mint_def
    by (intro asks_andThen send_asks asks_cases asks_return weak checks_no_sign)
      (auto simp: local_key_def intro!: weak)
qed

lemma replayable_submit [intro]: "replayable (submit_mint k payer wallet s d ixs)"
  unfolding submit_mint_def
  by (intro replayable_andThen replayable_send replayable_cases replayable_return replayable_checks)

lemma submit_mint_once:
  assumes "compiles k"
  shows "signs_once (submit_mint k payer wallet s d ixs)"
  unfolding submit_mint_def
  by (intro signs_once_early send_once assms) (auto simp: local_key_def split: option.splits)

lemma replayable_Mint [intro]: "replayable (Mint k payer pinned wallet s)"
  unfolding Mint_def Let_def
  by (intro replayable_cases replayable_andThen replayable_return replayable_resolveNetwork replayable_checks
      replayable_submit)

lemma checks_rpc [intro]:
  "speaks_rpc k (checkTreasurySpendable k t)" "speaks_rpc k (verifySafe k mint s)"
  "speaks_rpc k (resolveUnconfirmed k mint s d e)" "speaks_rpc k get_net"
proof -
  show "speaks_rpc k get_net" by (simp add: asks_def get_net_def)
qed (auto simp: checkTreasurySpendable_def verifySafe_def resolveUnconfirmed_def)

lemma Mint_rpc: "speaks_rpc k (Mint k payer pinned wallet s)"
  unfolding Mint_def submit_mint_def Let_def
  by (intro asks_cases asks_andThen asks_return readers_rpc checks_rpc send_rpc)

interpretation mint_run: replayable "Mint k payer pinned wallet s" for k payer pinned wallet s
  by (rule replayable_Mint)

interpretation verify_run: replayable "Verify cx k mint" for cx k mint
  by (rule replayable_judgements)


section \<open>The way to the signature\<close>

definition proceeds :: "(mint_outcome, engine_state) outcome \<Rightarrow> bool" where
  "proceeds out \<longleftrightarrow> (\<exists>w. out = Blocked w \<and> sign_wait w) \<or> (\<exists>m d st' rest. out = Result (m, d, None) st' rest)"

lemma proceeds_simps [simp]:
  "proceeds (Blocked w) \<longleftrightarrow> sign_wait w" "proceeds (Result (m, d, e) st es) \<longleftrightarrow> e = None" "\<not> proceeds Impossible"
  by (auto simp: proceeds_def)

lemma andThen_proceeds:
  assumes "proceeds (andThen m f st es)" and "no_sign m"
  obtains x st' es' where "m st es = Result x st' es'" "proceeds (f x st' es')" "andThen m f st es = f x st' es'"
  using assms by (cases "m st es") (auto simp: andThen_def asks_def)

text \<open>
  A run that asks for a signature, or reports success, has passed every check, and goes on as
  \<open>submit_mint\<close> does.
\<close>

lemma Mint_submits:
  assumes "proceeds (Mint k payer pinned wallet s st es)"
  obtains st0 es0 st1 es1 ixs where
    "validateMetadata (sp_Name s) (sp_Symbol s) (sp_MetadataURI s) = None" "sp_Supply s \<noteq> 0"
    "resolveNetwork k pinned st es = Result () st0 es0"
    "scaledAmount (sp_Supply s) (sp_Decimals s) \<noteq> None"
    "Guard (mint_plan k payer (eng_net st0) s) = None"
    "checkTreasurySpendable k (treasury payer s) st0 es0 = Result None st1 es1"
    "buildMint k payer (fst wallet) (treasury payer s) s = Inr ixs"
    "Mint k payer pinned wallet s st es =
       submit_mint k payer wallet s (Evaluate (mint_plan k payer (eng_net st0) s)) ixs st1 es1"
proof -
  note mint = Mint_def [of k payer pinned wallet s]
  have valid: "validateMetadata (sp_Name s) (sp_Symbol s) (sp_MetadataURI s) = None" "sp_Supply s \<noteq> 0"
    using assms by (auto simp: mint return_def split: option.splits if_splits)
  let ?after = "\<lambda>net t. case t of
      Some e \<Rightarrow> return (zero_pubkey, Evaluate (mint_plan k payer net s), Some e)
    | None \<Rightarrow> (case buildMint k payer (fst wallet) (treasury payer s) s of
         Inl e \<Rightarrow> return (zero_pubkey, Evaluate (mint_plan k payer net s), Some (BuildErr e))
       | Inr ixs \<Rightarrow> submit_mint k payer wallet s (Evaluate (mint_plan k payer net s)) ixs)"
  let ?guarded = "\<lambda>net. case Guard (mint_plan k payer net s) of
      Some refusal \<Rightarrow> return (zero_pubkey, [], Some (SafetyRefused refusal))
    | None \<Rightarrow> andThen (checkTreasurySpendable k (treasury payer s)) (?after net)"
  let ?scaled = "if scaledAmount (sp_Supply s) (sp_Decimals s) = None then return (zero_pubkey, [], Some OverflowSupply)
    else andThen get_net ?guarded"
  from valid have run: "Mint k payer pinned wallet s st es = andThen (resolveNetwork k pinned) (\<lambda>_. ?scaled) st es"
    unfolding mint Let_def by simp
  from assms obtain st0 es0 where net: "resolveNetwork k pinned st es = Result () st0 es0"
    and p: "proceeds (?scaled st0 es0)" and run1: "Mint k payer pinned wallet s st es = ?scaled st0 es0"
    unfolding run by (rule andThen_proceeds) auto
  from p have fits: "scaledAmount (sp_Supply s) (sp_Decimals s) \<noteq> None"
    by (cases "scaledAmount (sp_Supply s) (sp_Decimals s) = None") (auto simp: return_def)
  then have run2: "?scaled st0 es0 = ?guarded (eng_net st0) st0 es0" by (auto simp add: andThen_def get_net_def)
  with p have p: "proceeds (?guarded (eng_net st0) st0 es0)" by simp
  from p have guard: "Guard (mint_plan k payer (eng_net st0) s) = None" by (auto simp: return_def split: option.splits)
  then have run3: "?guarded (eng_net st0) st0 es0 =
      andThen (checkTreasurySpendable k (treasury payer s)) (?after (eng_net st0)) st0 es0" by simp
  from p obtain t st1 es1 where t: "checkTreasurySpendable k (treasury payer s) st0 es0 = Result t st1 es1"
    and p: "proceeds (?after (eng_net st0) t st1 es1)"
    and run4: "andThen (checkTreasurySpendable k (treasury payer s)) (?after (eng_net st0)) st0 es0 = ?after (eng_net st0) t st1 es1"
    unfolding run3 by (rule andThen_proceeds) auto
  from p have none: "t = None" by (auto simp: return_def split: option.splits)
  from p none obtain ixs where ixs: "buildMint k payer (fst wallet) (treasury payer s) s = Inr ixs"
    by (auto simp: return_def split: sum.splits)
  have "Mint k payer pinned wallet s st es =
      submit_mint k payer wallet s (Evaluate (mint_plan k payer (eng_net st0) s)) ixs st1 es1"
    unfolding run1 run2 run3 run4 by (simp add: none ixs)
  then show thesis using that [OF valid net fits guard _ ixs] t none by simp
qed

text \<open>What a submission that ends without an error has read last.\<close>

lemma verified_by:
  assumes "andThen (Verify cx k mint) (\<lambda>r. return (f r)) st es = Result x st' rest"
  obtains r where "Verify cx k mint st es = Result r st' rest" "x = f r"
  using assms by (auto simp: andThen_Result return_def)

lemma checks_verified:
  "verifySafe k mint s st es = Result None st' rest \<Longrightarrow>
     \<exists>ms. Verify OpCtx k mint st es = Result (Inr ms) st' rest \<and> SupplyFixed ms \<and> \<not> Freezable ms \<and> checkSupply ms s = None"
  "resolveUnconfirmed k mint s d e st es = Result (m, d', None) st' rest \<Longrightarrow>
     m = mint \<and> (\<exists>ms. Verify CheckCtx k mint st es = Result (Inr ms) st' rest \<and> SupplyFixed ms \<and> \<not> Freezable ms \<and> checkSupply ms s = None)"
  unfolding verifySafe_def resolveUnconfirmed_def
  by (erule verified_by; auto split: sum.splits if_splits)+

lemma submit_mint_verified:
  assumes "submit_mint k payer wallet s d ixs st es = Result (mint, d', None) st' rest"
  shows "mint = fst wallet \<and>
    (\<exists>before cx st1 es1 ms. es = before @ es1 \<and> Verify cx k mint st1 es1 = Result (Inr ms) st' rest \<and>
       SupplyFixed ms \<and> \<not> Freezable ms \<and> checkSupply ms s = None)"
proof -
  from assms obtain r st1 es1 where send: "send k payer ixs CommitmentFinalized [KeySigner (fst wallet) (snd wallet)] st es =
      Result r st1 es1"
    by (auto simp: submit_mint_def andThen_Result)
  then obtain before where es: "es = before @ es1" using replayable.rest_suffix [OF replayable_send] by metis
  have "mint = fst wallet \<and> (\<exists>cx ms. Verify cx k mint st1 es1 = Result (Inr ms) st' rest \<and>
       SupplyFixed ms \<and> \<not> Freezable ms \<and> checkSupply ms s = None)"
    using assms send
    by (auto simp: submit_mint_def andThen_Result return_def split: option.splits if_splits dest!: checks_verified)
  with es show ?thesis by blast
qed

lemma checkSupply_exact:
  "checkSupply ms s = None \<longleftrightarrow> unat (ms_Supply ms) = unat (sp_Supply s) * 10 ^ unat (sp_Decimals s)"
proof -
  have "checkSupply ms s = None \<longleftrightarrow> scaledAmount (sp_Supply s) (sp_Decimals s) = Some (ms_Supply ms)"
    by (auto simp: checkSupply_def split: option.splits)
  then show ?thesis using scaledAmount_exact unsigned_less [of "ms_Supply ms", where ?'a = nat] by auto
qed

text \<open>
  What a finished mint is: an initialised mint account of the token program, without a mint
  authority, without a freeze authority, and with exactly the requested supply times ten to the
  number of decimals.
\<close>

definition finished_mint :: "sdk \<Rightarrow> MintSpec \<Rightarrow> account_info \<Rightarrow> bool" where
  "finished_mint k s a \<longleftrightarrow> ai_Owner a = tokenProgramID k \<and> ai_Owner a \<noteq> token2022ProgramID k \<and> length (ai_Data a) = 82 \<and>
     (\<exists>m. decode_mint k (ai_Data a) = Inr m \<and> ma_IsInitialized m \<and> ma_MintAuthority m = None \<and> ma_FreezeAuthority m = None \<and>
       unat (ma_Supply m) = unat (sp_Supply s) * 10 ^ unat (sp_Decimals s))"

lemma judged_finished:
  "(\<exists>ms. judge_mint k mint info = Inr ms \<and> SupplyFixed ms \<and> \<not> Freezable ms \<and> checkSupply ms s = None) \<longleftrightarrow>
     (\<exists>a. info = Inr (Some a) \<and> finished_mint k s a)"
  unfolding checkSupply_exact
  by (auto simp: judge_mint_def finished_mint_def SupplyFixed_def Freezable_def mintAccountSize_def split: sum.splits option.splits)

lemma resolveNetwork_pinned: "resolveNetwork k True st es = Result u st' rest \<Longrightarrow> st' = st"
  by (simp add: resolveNetwork_def return_def)

lemma resolveNetwork_asked:
  assumes "resolveNetwork k False st es = Result u st' rest"
  obtains (unread) "eng_net st' = Mainnet"
    | (read) h st0 where "CallForInto SessionCtx (sdk_rpc k) GetGenesisHash (dec_genesis k) st es = Result (Inr h) st0 rest"
        "eng_net st' = ClassifyGenesis h"
proof -
  from assms obtain r st0 es0 where r: "CallForInto SessionCtx (sdk_rpc k) GetGenesisHash (dec_genesis k) st es = Result r st0 es0"
    and s: "(case r of Inl _ \<Rightarrow> set_net Mainnet | Inr h \<Rightarrow> set_net (ClassifyGenesis h)) st0 es0 = Result u st' rest"
    by (auto simp: resolveNetwork_def andThen_Result)
  show thesis
    using r s that by (cases r) (auto simp: set_net_def)
qed


text \<open>What a mint that ends without an error has read last, and what lies behind a request to sign.\<close>

lemma Mint_verified:
  assumes "Mint k payer pinned wallet s st es = Result (mint, d, None) st' rest"
  shows "mint = fst wallet \<and>
    (\<exists>before cx st1 es1 ms. es = before @ es1 \<and> Verify cx k mint st1 es1 = Result (Inr ms) st' rest \<and>
       ms_MintAuthority ms = None \<and> ms_FreezeAuthority ms = None \<and>
       unat (ms_Supply ms) = unat (sp_Supply s) * 10 ^ unat (sp_Decimals s))"
proof -
  from assms have "proceeds (Mint k payer pinned wallet s st es)" by simp
  then obtain st0 es0 st1 es1 ixs where net: "resolveNetwork k pinned st es = Result () st0 es0"
    and t: "checkTreasurySpendable k (treasury payer s) st0 es0 = Result None st1 es1"
    and run: "Mint k payer pinned wallet s st es =
      submit_mint k payer wallet s (Evaluate (mint_plan k payer (eng_net st0) s)) ixs st1 es1"
    by (rule Mint_submits)
  obtain u v where "es = u @ es0" "es0 = v @ es1"
    using replayable.rest_suffix [OF replayable_resolveNetwork net] replayable.rest_suffix [OF replayable_checks(1) t] by blast
  moreover from submit_mint_verified [of k payer wallet s _ ixs st1 es1 mint d st' rest] run assms
  obtain before cx st2 es2 ms where "mint = fst wallet" "es1 = before @ es2" "Verify cx k mint st2 es2 = Result (Inr ms) st' rest"
    "SupplyFixed ms" "\<not> Freezable ms" "checkSupply ms s = None" by metis
  ultimately have "es = (u @ v @ before) @ es2 \<and> mint = fst wallet \<and> Verify cx k mint st2 es2 = Result (Inr ms) st' rest \<and>
      ms_MintAuthority ms = None \<and> ms_FreezeAuthority ms = None \<and>
      unat (ms_Supply ms) = unat (sp_Supply s) * 10 ^ unat (sp_Decimals s)"
    by (simp add: SupplyFixed_def Freezable_def checkSupply_exact)
  then show ?thesis by blast
qed

text \<open>The read behind a verification.\<close>

lemma Verify_read:
  assumes "Verify cx k mint st es = Result res st' rest"
  obtains info where "CallForInto cx (sdk_rpc k) (GetAccountInfo mint CommitmentFinalized) (dec_account k) st es = Result info st' rest"
    "res = judge_mint k mint info"
  using assms by (auto simp: Verify_def andThen_Result return_def)

lemma Mint_read:
  assumes "Mint k payer pinned wallet s st es = Result (mint, d, None) st' rest"
  shows "mint = fst wallet \<and>
    (\<exists>before cx st1 es1 a. es = before @ es1 \<and> finished_mint k s a \<and>
       CallForInto cx (sdk_rpc k) (GetAccountInfo mint CommitmentFinalized) (dec_account k) st1 es1 = Result (Inr (Some a)) st' rest)"
proof -
  from Mint_verified [OF assms] obtain before cx st1 es1 ms where
    m: "mint = fst wallet" "es = before @ es1" "Verify cx k mint st1 es1 = Result (Inr ms) st' rest"
      "SupplyFixed ms" "\<not> Freezable ms" "checkSupply ms s = None"
    by (auto simp: SupplyFixed_def Freezable_def checkSupply_exact)
  from m(3) obtain info where
    info: "CallForInto cx (sdk_rpc k) (GetAccountInfo mint CommitmentFinalized) (dec_account k) st1 es1 = Result info st' rest"
      "judge_mint k mint info = Inr ms"
    by (rule Verify_read) simp
  with m(4-6) obtain a where "info = Inr (Some a)" "finished_mint k s a" using judged_finished by blast
  with m(1,2) info(1) show ?thesis by blast
qed

lemma Mint_guarded:
  assumes "Mint k payer pinned wallet s st es = Blocked w" and "sign_wait w"
  shows "\<exists>net ixs. harmless (mint_plan k payer net s) \<and> buildMint k payer (fst wallet) (treasury payer s) s = Inr ixs \<and>
    sign_request_for k payer ixs w"
proof -
  from assms have "proceeds (Mint k payer pinned wallet s st es)" by simp
  then obtain st0 :: engine_state and st1 es1 ixs where "Guard (mint_plan k payer (eng_net st0) s) = None"
    "buildMint k payer (fst wallet) (treasury payer s) s = Inr ixs"
    "Mint k payer pinned wallet s st es =
      submit_mint k payer wallet s (Evaluate (mint_plan k payer (eng_net st0) s)) ixs st1 es1"
    by (rule Mint_submits)
  moreover from this assms have "sign_request_for k payer ixs w" using submit_mint_asks unfolding asks_def by metis
  ultimately show ?thesis by (auto simp: Guard_harmless)
qed

section \<open>A sample mint\<close>

definition sample_spec :: MintSpec where
  "sample_spec = \<lparr>sp_Name = ''acme'', sp_Symbol = ''acm'', sp_MetadataURI = ''u'', sp_Decimals = 2, sp_Supply = 10,
     sp_Treasury = replicate 32 0\<rparr>"

definition sample_payer :: pubkey where "sample_payer = replicate 32 2"

definition sample_state :: engine_state where "sample_state = \<lparr>rpc_id = 0, eng_net = Mainnet\<rparr>"

abbreviation sample_run :: "mint_outcome engine_action" where
  "sample_run \<equiv> Mint sample_sdk sample_payer False (sample_mint, [1]) sample_spec"

text \<open>The genesis hash, the treasury and the blockhash; then the signature; then the rest.\<close>

definition sample_prefix :: "event list" where
  "sample_prefix = answer 1 @ answer 0 @ answer 0"

definition sample_rest :: "event list" where
  "sample_rest = answer 0 @ answer 0 @ Tick # answer 1 @ answer 1"

lemma sample_guard: "Guard (mint_plan sample_sdk sample_payer Devnet sample_spec) = None"
proof -
  have brands: "brand_of s = None" if "list_all canonical_char s" "normalizedBrands s = None" for s
    using that by (simp add: brand_of_def normalize_self Let_def)
  have "ImpersonationTarget ''acme'' ''acm'' = []"
    unfolding ImpersonationTarget_def
    by (simp add: brands canonical_char_def normalizedBrands_def normalized_table)
  then show ?thesis
    unfolding Guard_harmless harmless_def
    by (simp add: mint_plan_def zero_plan_def sample_spec_def Live_def network_defs TrimSpace_def trim_codes_def trim_with.simps)
qed

lemma sample_fields:
  "dec_genesis sample_sdk raw = Inr (if body_is 1 raw then devnetGenesis else [])"
  "dec_account sample_sdk raw = (if body_is 1 raw
     then Inr (Some \<lparr>ai_Owner = replicate 32 6, ai_Data = replicate 82 0\<rparr>) else Inl ErrNotFound)"
  "dec_blockhash sample_sdk raw = Inr (Some (replicate 32 9, 100))"
  "dec_send sample_sdk raw = Inr ()"
  "key_Sign sample_sdk priv msg = Inr (replicate 64 8)"
  "NewTransaction sample_sdk ixs bh payer = (if payer = sample_mint then Inl ''no'' else
     Inr \<lparr>tx_Keys = [payer, sample_mint], tx_NumSigs = 2, tx_Message = Inr (concat (map si_Data ixs))\<rparr>)"
  by (simp_all add: sample_sdk_def)

lemma sample_sign:
  "roundTrip_Sign p msg st (answer b @ es) = Result (Inr zero_signature) st es"
  "roundTrip_Sign p msg st [] = Blocked (WaitSend (SignCall \<lparr>sr_Pubkey = p, sr_Message = msg\<rparr>) NoCtx)"
  by (simp_all add: roundTrip_Sign_def Let_def andThen_def await_def possible_def return_def answer_def)

lemma sample_call_last:
  "CallForInto cx (sdk_rpc sample_sdk) method dec st (answer b) =
     Result (dec (Some (JString (string_of_bytes [b])))) (st\<lparr>rpc_id := rpc_id st + 1\<rparr>) []"
  by (rule sample_call [of _ _ _ _ _ "[]", simplified])

lemma sample_net: "resolveNetwork sample_sdk False st (answer 1 @ es) = Result () (st\<lparr>rpc_id := rpc_id st + 1, eng_net := Devnet\<rparr>) es"
proof -
  have "ClassifyGenesis devnetGenesis = Devnet"
    by (simp add: ClassifyGenesis_def devnetGenesis_def TrimSpace_def trim_codes_def trim_with.simps space_prefix_def
        space_encodings_def char_of_def bit_0)
  then show ?thesis by (simp add: resolveNetwork_def andThen_def sample_call sample_fields set_net_def)
qed

lemma sample_treasury:
  "checkTreasurySpendable sample_sdk t st (answer 0 @ es) = Result None (st\<lparr>rpc_id := rpc_id st + 1\<rparr>) es"
  by (simp add: checkTreasurySpendable_def andThen_def sample_call sample_fields judge_treasury_def return_def)

lemma sample_build: "\<exists>ixs. buildMint sample_sdk sample_payer sample_mint t sample_spec = Inr ixs"
proof -
  have "scaledAmount 10 2 = Some 1000" by (simp add: scaledAmount_exact)
  then show ?thesis
    by (simp add: buildMint_def metadataPDA_def sample_sdk_def sample_spec_def sample_ix_def)
qed

lemma sample_Mint:
  "sample_run sample_state (answer 1 @ answer 0 @ es) =
     submit_mint sample_sdk sample_payer (sample_mint, [1]) sample_spec
       (Evaluate (mint_plan sample_sdk sample_payer Devnet sample_spec))
       (projr (buildMint sample_sdk sample_payer sample_mint sample_payer sample_spec))
       \<lparr>rpc_id = 2, eng_net = Devnet\<rparr> es"
proof -
  have fits: "scaledAmount 10 2 = Some 1000" by (simp add: scaledAmount_exact)
  have valid: "validateMetadata (sp_Name sample_spec) (sp_Symbol sample_spec) (sp_MetadataURI sample_spec) = None"
    by (simp add: validateMetadata_def sample_spec_def maxNameLen_def maxSymbolLen_def maxURILen_def)
  have t: "treasury sample_payer sample_spec = sample_payer"
    by (simp add: treasury_def sample_spec_def zero_pubkey_def)
  obtain ixs where "buildMint sample_sdk sample_payer sample_mint sample_payer sample_spec = Inr ixs"
    using sample_build by blast
  moreover have "sp_Supply sample_spec = 10" "sp_Decimals sample_spec = 2" by (simp_all add: sample_spec_def)
  ultimately show ?thesis
    unfolding Mint_def Let_def
    by (simp add: valid fits t andThen_def sample_net get_net_def sample_guard sample_treasury sample_state_def)
qed

lemma sample_first: "sample_run sample_state [] = Blocked (WaitSend (FetchCall \<lparr>fr_Body = [1]\<rparr>) SessionCtx)"
proof -
  have "validateMetadata (sp_Name sample_spec) (sp_Symbol sample_spec) (sp_MetadataURI sample_spec) = None"
    "sp_Supply sample_spec \<noteq> 0"
    by (simp_all add: validateMetadata_def sample_spec_def maxNameLen_def maxSymbolLen_def maxURILen_def)
  then show ?thesis
    by (simp add: Mint_def resolveNetwork_def CallForInto_def next_id_def roundTrip_def await_def andThen_def Let_def
        sample_sdk_def sample_state_def)
qed

lemma sample_call_first:
  "CallForInto cx (sdk_rpc sample_sdk) rpc dec st [] =
     Blocked (WaitSend (FetchCall \<lparr>fr_Body = [of_nat (unat ((rpc_id st + 1) AND 0x7fffffff))]\<rparr>) cx)"
  by (simp add: CallForInto_def next_id_def roundTrip_def await_def andThen_def Let_def sample_sdk_def)

lemma sample_second: "sample_run sample_state (answer 1) = Blocked (WaitSend (FetchCall \<lparr>fr_Body = [2]\<rparr>) SessionCtx)"
proof -
  have fits: "scaledAmount 10 2 = Some 1000" by (simp add: scaledAmount_exact)
  have valid: "validateMetadata (sp_Name sample_spec) (sp_Symbol sample_spec) (sp_MetadataURI sample_spec) = None"
    "sp_Supply sample_spec = 10" "sp_Decimals sample_spec = 2"
    by (simp_all add: validateMetadata_def sample_spec_def maxNameLen_def maxSymbolLen_def maxURILen_def)
  have "resolveNetwork sample_sdk False sample_state (answer 1) = Result () \<lparr>rpc_id = 1, eng_net = Devnet\<rparr> []"
    using sample_net [of sample_state "[]"] by (simp add: sample_state_def)
  then show ?thesis
    unfolding Mint_def Let_def
    by (simp add: valid fits andThen_def get_net_def sample_guard checkTreasurySpendable_def sample_call_first)
qed

lemma sample_third: "sample_run sample_state (answer 1 @ answer 0) = Blocked (WaitSend (FetchCall \<lparr>fr_Body = [3]\<rparr>) OpCtx)"
  using sample_Mint [of "[]"] by (simp add: submit_mint_def send_def andThen_def sample_call_first)

lemma sample_asks:
  "\<exists>msg. sample_run sample_state sample_prefix = Blocked (WaitSend (SignCall \<lparr>sr_Pubkey = sample_payer, sr_Message = msg\<rparr>) NoCtx)"
  unfolding sample_prefix_def sample_Mint submit_mint_def send_def
  by (simp add: andThen_def sample_call_last sample_fields sample_payer_def sample_mint_def signer_Sign_def signer_PublicKey_def
      sample_sign numeral_2_eq_2)

lemma sample_succeeds:
  "\<exists>d st'. sample_run sample_state (sample_prefix @ sample_rest) = Result (sample_mint, d, None) st' []"
proof -
  have fits: "scaledAmount 10 2 = Some 1000" by (simp add: scaledAmount_exact)
  let ?es = "Tick # answer 1 @ answer 1"
  have confirm: "confirmOrExpire sample_sdk sig lv c st ?es = Result None (st\<lparr>rpc_id := rpc_id st + 1\<rparr>) (answer 1)" for sig lv c st
    using confirm_round(2) [OF sample_poll_done [of sig lv c st "answer 1"]] .
  have verify: "\<exists>st'. verifySafe sample_sdk m sample_spec st (answer 1) = Result None st' []" for m st
    by (simp add: verifySafe_def Verify_def andThen_def sample_call_last sample_fields return_def judge_mint_def)
      (simp add: sample_sdk_def token2022ProgramID_def mintAccountSize_def Freezable_def SupplyFixed_def checkSupply_def
        sample_spec_def fits)
  show ?thesis
    unfolding sample_prefix_def sample_rest_def append.assoc sample_Mint submit_mint_def send_def
    using verify [of sample_mint "\<lparr>rpc_id = 5, eng_net = Devnet\<rparr>"]
    by (auto simp add: andThen_def sample_call sample_fields sample_payer_def sample_mint_def signer_Sign_def signer_PublicKey_def
      sample_sign numeral_2_eq_2 return_def confirm conclude_send_def)
qed

section \<open>Properties\<close>

text \<open>
  C3: a mint is reported as a success only on the chain's word. If \<open>Mint\<close> returns without an
  error, then the address it returns is that of the fresh key, and the last thing it did was
  to read that account at finalized commitment and find a finished mint: an initialised mint
  account of the token program, without a mint authority, without a freeze authority, and with
  exactly the requested supply times ten to the number of decimals. This covers both ways to
  succeed, the confirmed transaction and the one whose confirmation was lost.
\<close>

theorem mint_success_is_on_chain:
  assumes "Mint k payer pinned wallet s st es = Result (mint, d, None) st' rest"
  shows "mint = fst wallet \<and>
    (\<exists>before cx st1 es1 a m. es = before @ es1 \<and>
       CallForInto cx (sdk_rpc k) (GetAccountInfo mint CommitmentFinalized) (dec_account k) st1 es1 = Result (Inr (Some a)) st' rest \<and>
       ai_Owner a = tokenProgramID k \<and> length (ai_Data a) = 82 \<and> decode_mint k (ai_Data a) = Inr m \<and> ma_IsInitialized m \<and>
       ma_MintAuthority m = None \<and> ma_FreezeAuthority m = None \<and>
       unat (ma_Supply m) = unat (sp_Supply s) * 10 ^ unat (sp_Decimals s))"
  using Mint_read [OF assms] unfolding finished_mint_def by blast

theorem mint_success_is_on_chain_witness:
  "\<exists>d st' before cx st1 es1 a m.
     sample_run sample_state (sample_prefix @ sample_rest) = Result (sample_mint, d, None) st' [] \<and>
     sample_prefix @ sample_rest = before @ es1 \<and>
     CallForInto cx (sdk_rpc sample_sdk) (GetAccountInfo sample_mint CommitmentFinalized) (dec_account sample_sdk) st1 es1 =
       Result (Inr (Some a)) st' [] \<and>
     decode_mint sample_sdk (ai_Data a) = Inr m \<and> ma_MintAuthority m = None \<and> unat (ma_Supply m) = 1000"
proof -
  obtain d st' where run: "sample_run sample_state (sample_prefix @ sample_rest) = Result (sample_mint, d, None) st' []"
    using sample_succeeds by blast
  moreover have "unat (sp_Supply sample_spec) * 10 ^ unat (sp_Decimals sample_spec) = 1000" by (simp add: sample_spec_def)
  ultimately show ?thesis using mint_success_is_on_chain [OF run] by metis
qed

text \<open>
  C2: nothing is signed that the policy has not passed. Whenever a mint asks its host for a
  signature, the metadata is within its limits, the supply is positive and its scaled amount
  fits into 64 bits, the safety policy has passed the plan on the network the engine is on,
  the treasury has been read from the chain and is not the account of a multisig's
  configuration, and what is to be signed, by the payer's key, is the message compiled from
  exactly the five instructions of \<open>buildMint\<close>.
\<close>

theorem mint_signs_only_guarded:
  assumes "Mint k payer pinned wallet s st es = Blocked w" and "sign_wait w"
  shows "sp_Name s \<noteq> [] \<and> length (sp_Name s) \<le> 32 \<and> sp_Symbol s \<noteq> [] \<and> length (sp_Symbol s) \<le> 10 \<and>
    sp_MetadataURI s \<noteq> [] \<and> length (sp_MetadataURI s) \<le> 200 \<and>
    0 < sp_Supply s \<and> unat (sp_Supply s) * 10 ^ unat (sp_Decimals s) < 2 ^ 64 \<and>
    (\<exists>st0 es0 st1 es1 ixs. resolveNetwork k pinned st es = Result () st0 es0 \<and>
      harmless (mint_plan k payer (eng_net st0) s) \<and>
      checkTreasurySpendable k (treasury payer s) st0 es0 = Result None st1 es1 \<and>
      buildMint k payer (fst wallet) (treasury payer s) s = Inr ixs \<and> sign_request_for k payer ixs w)"
proof -
  from assms have "proceeds (Mint k payer pinned wallet s st es)" by simp
  then obtain st0 es0 st1 es1 ixs where
    valid: "validateMetadata (sp_Name s) (sp_Symbol s) (sp_MetadataURI s) = None" "sp_Supply s \<noteq> 0"
    and net: "resolveNetwork k pinned st es = Result () st0 es0"
    and fits: "scaledAmount (sp_Supply s) (sp_Decimals s) \<noteq> None"
    and guard: "Guard (mint_plan k payer (eng_net st0) s) = None"
    and t: "checkTreasurySpendable k (treasury payer s) st0 es0 = Result None st1 es1"
    and build: "buildMint k payer (fst wallet) (treasury payer s) s = Inr ixs"
    and run: "Mint k payer pinned wallet s st es =
      submit_mint k payer wallet s (Evaluate (mint_plan k payer (eng_net st0) s)) ixs st1 es1"
    by (rule Mint_submits)
  from run assms have "sign_request_for k payer ixs w" using submit_mint_asks unfolding asks_def by metis
  moreover from fits have "unat (sp_Supply s) * 10 ^ unat (sp_Decimals s) < 2 ^ 64"
    using scaledAmount_exact by (metis not_Some_eq)
  moreover note net t build
  ultimately show ?thesis
    using valid guard
    by (auto simp: validateMetadata_def maxNameLen_def maxSymbolLen_def maxURILen_def Guard_harmless word_neq_0_conv
        split: if_splits)
qed

theorem mint_signs_only_guarded_witness:
  "\<exists>w ixs. sample_run sample_state sample_prefix = Blocked w \<and> sign_request_for sample_sdk sample_payer ixs w"
proof -
  obtain msg where run: "sample_run sample_state sample_prefix =
      Blocked (WaitSend (SignCall \<lparr>sr_Pubkey = sample_payer, sr_Message = msg\<rparr>) NoCtx)"
    using sample_asks by blast
  with mint_signs_only_guarded [OF run] show ?thesis by (metis fetches_do_not_sign(4))
qed

text \<open>
  C16: the whole supply goes into the signing key only on a proven test cluster. When the
  treasury is the payer itself, a signature is asked for only if the caller pinned a network
  that is not live, or the engine read, as the first thing in the run, a genesis hash that is
  devnet's or testnet's up to white space. An unreadable answer never suffices.
\<close>

theorem hot_treasury_needs_test_cluster:
  assumes "Mint k payer pinned wallet s st es = Blocked w" and "sign_wait w" and "treasury payer s = payer"
  shows "if pinned then \<not> Live (eng_net st)
    else \<exists>h st0 rest. CallForInto SessionCtx (sdk_rpc k) GetGenesisHash (dec_genesis k) st es = Result (Inr h) st0 rest \<and>
      TrimSpace h \<in> {devnetGenesis, testnetGenesis}"
proof -
  from assms have "proceeds (Mint k payer pinned wallet s st es)" by simp
  then obtain st0 es0 where net: "resolveNetwork k pinned st es = Result () st0 es0"
    and guard: "Guard (mint_plan k payer (eng_net st0) s) = None"
    by (rule Mint_submits)
  from guard assms(3) have test: "\<not> Live (eng_net st0)"
    by (simp add: Guard_harmless harmless_def mint_plan_def)
  show ?thesis
  proof (cases pinned)
    case True
    with net resolveNetwork_pinned have "st0 = st" by metis
    with True test show ?thesis by simp
  next
    case False
    with net have "resolveNetwork k False st es = Result () st0 es0" by simp
    then show ?thesis
    proof (cases rule: resolveNetwork_asked)
      case unread
      with test show ?thesis by (simp add: Live_def network_defs)
    next
      case (read h st1)
      with test False Live_ClassifyGenesis show ?thesis by auto
    qed
  qed
qed

theorem hot_treasury_needs_test_cluster_witness:
  "\<exists>w h st0 rest. sample_run sample_state sample_prefix = Blocked w \<and> sign_wait w \<and>
     CallForInto SessionCtx (sdk_rpc sample_sdk) GetGenesisHash (dec_genesis sample_sdk) sample_state sample_prefix = Result (Inr h) st0 rest \<and>
     TrimSpace h \<in> {devnetGenesis, testnetGenesis}"
proof -
  obtain msg where run: "sample_run sample_state sample_prefix =
      Blocked (WaitSend (SignCall \<lparr>sr_Pubkey = sample_payer, sr_Message = msg\<rparr>) NoCtx)"
    using sample_asks by blast
  have "treasury sample_payer sample_spec = sample_payer" by (simp add: treasury_def sample_spec_def zero_pubkey_def)
  with hot_treasury_needs_test_cluster [OF run] run show ?thesis by auto
qed

text \<open>
  C19: one mint, one signature. Given a client library that lists every account of a compiled
  transaction once, no run of \<open>Mint\<close> asks its host for a second signature, however the host
  answers: if a run has asked for one, no continuation of it stops at another request.
\<close>

theorem mint_signs_once:
  assumes "compiles k" and "Mint k payer pinned wallet s st p = Blocked w" and "sign_wait w"
    and "Mint k payer pinned wallet s st (p @ q) = Blocked w'" and "sign_wait w'"
  shows "q = []"
proof -
  have "signs_once (Mint k payer pinned wallet s)"
    unfolding Mint_def Let_def
    by (intro signs_once_cases signs_once_late no_sign_once asks_return replayable_resolveNetwork readers_no_sign
        replayable_checks checks_no_sign submit_mint_once assms(1))
  with assms show ?thesis by (auto simp: signs_once_def)
qed

theorem mint_signs_once_witness:
  "compiles sample_sdk \<and> (\<exists>w. sample_run sample_state sample_prefix = Blocked w \<and> sign_wait w \<and>
     (\<forall>q. \<not> (q \<noteq> [] \<and> (\<exists>w'. sample_run sample_state (sample_prefix @ q) = Blocked w' \<and> sign_wait w'))))"
proof -
  obtain w where run: "sample_run sample_state sample_prefix = Blocked w" "sign_wait w" using sample_asks by fastforce
  have "compiles sample_sdk" unfolding compiles_def sample_fields(6) by auto
  with run mint_signs_once show ?thesis by blast
qed

text \<open>
  A request the engine can judge alone never reaches the host. With a name, symbol or URI
  that is empty or too long, or with the supply zero, \<open>Mint\<close> returns an error at once, without
  waiting for anything and without touching its state.
\<close>

theorem bad_request_is_refused_locally:
  assumes "sp_Name s = [] \<or> 32 < length (sp_Name s) \<or> sp_Symbol s = [] \<or> 10 < length (sp_Symbol s) \<or>
    sp_MetadataURI s = [] \<or> 200 < length (sp_MetadataURI s) \<or> sp_Supply s = 0"
  shows "\<exists>e. Mint k payer pinned wallet s st es = Result (zero_pubkey, [], Some e) st es"
proof (cases "validateMetadata (sp_Name s) (sp_Symbol s) (sp_MetadataURI s)")
  case None
  with assms have "sp_Supply s = 0"
    by (auto simp: validateMetadata_def maxNameLen_def maxSymbolLen_def maxURILen_def split: if_splits)
  with None show ?thesis by (simp add: Mint_def return_def)
qed (simp add: Mint_def return_def)

theorem bad_request_is_refused_locally_witness:
  "\<exists>e. Mint sample_sdk sample_payer False (sample_mint, []) (sample_spec\<lparr>sp_Supply := 0\<rparr>) sample_state [] =
     Result (zero_pubkey, [], Some e) sample_state []"
  by (rule bad_request_is_refused_locally) simp

end
