(* ===== verification/Token_Session.thy ===== *)
theory Token_Session
  imports Token_Mint
begin

text \<open>
  Resumable sessions (\<open>src/token/session.go\<close>, and the construction of an engine in
  \<open>src/token/engine.go\<close>): an engine on its own goroutine, and a driver that takes its calls one at
  a time and delivers the answers.

  A session's state is where both goroutines are: the engine by the history of what happened
  at its waiting points (\<open>Host_Calls\<close>), the driver by the statement it is blocked at. The
  channels \<open>reqCh\<close> and \<open>repCh\<close> are unbuffered, so a call or a reply crosses only when both sides
  are there; \<open>doneCh\<close> has room for the one outcome. \<open>works\<close> are the steps the two goroutines and
  the clock take, \<open>drifts\<close> adds the end of a context and a deadline that passes, and
  \<open>session_step\<close> the driver's calls of \<open>Advance\<close> and \<open>Close\<close>.

  The deadlines of \<open>Mint\<close> are not timed here: a deadline may pass at any moment, and then every wait
  that watches its context may end. A panic of the engine, which would end the whole process, is
  the outcome \<open>Panicked\<close>.
\<close>

section \<open>Engines\<close>

text \<open>The network of an engine and whether it was named, with the transport's counter at zero.\<close>

type_synonym engine_config = "engine_state \<times> bool"

definition WithNetwork :: "Network \<Rightarrow> engine_config \<Rightarrow> engine_config" where
  "WithNetwork n e = ((fst e)\<lparr>eng_net := n\<rparr>, True)"

definition NewEngine :: "Network list \<Rightarrow> engine_config" where
  "NewEngine opts = fold WithNetwork opts (\<lparr>rpc_id = 0, eng_net = Mainnet\<rparr>, False)"

section \<open>The session\<close>

type_synonym 'a run = "event list \<Rightarrow> ('a, engine_state) outcome"

datatype call_point = Idle | Parking | Sending HostReply

record 'a session =
  s_run :: "'a run"
  s_history :: "event list"
  s_driver :: call_point
  s_pending :: "HostCall option"
  s_outcome :: "'a option"
  s_cancelled :: bool
  s_op_expired :: bool
  s_check_expired :: bool

abbreviation engine_at :: "'a session \<Rightarrow> ('a, engine_state) outcome" where
  "engine_at s \<equiv> s_run s (s_history s)"

definition newSession :: "'a run \<Rightarrow> 'a session" where
  "newSession run = \<lparr>s_run = run, s_history = [], s_driver = Idle, s_pending = None, s_outcome = None,
     s_cancelled = False, s_op_expired = False, s_check_expired = False\<rparr>"

text \<open>\<open>go func() { ... }(); s.park()\<close>\<close>

definition launch :: "'a session \<Rightarrow> 'a session" where
  "launch s = s\<lparr>s_driver := Parking\<rparr>"

text \<open>\<open>None\<close>: neither case of the \<open>select\<close> is ready.\<close>

definition park :: "'a session \<Rightarrow> 'a session option" where
  "park s =
     (case engine_at s of
        Blocked (WaitSend req _) \<Rightarrow> Some (s\<lparr>s_pending := Some req, s_history := s_history s @ [Taken], s_driver := Idle\<rparr>)
      | Result out _ _ \<Rightarrow> Some (s\<lparr>s_outcome := Some out, s_cancelled := True, s_driver := Idle\<rparr>)
      | _ \<Rightarrow> None)"

definition Pending :: "'a session \<Rightarrow> HostCall option" where
  "Pending s = s_pending s"

definition Result_of :: "'a session \<Rightarrow> 'a option" where
  "Result_of s = s_outcome s"

datatype session_error = errSessionDone | errSessionAdvance

text \<open>\<open>Advance\<close> up to its send on \<open>repCh\<close>; \<open>deliver\<close> is the send, after which it parks.\<close>

definition Advance :: "HostReply \<Rightarrow> 'a session \<Rightarrow> session_error + 'a session" where
  "Advance r s =
     (if s_outcome s \<noteq> None then Inl errSessionDone
      else if s_pending s = None then Inl errSessionAdvance
      else Inr (s\<lparr>s_pending := None, s_driver := Sending r\<rparr>))"

definition deliver :: "HostReply \<Rightarrow> 'a session \<Rightarrow> 'a session option" where
  "deliver r s =
     (case engine_at s of
        Blocked (WaitReply _ _) \<Rightarrow> Some (s\<lparr>s_history := s_history s @ [Reply r], s_driver := Parking\<rparr>)
      | _ \<Rightarrow> None)"

definition Close :: "'a session \<Rightarrow> 'a session" where
  "Close s = s\<lparr>s_cancelled := True\<rparr>"

inductive works :: "'a session \<Rightarrow> 'a session \<Rightarrow> bool" where
  parks: "s_driver s = Parking \<Longrightarrow> park s = Some s' \<Longrightarrow> works s s'"
| delivers: "s_driver s = Sending r \<Longrightarrow> deliver r s = Some s' \<Longrightarrow> works s s'"
| ticks: "engine_at s = Blocked WaitTick \<Longrightarrow> works s (s\<lparr>s_history := s_history s @ [Tick]\<rparr>)"

text \<open>
  When a context has ended: the session's by cancellation, the submission's by that or by its
  deadline, and that of the last look by its deadline alone (\<open>context.WithoutCancel\<close>).
\<close>

fun wait_ctx :: "wait \<Rightarrow> go_ctx" where
  "wait_ctx (WaitSend _ cx) = cx"
| "wait_ctx (WaitReply _ cx) = cx"
| "wait_ctx WaitTick = OpCtx"

definition over :: "'a session \<Rightarrow> go_ctx \<Rightarrow> bool" where
  "over s cx =
     (case cx of
        NoCtx \<Rightarrow> False
      | SessionCtx \<Rightarrow> s_cancelled s
      | OpCtx \<Rightarrow> s_cancelled s \<or> s_op_expired s
      | CheckCtx \<Rightarrow> s_check_expired s)"

lemma over_possible: "over s (wait_ctx w) \<Longrightarrow> possible w CtxDone"
  by (cases w) (auto simp: over_def)

inductive drifts :: "'a session \<Rightarrow> 'a session \<Rightarrow> bool" where
  work: "works s s' \<Longrightarrow> drifts s s'"
| ctx_ends: "engine_at s = Blocked w \<Longrightarrow> over s (wait_ctx w) \<Longrightarrow> drifts s (s\<lparr>s_history := s_history s @ [CtxDone]\<rparr>)"
| op_expires: "drifts s (s\<lparr>s_op_expired := True\<rparr>)"
| check_expires: "drifts s (s\<lparr>s_check_expired := True\<rparr>)"

inductive session_step :: "'a session \<Rightarrow> 'a session \<Rightarrow> bool" where
  drift: "drifts s s' \<Longrightarrow> session_step s s'"
| advances: "s_driver s = Idle \<Longrightarrow> Advance r s = Inr s' \<Longrightarrow> session_step s s'"
| closes: "s_driver s = Idle \<Longrightarrow> session_step s (Close s)"

inductive_cases worksE: "works s s'"
inductive_cases driftsE: "drifts s s'"

section \<open>Starting a session\<close>

record Outcome =
  out_Mint :: pubkey
  out_Disclosures :: "Violation list"
  out_Err :: "mint_error option"

record VerifyOutcome =
  vo_State :: MintState
  vo_Err :: "verify_error option"

definition zero_state :: MintState where
  "zero_state = \<lparr>ms_Mint = zero_pubkey, ms_Decimals = 0, ms_Supply = 0, ms_MintAuthority = None, ms_FreezeAuthority = None\<rparr>"

definition verify_lifecycle :: "sdk \<Rightarrow> pubkey \<Rightarrow> VerifyOutcome engine_action" where
  "verify_lifecycle k mint =
     andThen (Verify SessionCtx k mint) (\<lambda>r. return (case r of
         Inl err \<Rightarrow> \<lparr>vo_State = zero_state, vo_Err = Some err\<rparr>
       | Inr st \<Rightarrow> \<lparr>vo_State = st, vo_Err = None\<rparr>))"

definition StartVerify :: "sdk \<Rightarrow> pubkey \<Rightarrow> VerifyOutcome session" where
  "StartVerify k mint = launch (newSession (verify_lifecycle k mint (fst (NewEngine []))))"

datatype MintOption = WithClock | OnNetwork Network

text \<open>The engine options a list of mint options collects; the clock only sets the pace.\<close>

fun engine_options :: "MintOption list \<Rightarrow> Network list" where
  "engine_options [] = []"
| "engine_options (WithClock # opts) = engine_options opts"
| "engine_options (OnNetwork n # opts) = n # engine_options opts"

definition mint_lifecycle :: "sdk \<Rightarrow> pubkey \<Rightarrow> bool \<Rightarrow> pubkey \<times> bytes \<Rightarrow> MintSpec \<Rightarrow> Outcome engine_action" where
  "mint_lifecycle k payer pinned wallet spec =
     andThen (Mint k payer pinned wallet spec) (\<lambda>(mint, disc, err).
       return \<lparr>out_Mint = mint, out_Disclosures = disc, out_Err = err\<rparr>)"

definition StartMint :: "sdk \<Rightarrow> pubkey \<Rightarrow> pubkey \<times> bytes \<Rightarrow> MintSpec \<Rightarrow> MintOption list \<Rightarrow> Outcome session" where
  "StartMint k payer wallet spec opts =
     (let (e, pinned) = NewEngine (engine_options opts) in
      launch (newSession (mint_lifecycle k payer pinned wallet spec e)))"

lemma drifts_steps: "drifts\<^sup>*\<^sup>* s s' \<Longrightarrow> session_step\<^sup>*\<^sup>* s s'"
  by (induction rule: rtranclp_induct) (auto intro: rtranclp.rtrancl_into_rtrancl session_step.drift)

section \<open>What a session needs of its engine\<close>

definition awaiting :: "('a, 's) outcome \<Rightarrow> bool" where
  "awaiting out \<longleftrightarrow> (\<exists>w. out = Blocked w \<and> awaits_reply w)"

lemma awaiting_simps [simp]:
  "awaiting (Blocked w) \<longleftrightarrow> awaits_reply w" "\<not> awaiting (Result x st es)" "\<not> awaiting Impossible"
  by (simp_all add: awaiting_def)

definition settled :: "('a, 's) outcome \<Rightarrow> bool" where
  "settled out \<longleftrightarrow> out \<noteq> Impossible \<and> (\<forall>x st' r. out = Result x st' r \<longrightarrow> r = [])"

text \<open>The call was handed out at some point of the history.\<close>

definition asked :: "'a run \<Rightarrow> event list \<Rightarrow> HostCall \<Rightarrow> bool" where
  "asked run es c \<longleftrightarrow> (\<exists>p q b. es = p @ Taken # q \<and> run p = Blocked (WaitSend c b))"

lemma asked_more [simp]: "asked run es c \<Longrightarrow> asked run (es @ es') c"
  unfolding asked_def by force

lemma asked_now [simp]: "run es = Blocked (WaitSend c b) \<Longrightarrow> asked run (es @ [Taken]) c"
  unfolding asked_def by blast

definition session_inv :: "'a session \<Rightarrow> bool" where
  "session_inv s \<longleftrightarrow>
     settled (engine_at s) \<and>
     (\<forall>x. s_outcome s = Some x \<longrightarrow> (\<exists>st'. engine_at s = Result x st' [])) \<and>
     (s_driver s = Idle \<longleftrightarrow> s_pending s \<noteq> None \<or> s_outcome s \<noteq> None) \<and>
     (s_pending s = None \<or> s_outcome s = None) \<and>
     (\<forall>c. s_pending s = Some c \<longrightarrow> asked (s_run s) (s_history s) c) \<and>
     (CtxDone \<notin> set (s_history s) \<longrightarrow>
        (\<forall>c. s_pending s = Some c \<longrightarrow> (\<exists>b. engine_at s = Blocked (WaitReply c b))) \<and>
        (awaiting (engine_at s) \<longleftrightarrow> s_pending s \<noteq> None \<or> (\<exists>r. s_driver s = Sending r)))"

locale lifecycle =
  fixes run :: "'a run"
  assumes begins: "settled (run [])" "\<not> awaiting (run [])"
    and goes_on: "run es = Blocked w \<Longrightarrow> possible w e \<Longrightarrow> follows w e (run (es @ [e]))"
    and uses_all: "run es = Blocked w \<Longrightarrow> run (es @ [e]) = Result x st' r \<Longrightarrow> r = []"
    and was_waiting: "run (es @ [e]) = Blocked w \<or> run (es @ [e]) = Result x st' [] \<Longrightarrow>
      \<exists>w'. run es = Blocked w' \<and> possible w' e"
begin

lemma settled_step: "run es = Blocked w \<Longrightarrow> possible w e \<Longrightarrow> settled (run (es @ [e]))"
  using goes_on uses_all by (fastforce simp: settled_def follows_def split: if_splits)

lemma taken: "run es = Blocked (WaitSend c b) \<Longrightarrow> run (es @ [Taken]) = Blocked (WaitReply c b)"
  using goes_on [of es "WaitSend c b" Taken] by (auto simp: follows_def)

lemma not_awaiting: "run es = Blocked w \<Longrightarrow> possible w e \<Longrightarrow> e \<noteq> Taken \<Longrightarrow> \<not> awaiting (run (es @ [e]))"
  using goes_on by (fastforce simp: awaiting_def follows_def)

lemma inv_start: "session_inv (launch (newSession run))"
  using begins by (simp add: session_inv_def launch_def newSession_def)

lemma inv_works:
  assumes "s_run s = run" and "session_inv s" and "works s s'"
  shows "s_run s' = run \<and> session_inv s'"
  using assms(3)
proof cases
  case parks
  then show ?thesis
    using assms(1,2) taken settled_step
    by (auto simp: park_def session_inv_def settled_def split: outcome.splits wait.splits)
next
  case (delivers r)
  then show ?thesis
    using assms(1,2) settled_step [of "s_history s" _ "Reply r"] not_awaiting [of "s_history s" _ "Reply r"]
    by (auto simp: deliver_def session_inv_def split: outcome.splits wait.splits)
next
  case ticks
  then show ?thesis
    using assms(1,2) settled_step [of "s_history s" WaitTick Tick] not_awaiting [of "s_history s" WaitTick Tick]
    by (auto simp: session_inv_def)
qed

lemma inv_step:
  assumes "s_run s = run" and "session_inv s" and "session_step s s'"
  shows "s_run s' = run \<and> session_inv s'"
  using assms(3)
proof cases
  case drift
  then show ?thesis
  proof cases
    case work
    with assms(1,2) inv_works show ?thesis by blast
  next
    case (ctx_ends w)
    then show ?thesis
      using assms(1,2) settled_step [of "s_history s" w CtxDone] over_possible [of s w] by (auto simp: session_inv_def)
  qed (use assms(1,2) in \<open>simp_all add: session_inv_def\<close>)
qed (use assms(1,2) in \<open>auto simp: session_inv_def Advance_def Close_def split: if_splits\<close>)

lemma inv_reachable: "session_step\<^sup>*\<^sup>* (launch (newSession run)) s \<Longrightarrow> s_run s = run \<and> session_inv s"
proof (induction rule: rtranclp_induct)
  case base
  then show ?case using inv_start by (simp add: launch_def newSession_def)
qed (use inv_step in blast)

text \<open>
  A session that has come through a history with no context ending has its driver free when
  the engine awaits a reply, and parking otherwise. The engine, the channels and the clock take
  it through every event but a reply, the host through replies.
\<close>

definition on_course :: "'a session \<Rightarrow> event list \<Rightarrow> bool" where
  "on_course s es \<longleftrightarrow> s_run s = run \<and> session_inv s \<and> s_history s = es \<and>
     s_driver s = (if awaiting (run es) then Idle else Parking)"

lemma course_start: "on_course (launch (newSession run)) []"
  using inv_start begins(2) by (simp add: on_course_def launch_def newSession_def)

lemma course_work:
  assumes "on_course s es" and "run es = Blocked w" and "possible w e" and "e = Taken \<or> e = Tick"
  obtains s' where "works s s'" "on_course s' (es @ [e])"
proof -
  have s: "s_run s = run" "session_inv s" "s_history s = es"
    and driver: "s_driver s = (if awaiting (run es) then Idle else Parking)"
    using assms(1) by (auto simp: on_course_def)
  consider (send) c cx where "w = WaitSend c cx" "e = Taken" | (tick) "w = WaitTick" "e = Tick"
    using assms(3,4) by (cases w) (auto simp: possible_def)
  then show thesis
  proof cases
    case send
    let ?s = "s\<lparr>s_pending := Some c, s_history := es @ [Taken], s_driver := Idle\<rparr>"
    have "works s ?s" using send assms(2) driver s by (intro works.parks) (simp_all add: park_def)
    moreover have "awaiting (run (es @ [Taken]))" using send assms(2) taken by simp
    ultimately show thesis using that [of ?s] inv_works [OF s(1,2)] send by (auto simp: on_course_def)
  next
    case tick
    let ?s = "s\<lparr>s_history := es @ [Tick]\<rparr>"
    have "works s ?s" using works.ticks [of s] tick assms(2) s by simp
    moreover have "\<not> awaiting (run (es @ [Tick]))" using not_awaiting [OF assms(2,3)] tick by simp
    ultimately show thesis using that [of ?s] inv_works [OF s(1,2)] tick driver assms(2) by (auto simp: on_course_def)
  qed
qed

lemma course_pending:
  assumes "on_course s es" and "run es = Blocked (WaitReply c cx)" and "CtxDone \<notin> set es"
  shows "s_driver s = Idle" "s_pending s = Some c" "s_outcome s = None"
  using assms by (auto simp: on_course_def session_inv_def)

lemma course_answer:
  assumes "on_course s es" and "run es = Blocked (WaitReply c cx)" and "CtxDone \<notin> set es"
  obtains s1 s2 where "Advance hr s = Inr s1" "works s1 s2" "on_course s2 (es @ [Reply hr])"
proof -
  have s: "s_run s = run" "session_inv s" "s_history s = es" using assms(1) by (auto simp: on_course_def)
  let ?s1 = "s\<lparr>s_pending := None, s_driver := Sending hr\<rparr>"
  let ?s2 = "?s1\<lparr>s_history := es @ [Reply hr], s_driver := Parking\<rparr>"
  note idle = course_pending [OF assms]
  then have a: "Advance hr s = Inr ?s1" by (simp add: Advance_def)
  from inv_step [OF s(1,2) session_step.advances [OF idle(1) a]] have inv: "s_run ?s1 = run" "session_inv ?s1" by blast+
  have w: "works ?s1 ?s2" using assms(2) s by (intro works.delivers [of _ hr]) (simp_all add: deliver_def)
  moreover have "\<not> awaiting (run (es @ [Reply hr]))" using not_awaiting [OF assms(2)] by (simp add: possible_def)
  ultimately show thesis using that [OF a w] inv_works [OF inv w] by (simp add: on_course_def)
qed

lemma settled_before:
  assumes "settled (run (es @ [e]))"
  obtains w where "run es = Blocked w" "possible w e"
proof (cases "run (es @ [e])")
  case (Blocked w)
  with was_waiting that show thesis by blast
next
  case (Result x st' r)
  with assms have "run (es @ [e]) = Result x st' []" by (simp add: settled_def)
  with was_waiting that show thesis by blast
qed (use assms in \<open>simp add: settled_def\<close>)

lemma course_runs_on:
  assumes "on_course s es" and "settled (run (es @ rest))" and "\<forall>e \<in> set rest. e = Taken \<or> e = Tick"
  shows "\<exists>s'. works\<^sup>*\<^sup>* s s' \<and> on_course s' (es @ rest)"
  using assms(2,3)
proof (induction rest rule: rev_induct)
  case (snoc e rest)
  from snoc.prems(1) have "settled (run ((es @ rest) @ [e]))" by simp
  then obtain w where w: "run (es @ rest) = Blocked w" "possible w e" by (rule settled_before)
  with snoc obtain s1 where "works\<^sup>*\<^sup>* s s1" "on_course s1 (es @ rest)" by (auto simp: settled_def)
  moreover obtain s2 where "works s1 s2" "on_course s2 ((es @ rest) @ [e])"
    using course_work [OF \<open>on_course s1 (es @ rest)\<close> w] snoc.prems(2) by auto
  ultimately show ?case by (auto intro: rtranclp.rtrancl_into_rtrancl)
qed (use assms(1) in auto)

lemma course_finishes:
  assumes "on_course s es" and "run es = Result x st' []"
  shows "\<exists>s'. works s s' \<and> s_history s' = es \<and> s_driver s' = Idle \<and> s_outcome s' = Some x"
proof -
  have "works s (s\<lparr>s_outcome := Some x, s_cancelled := True, s_driver := Idle\<rparr>)"
    using assms by (intro works.parks) (auto simp: park_def on_course_def awaiting_def)
  moreover have "s_history s = es" using assms(1) by (simp add: on_course_def)
  ultimately show ?thesis by (intro exI conjI) (assumption, simp_all)
qed

text \<open>So the host can bring about every run of the engine.\<close>

lemma every_run_drivable:
  assumes "settled (run es)" and "CtxDone \<notin> set es"
  shows "\<exists>s. session_step\<^sup>*\<^sup>* (launch (newSession run)) s \<and> on_course s es"
  using assms
proof (induction es rule: rev_induct)
  case Nil
  with course_start show ?case by blast
next
  case (snoc e es)
  from snoc.prems(1) obtain w where w: "run es = Blocked w" "possible w e" by (rule settled_before)
  with snoc obtain s where s: "session_step\<^sup>*\<^sup>* (launch (newSession run)) s" "on_course s es" by (auto simp: settled_def)
  have onward: ?case if "session_step\<^sup>*\<^sup>* s s'" "on_course s' (es @ [e])" for s'
    using s(1) that by (meson rtranclp_trans)
  consider (reply) hr where "e = Reply hr" | (work) "e = Taken \<or> e = Tick" using snoc.prems(2) by (cases e) auto
  then show ?case
  proof cases
    case (reply hr)
    with w obtain c cx where "run es = Blocked (WaitReply c cx)" by (cases w) (auto simp: possible_def)
    from course_pending(1) [OF s(2) this] course_answer [OF s(2) this, of hr] snoc.prems(2) obtain s1 s2 where
      "s_driver s = Idle" "Advance hr s = Inr s1" "works s1 s2" "on_course s2 (es @ [Reply hr])" by auto
    moreover from this have "session_step s s1" "session_step s1 s2"
      by (blast intro: session_step.advances session_step.drift drifts.work)+
    then have "session_step\<^sup>*\<^sup>* s s2" by simp
    ultimately show ?thesis using onward reply by blast
  next
    case work
    obtain s' where "works s s'" "on_course s' (es @ [e])" by (rule course_work [OF s(2) w work])
    then show ?thesis using onward [of s'] by (auto intro: session_step.drift drifts.work)
  qed
qed

lemma drive_to_call:
  assumes "run es = Blocked (WaitReply c cx)" and "CtxDone \<notin> set es"
  shows "\<exists>s. session_step\<^sup>*\<^sup>* (launch (newSession run)) s \<and> s_history s = es \<and> s_pending s = Some c"
  using every_run_drivable [of es] course_pending(2) [OF _ assms] assms by (auto simp: settled_def on_course_def)

lemma drive_to_outcome:
  assumes "run es = Result x st' []" and "CtxDone \<notin> set es"
  shows "\<exists>s. session_step\<^sup>*\<^sup>* (launch (newSession run)) s \<and> s_history s = es \<and> s_outcome s = Some x"
proof -
  obtain s where s: "session_step\<^sup>*\<^sup>* (launch (newSession run)) s" "on_course s es"
    using every_run_drivable [OF _ assms(2)] assms(1) by (auto simp: settled_def)
  with course_finishes [OF s(2) assms(1)] show ?thesis
    by (auto intro: rtranclp.rtrancl_into_rtrancl session_step.drift drifts.work)
qed

lemma progress:
  assumes "s_run s = run" and "session_inv s" and "CtxDone \<notin> set (s_history s)" and "s_driver s \<noteq> Idle"
  shows "\<exists>s'. works s s'"
proof (cases "s_driver s")
  case (Sending r)
  with assms(2,3) have "awaiting (engine_at s)" by (auto simp: session_inv_def)
  then have "\<exists>s'. deliver r s = Some s'" by (auto simp: awaiting_def awaits_reply_def deliver_def)
  with Sending show ?thesis by (auto intro: works.delivers)
next
  case Parking
  with assms(2,3) have "\<not> awaiting (engine_at s)" "settled (engine_at s)" by (auto simp: session_inv_def)
  then have "engine_at s = Blocked WaitTick \<or> (\<exists>s'. park s = Some s')"
    by (auto simp: park_def settled_def split: outcome.splits wait.splits)
  with Parking show ?thesis by (auto intro: works.parks works.ticks)
qed (use assms(4) in simp)

text \<open>
  Once the driver is at its send and the engine does not wait for a reply, nothing ever
  happens to the driver: only the driver could bring the engine to wait for one.
\<close>

lemma stuck_step:
  assumes "s_run s = run" and "s_driver s = Sending r" and "\<not> awaiting (engine_at s)" and "session_step s s'"
  shows "s_run s' = run \<and> s_driver s' = Sending r \<and> \<not> awaiting (engine_at s')"
  using assms(4)
proof cases
  case drift
  then show ?thesis
  proof cases
    case work
    then show ?thesis
    proof cases
      case ticks
      with assms not_awaiting [of "s_history s" WaitTick Tick] show ?thesis by simp
    qed (use assms in \<open>auto simp: deliver_def split: outcome.splits wait.splits\<close>)
  next
    case (ctx_ends w)
    with assms not_awaiting [of "s_history s" w CtxDone] over_possible [of s w] show ?thesis by simp
  qed (use assms in simp_all)
qed (use assms in \<open>auto simp: Close_def\<close>)

lemma stuck_forever:
  assumes "s_run s = run" and "s_driver s = Sending r" and "\<not> awaiting (engine_at s)" and "session_step\<^sup>*\<^sup>* s s'"
  shows "s_driver s' = Sending r"
proof -
  have "s_run s' = run \<and> s_driver s' = Sending r \<and> \<not> awaiting (engine_at s')"
    using assms(4)
  proof (induction rule: rtranclp_induct)
    case (step s1 s2)
    then show ?case using stuck_step by blast
  qed (use assms in simp)
  then show ?thesis by simp
qed

lemma late_reply:
  assumes s: "s_run s = run" "s_pending s = Some c" "s_outcome s = None"
    and reply: "engine_at s = Blocked (WaitReply c cx)" and cx: "cx = OpCtx \<or> cx = CheckCtx"
  shows "\<exists>s1. drifts\<^sup>*\<^sup>* s s1 \<and> s_pending s1 = Some c \<and>
    (\<forall>r. \<exists>s2. Advance r s1 = Inr s2 \<and> (\<forall>s3. session_step\<^sup>*\<^sup>* s2 s3 \<longrightarrow> s_driver s3 = Sending r))"
proof -
  define e where "e = (if cx = OpCtx then s\<lparr>s_op_expired := True\<rparr> else s\<lparr>s_check_expired := True\<rparr>)"
  let ?s1 = "e\<lparr>s_history := s_history s @ [CtxDone]\<rparr>"
  have e: "s_run e = run" "s_pending e = Some c" "s_outcome e = None" "s_history e = s_history s" "engine_at e = engine_at s"
    using s by (simp_all add: e_def)
  have "drifts s e" unfolding e_def by (auto intro: drifts.intros)
  moreover have "drifts e ?s1"
    using drifts.ctx_ends [of e "WaitReply c cx"] reply cx e by (auto simp: over_def e_def)
  ultimately have path: "drifts\<^sup>*\<^sup>* s ?s1"
    by (rule converse_rtranclp_into_rtranclp [OF _ r_into_rtranclp])
  have quiet: "\<not> awaiting (run (s_history s @ [CtxDone]))"
    using not_awaiting [of "s_history s" "WaitReply c cx" CtxDone] reply s(1) cx by auto
  have "\<exists>s2. Advance r ?s1 = Inr s2 \<and> (\<forall>s3. session_step\<^sup>*\<^sup>* s2 s3 \<longrightarrow> s_driver s3 = Sending r)" for r
  proof (intro exI conjI allI impI)
    let ?s2 = "?s1\<lparr>s_pending := None, s_driver := Sending r\<rparr>"
    show "Advance r ?s1 = Inr ?s2" using e by (simp add: Advance_def)
    show "s_driver s3 = Sending r" if "session_step\<^sup>*\<^sup>* ?s2 s3" for s3
      using stuck_forever [of ?s2 r s3] e(1) quiet that by simp
  qed
  moreover have "s_pending ?s1 = Some c" using e by simp
  ultimately show ?thesis using path by blast
qed

end

text \<open>How many steps are left before a call of the driver returns, at most.\<close>

definition busy :: "'a session \<Rightarrow> nat" where
  "busy s = (case s_driver s of
       Idle \<Rightarrow> 0
     | Parking \<Rightarrow> if engine_at s = Blocked WaitTick then 2 else 1
     | Sending _ \<Rightarrow> 3)"

text \<open>An engine that makes a call after every wait between polls.\<close>

locale prompt_lifecycle = lifecycle +
  assumes prompt: "run es = Blocked WaitTick \<Longrightarrow> \<exists>c b. run (es @ [Tick]) = Blocked (WaitSend c b)"
begin

lemma works_decreases:
  assumes "s_run s = run" and "session_inv s" and "CtxDone \<notin> set (s_history s)" and "works s s'"
  shows "busy s' < busy s \<and> CtxDone \<notin> set (s_history s')"
  using assms(4)
proof cases
  case parks
  with assms(3) show ?thesis by (auto simp: busy_def park_def split: outcome.splits wait.splits)
next
  case (delivers r)
  with assms(3) show ?thesis by (auto simp: busy_def deliver_def split: outcome.splits wait.splits)
next
  case ticks
  with assms(2,3) have "s_driver s = Parking"
    by (cases "s_driver s") (auto simp: session_inv_def)
  with ticks prompt [of "s_history s"] assms(1,3) show ?thesis by (auto simp: busy_def)
qed

lemma advance_bound:
  assumes "s_run s = run" and "session_inv s" and "CtxDone \<notin> set (s_history s)" and "(works ^^ n) s s'"
  shows "n \<le> 3"
proof -
  have "s_run s' = run \<and> session_inv s' \<and> CtxDone \<notin> set (s_history s') \<and> busy s' + n \<le> busy s"
    using assms(4)
  proof (induction n arbitrary: s')
    case (Suc n)
    then obtain s1 where "(works ^^ n) s s1" "works s1 s'" by auto
    with Suc.IH [of s1] inv_works [of s1 s'] works_decreases [of s1 s'] show ?case by fastforce
  qed (use assms in auto)
  moreover have "busy s \<le> 3" by (simp add: busy_def split: call_point.splits)
  ultimately show ?thesis by linarith
qed

end

section \<open>The engine's runs are lifecycles\<close>

lemma lifecycle_of: "protocol m \<Longrightarrow> replayable m \<Longrightarrow> lifecycle (m st)"
proof
  assume m: "protocol m" "replayable m"
  show "settled (m st [])" "\<not> awaiting (m st [])"
    using protocol_start [OF m(1), of st] replayable.rest_suffix [OF m(2), of st "[]"]
    by (auto simp: settled_def awaiting_def)
  show "follows w e (m st (es @ [e]))" if "m st es = Blocked w" "possible w e" for es w e
    using protocol_step [OF m(1) that] .
  show "r = []" if "m st es = Blocked w" "m st (es @ [e]) = Result x st' r" for es w e x st' r
    using result_uses_all [OF m(2) that] .
  show "\<exists>w'. m st es = Blocked w' \<and> possible w' e"
    if "m st (es @ [e]) = Blocked w \<or> m st (es @ [e]) = Result x st' []" for es e w x st'
    using came_from [OF m(2) that] .
qed

lemma prompt_of: "protocol m \<Longrightarrow> replayable m \<Longrightarrow> calls_after_tick m \<Longrightarrow> prompt_lifecycle (m st)"
  by (intro prompt_lifecycle.intro lifecycle_of) (auto simp: prompt_lifecycle_axioms_def calls_after_tick_def)

lemma readers_protocol [intro]:
  "protocol (Verify cx k mint)" "protocol (read_statuses k sig)" "protocol (resolveNetwork k pinned)"
proof -
  have "protocol (set_net n)" for n by (rule protocolI) (auto simp: set_net_def)
  then show "protocol (resolveNetwork k pinned)"
    unfolding resolveNetwork_def
    by (intro protocol_andThen protocol_cases protocol_calls replayable_transport protocol_simple)
  show "protocol (Verify cx k mint)" "protocol (read_statuses k sig)"
    unfolding Verify_def read_statuses_def
    by (intro protocol_andThen protocol_calls replayable_transport protocol_simple)+
qed

lemma send_protocol [intro]: "protocol (send k payer ixs c extra)"
proof -
  have "protocol (signer_Sign k s msg)" for s msg by (auto simp: signer_Sign_def split: signer.splits)
  then have "protocol (sign_all k signers msg wants)" for signers msg wants
    by (induction wants) (auto split: option.splits)
  moreover have "protocol (poll_once k sig lv c)" for sig lv c
    unfolding poll_once_def
    by (intro protocol_andThen protocol_cases protocol_simple protocol_calls readers_protocol replayable_await
        replayable_transport replayable_judgements)
  then have "protocol (confirmOrExpire k sig lv c)" for sig lv c
    by (intro protocol_loop [OF confirm_goes_round]) auto
  ultimately show ?thesis
    unfolding send_def
    by (intro protocol_andThen protocol_cases protocol_simple protocol_calls replayable_transport replayable_sign_all
        replayable_confirm)
qed

lemma Mint_protocol [intro]: "protocol (Mint k payer pinned wallet s)"
proof -
  have "protocol get_net" by (rule protocolI) (auto simp: get_net_def)
  moreover have "protocol (checkTreasurySpendable k t)" "protocol (verifySafe k mint s)"
    "protocol (resolveUnconfirmed k mint s d e)" for t mint s d e
    unfolding checkTreasurySpendable_def verifySafe_def resolveUnconfirmed_def
    by (intro protocol_andThen protocol_calls protocol_simple readers_protocol replayable_transport replayable_judgements)+
  ultimately show ?thesis
    unfolding Mint_def submit_mint_def Let_def
    by (intro protocol_andThen protocol_cases protocol_simple readers_protocol send_protocol replayable_checks
        replayable_resolveNetwork replayable_send)
qed

lemma send_prompt:
  assumes "encodes (sdk_rpc k)"
  shows "calls_after_tick (send k payer ixs c extra)"
proof -
  have "no_tick (signer_Sign k s msg)" for s msg by (auto simp: signer_Sign_def split: signer.splits)
  then have signing: "no_tick (sign_all k signers msg wants)" for signers msg wants
    by (induction wants) (auto split: option.splits)
  have reading: "no_tick (read_statuses k sig)" for sig unfolding read_statuses_def by blast
  have "calls_after_tick (poll_once k sig lv c)" for sig lv c
    unfolding poll_once_def
  proof (rule calls_after_tick_await)
    fix st
    show "\<exists>c' b. (if Tick = CtxDone then return (Some (Some ConfirmContext))
        else andThen (read_statuses k sig) (f c)) st [] = Blocked (WaitSend c' b)" for f :: "commitment \<Rightarrow> _ \<Rightarrow> _ engine_action"
      using call_hands_out [OF assms, of OpCtx "GetSignatureStatuses True sig" "dec_statuses k" st]
      by (auto simp: andThen_def read_statuses_def)
  qed (intro asks_cases asks_andThen asks_return reading transport_no_tick)
  then have "calls_after_tick (confirmOrExpire k sig lv c)" for sig lv c
    by (intro calls_after_tick_loop [OF confirm_goes_round]) auto
  then show ?thesis
    unfolding send_def
    by (intro calls_after_tick_andThen calls_after_tick_cases no_tick_calls [OF asks_return] replayable_transport
        no_tick_calls [OF transport_no_tick(1)] no_tick_calls [OF signing] replayable_sign_all replayable_confirm)
qed

lemma Mint_prompt:
  assumes "encodes (sdk_rpc k)"
  shows "calls_after_tick (Mint k payer pinned wallet s)"
proof -
  have "no_tick get_net" by (simp add: asks_def get_net_def)
  moreover have "no_tick (set_net n)" for n by (simp add: asks_def set_net_def)
  then have "no_tick (resolveNetwork k pinned)"
    unfolding resolveNetwork_def by (intro asks_cases asks_andThen asks_return transport_no_tick)
  moreover have "no_tick (Verify cx k mint)" for cx mint
    unfolding Verify_def by (intro asks_andThen transport_no_tick asks_return)
  then have "no_tick (checkTreasurySpendable k t)" "no_tick (verifySafe k mint s)"
    "no_tick (resolveUnconfirmed k mint s d e)" for t mint s d e
    unfolding checkTreasurySpendable_def verifySafe_def resolveUnconfirmed_def
    by (intro asks_andThen transport_no_tick asks_return; assumption)+
  ultimately show ?thesis
    unfolding Mint_def submit_mint_def Let_def
    by (intro calls_after_tick_andThen calls_after_tick_cases no_tick_calls [OF asks_return] send_prompt assms
        replayable_checks replayable_resolveNetwork replayable_send no_tick_calls)
qed

lemma lifecycles [intro]:
  "protocol (verify_lifecycle k mint)" "replayable (verify_lifecycle k mint)" "calls_after_tick (verify_lifecycle k mint)"
  "protocol (mint_lifecycle k payer pinned wallet spec)" "replayable (mint_lifecycle k payer pinned wallet spec)"
  "encodes (sdk_rpc k) \<Longrightarrow> calls_after_tick (mint_lifecycle k payer pinned wallet spec)"
proof -
  have "no_tick (Verify SessionCtx k mint)" unfolding Verify_def by (intro asks_andThen transport_no_tick asks_return)
  then show "calls_after_tick (verify_lifecycle k mint)" unfolding verify_lifecycle_def by blast
  show "protocol (verify_lifecycle k mint)" "replayable (verify_lifecycle k mint)"
    unfolding verify_lifecycle_def by blast+
  show "protocol (mint_lifecycle k payer pinned wallet spec)" "replayable (mint_lifecycle k payer pinned wallet spec)"
    unfolding mint_lifecycle_def by (auto split: prod.splits)
  show "calls_after_tick (mint_lifecycle k payer pinned wallet spec)" if "encodes (sdk_rpc k)"
    unfolding mint_lifecycle_def using Mint_prompt [OF that]
    by (intro calls_after_tick_andThen replayable_Mint) (auto split: prod.splits)
qed

interpretation verify_session: prompt_lifecycle "verify_lifecycle k mint st" for k mint st
  by (intro prompt_of lifecycles)

interpretation mint_session: lifecycle "mint_lifecycle k payer pinned wallet spec st" for k payer pinned wallet spec st
  by (intro lifecycle_of lifecycles)

section \<open>A sample session\<close>

abbreviation sample_call_body :: HostCall where
  "sample_call_body \<equiv> FetchCall \<lparr>fr_Body = [1]\<rparr>"

definition sample_session :: "Outcome session" where
  "sample_session = StartMint sample_sdk sample_payer (sample_mint, [1]) sample_spec []"

definition sample_parked :: "Outcome session" where
  "sample_parked = sample_session\<lparr>s_pending := Some sample_call_body, s_history := [Taken], s_driver := Idle\<rparr>"

lemma sample_session_parts:
  "s_run sample_session = mint_lifecycle sample_sdk sample_payer False (sample_mint, [1]) sample_spec sample_state"
  "s_history sample_session = []" "s_driver sample_session = Parking" "s_outcome sample_session = None"
  "NewEngine (engine_options []) = (sample_state, False)"
  by (simp_all add: sample_session_def StartMint_def launch_def newSession_def NewEngine_def sample_state_def)

lemma sample_works: "works sample_session sample_parked"
  and sample_awaits: "s_run sample_parked [Taken] = Blocked (WaitReply sample_call_body SessionCtx)"
proof -
  have first: "s_run sample_session [] = Blocked (WaitSend sample_call_body SessionCtx)"
    unfolding sample_session_parts mint_lifecycle_def andThen_def sample_first by simp
  then have "park sample_session = Some sample_parked"
    by (simp add: park_def sample_parked_def sample_session_parts)
  then show "works sample_session sample_parked"
    using sample_session_parts(3) by (blast intro: works.parks)
  show "s_run sample_parked [Taken] = Blocked (WaitReply sample_call_body SessionCtx)"
    using mint_session.taken [OF first [unfolded sample_session_parts]]
    by (simp add: sample_parked_def sample_session_parts)
qed

lemma sample_parks: "session_step\<^sup>*\<^sup>* sample_session sample_parked"
  using sample_works by (blast intro: session_step.drift drifts.work)

section \<open>Properties\<close>

lemma StartMint_reachable:
  assumes "session_step\<^sup>*\<^sup>* (StartMint k payer wallet spec opts) s" and "NewEngine (engine_options opts) = (e, pinned)"
  shows "s_run s = mint_lifecycle k payer pinned wallet spec e \<and> session_inv s"
  using assms mint_session.inv_reachable by (simp add: StartMint_def)

text \<open>
  C11: a session shows its driver exactly what the engine does. In every state a mint session
  can reach while no context has ended, a call is pending if and only if the driver is free
  and the engine waits for the answer to that very call, and there is an outcome if and only
  if the driver is free and the engine has returned it; what the engine does is \<open>Mint\<close> run on
  the history of the session, from a fresh engine on the network the options name.
\<close>

theorem session_follows_engine:
  assumes "session_step\<^sup>*\<^sup>* (StartMint k payer wallet spec opts) s" and "CtxDone \<notin> set (s_history s)"
    and "NewEngine (engine_options opts) = (e, pinned)"
  shows "(Pending s = Some c \<longleftrightarrow> s_driver s = Idle \<and>
      (\<exists>b. Mint k payer pinned wallet spec e (s_history s) = Blocked (WaitReply c b))) \<and>
    (Result_of s = Some \<lparr>out_Mint = m, out_Disclosures = d, out_Err = err\<rparr> \<longleftrightarrow> s_driver s = Idle \<and>
      (\<exists>e'. Mint k payer pinned wallet spec e (s_history s) = Result (m, d, err) e' []))"
proof -
  have run: "s_run s = mint_lifecycle k payer pinned wallet spec e" and inv: "session_inv s"
    using StartMint_reachable [OF assms(1,3)] by simp_all
  have waits: "engine_at s = Blocked w \<longleftrightarrow> Mint k payer pinned wallet spec e (s_history s) = Blocked w" for w
    unfolding run mint_lifecycle_def by (auto simp: andThen_Blocked return_def)
  have results: "engine_at s = Result \<lparr>out_Mint = m, out_Disclosures = d, out_Err = err\<rparr> e' [] \<longleftrightarrow>
      Mint k payer pinned wallet spec e (s_history s) = Result (m, d, err) e' []" for e'
    unfolding run mint_lifecycle_def by (auto simp: andThen_Result return_def)
  from inv assms(2) show ?thesis
    unfolding Pending_def Result_of_def session_inv_def waits [symmetric] results [symmetric]
    by (cases "s_pending s"; cases "s_outcome s") auto
qed

theorem session_follows_engine_witness:
  "\<exists>s c. session_step\<^sup>*\<^sup>* sample_session s \<and> Pending s = Some c \<and> s_driver s = Idle \<and>
     (\<exists>b. sample_run sample_state (s_history s) = Blocked (WaitReply c b))"
proof -
  have "CtxDone \<notin> set (s_history sample_parked)" by (simp add: sample_parked_def)
  from session_follows_engine [OF sample_parks [unfolded sample_session_def] this sample_session_parts(5),
      of sample_call_body] sample_parks
  show ?thesis by (auto simp: Pending_def sample_parked_def)
qed

text \<open>
  A host can bring about every run of a mint. Whatever \<open>Mint\<close> can come to after a list of
  events in which no context ends, a call that waits for its reply or a result, there is a way
  to drive the session there: the session then shows that call, or that outcome.
\<close>

theorem every_run_can_be_driven:
  assumes "NewEngine (engine_options opts) = (e, pinned)" and "CtxDone \<notin> set es"
  shows "(Mint k payer pinned wallet spec e es = Blocked (WaitReply c cx) \<longrightarrow>
      (\<exists>s. session_step\<^sup>*\<^sup>* (StartMint k payer wallet spec opts) s \<and> s_history s = es \<and> Pending s = Some c)) \<and>
    (Mint k payer pinned wallet spec e es = Result (m, d, err) e' [] \<longrightarrow>
      (\<exists>s. session_step\<^sup>*\<^sup>* (StartMint k payer wallet spec opts) s \<and> s_history s = es \<and>
        Result_of s = Some \<lparr>out_Mint = m, out_Disclosures = d, out_Err = err\<rparr>))"
proof -
  let ?run = "mint_lifecycle k payer pinned wallet spec e"
  have start: "StartMint k payer wallet spec opts = launch (newSession ?run)" using assms(1) by (simp add: StartMint_def)
  have "Mint k payer pinned wallet spec e es = Blocked w \<Longrightarrow> ?run es = Blocked w" for w
    unfolding mint_lifecycle_def by (simp add: andThen_Blocked)
  moreover have "Mint k payer pinned wallet spec e es = Result (m, d, err) e' [] \<Longrightarrow>
      ?run es = Result \<lparr>out_Mint = m, out_Disclosures = d, out_Err = err\<rparr> e' []"
    unfolding mint_lifecycle_def by (simp add: andThen_Result return_def)
  ultimately show ?thesis
    using mint_session.drive_to_call [OF _ assms(2)] mint_session.drive_to_outcome [OF _ assms(2)]
    unfolding start Pending_def Result_of_def by metis
qed

theorem every_run_can_be_driven_witness:
  "\<exists>s d. session_step\<^sup>*\<^sup>* sample_session s \<and> s_history s = sample_prefix @ sample_rest \<and>
     Result_of s = Some \<lparr>out_Mint = sample_mint, out_Disclosures = d, out_Err = None\<rparr>"
proof -
  obtain d st' where "sample_run sample_state (sample_prefix @ sample_rest) = Result (sample_mint, d, None) st' []"
    using sample_succeeds by blast
  moreover have "CtxDone \<notin> set (sample_prefix @ sample_rest)"
    by (simp add: sample_prefix_def sample_rest_def answer_def)
  ultimately show ?thesis
    using every_run_can_be_driven [OF sample_session_parts(5), of "sample_prefix @ sample_rest"] unfolding sample_session_def by blast
qed

text \<open>
  C12: the driver's calls return. While no context has ended, a session whose driver is inside
  \<open>Advance\<close> or the first \<open>park\<close> is never stuck, and after at most three steps of the engine, the
  channels and the clock the driver is free again; so one reply costs at most one wait of the
  polling loop. The request bodies are assumed to be encodable.
\<close>

theorem Advance_returns:
  assumes "session_step\<^sup>*\<^sup>* (StartMint k payer wallet spec opts) s" and "CtxDone \<notin> set (s_history s)"
    and "encodes (sdk_rpc k)"
  shows "(s_driver s \<noteq> Idle \<longrightarrow> (\<exists>s'. works s s')) \<and> (\<forall>n s'. (works ^^ n) s s' \<longrightarrow> n \<le> 3)"
proof -
  obtain e pinned where "NewEngine (engine_options opts) = (e, pinned)" by fastforce
  from StartMint_reachable [OF assms(1) this] have
    s: "s_run s = mint_lifecycle k payer pinned wallet spec e" "session_inv s" by simp_all
  have "prompt_lifecycle (mint_lifecycle k payer pinned wallet spec e)"
    using assms(3) by (intro prompt_of lifecycles)
  from prompt_lifecycle.advance_bound [OF this s assms(2)] mint_session.progress [OF s assms(2)]
  show ?thesis by blast
qed

theorem Advance_returns_witness:
  "encodes (sdk_rpc sample_sdk) \<and> s_driver sample_session \<noteq> Idle \<and> (\<exists>s'. works sample_session s') \<and>
     (\<forall>n s'. \<not> (4 \<le> n \<and> (works ^^ n) sample_session s'))"
proof -
  have "encodes (sdk_rpc sample_sdk)" by (simp add: encodes_def sample_sdk_def)
  from Advance_returns [of sample_sdk sample_payer "(sample_mint, [1])" sample_spec "[]" sample_session, OF _ _ this] this
  show ?thesis by (fastforce simp: sample_session_parts sample_session_def [symmetric])
qed

text \<open>
  C22: a reply that comes after a deadline blocks the driver for ever. Take any state a mint
  session can reach in which a fetch is pending and its reply is awaited under a context with
  a deadline, as every fetch from the submission of the transaction on is. Without any action
  of the driver, the deadline can pass and the engine leave that wait; the call is still shown
  as pending, so the driver answers it, and this \<open>Advance\<close> never returns, whatever else happens:
  it is at its send on \<open>repCh\<close>, which no longer has a receiver and which does not watch the
  context.
\<close>

theorem late_reply_blocks_driver:
  assumes "session_step\<^sup>*\<^sup>* (StartMint k payer wallet spec opts) s" and "Pending s = Some c"
    and "engine_at s = Blocked (WaitReply c cx)" and "cx = OpCtx \<or> cx = CheckCtx"
  shows "\<exists>s1. drifts\<^sup>*\<^sup>* s s1 \<and> Pending s1 = Some c \<and>
    (\<forall>r. \<exists>s2. Advance r s1 = Inr s2 \<and> (\<forall>s3. session_step\<^sup>*\<^sup>* s2 s3 \<longrightarrow> s_driver s3 = Sending r))"
proof -
  obtain e pinned where "NewEngine (engine_options opts) = (e, pinned)" by fastforce
  from StartMint_reachable [OF assms(1) this] have
    s: "s_run s = mint_lifecycle k payer pinned wallet spec e" "session_inv s" by simp_all
  from s(2) assms(2) have "s_outcome s = None" by (auto simp: session_inv_def Pending_def)
  from mint_session.late_reply [OF s(1) _ this assms(3,4)] assms(2) show ?thesis by (simp add: Pending_def)
qed

text \<open>The driver answers a call, and the session parks at the next one.\<close>

lemma answered:
  assumes s: "s_driver s = Idle" "s_pending s = Some c" "s_outcome s = None" "engine_at s = Blocked (WaitReply c cx)"
    and run: "s_run s (s_history s @ [Reply r]) = Blocked (WaitSend c' cx')"
  shows "session_step\<^sup>*\<^sup>* s (s\<lparr>s_pending := Some c', s_history := s_history s @ [Reply r, Taken]\<rparr>)"
proof -
  let ?s1 = "s\<lparr>s_pending := None, s_driver := Sending r\<rparr>"
  let ?s2 = "?s1\<lparr>s_history := s_history s @ [Reply r], s_driver := Parking\<rparr>"
  let ?s3 = "s\<lparr>s_pending := Some c', s_history := s_history s @ [Reply r, Taken]\<rparr>"
  have "session_step s ?s1" using s by (intro session_step.advances [of _ r]) (simp_all add: Advance_def)
  moreover have "session_step ?s1 ?s2"
    using s by (intro session_step.drift drifts.work works.delivers [of _ r]) (simp_all add: deliver_def)
  moreover have "park ?s2 = Some ?s3" using run s(1) by (simp add: park_def)
  then have "session_step ?s2 ?s3" by (intro session_step.drift drifts.work works.parks) simp_all
  ultimately show ?thesis by (meson converse_rtranclp_into_rtranclp rtranclp.rtrancl_refl)
qed

lemma sample_submits:
  "\<exists>s. session_step\<^sup>*\<^sup>* sample_session s \<and> Pending s = Some (FetchCall \<lparr>fr_Body = [3]\<rparr>) \<and>
     engine_at s = Blocked (WaitReply (FetchCall \<lparr>fr_Body = [3]\<rparr>) OpCtx)"
proof -
  let ?r = "\<lambda>b. \<lparr>hr_Signature = zero_signature, hr_Body = [b], hr_Err = None\<rparr>"
  let ?s2 = "sample_parked\<lparr>s_pending := Some (FetchCall \<lparr>fr_Body = [2]\<rparr>), s_history := [Taken, Reply (?r 1), Taken]\<rparr>"
  let ?s3 = "?s2\<lparr>s_pending := Some (FetchCall \<lparr>fr_Body = [3]\<rparr>), s_history := [Taken, Reply (?r 1), Taken, Reply (?r 0), Taken]\<rparr>"
  have parked: "s_run sample_parked = mint_lifecycle sample_sdk sample_payer False (sample_mint, [1]) sample_spec sample_state"
    "s_history sample_parked = [Taken]" "s_driver sample_parked = Idle" "s_outcome sample_parked = None"
    "s_pending sample_parked = Some sample_call_body"
    by (simp_all add: sample_parked_def sample_session_parts)
  have two: "s_run sample_parked [Taken, Reply (?r 1)] = Blocked (WaitSend (FetchCall \<lparr>fr_Body = [2]\<rparr>) SessionCtx)"
    using sample_second unfolding parked mint_lifecycle_def andThen_Blocked answer_def by simp
  have three: "s_run sample_parked [Taken, Reply (?r 1), Taken, Reply (?r 0)] = Blocked (WaitSend (FetchCall \<lparr>fr_Body = [3]\<rparr>) OpCtx)"
    using sample_third unfolding parked mint_lifecycle_def andThen_Blocked answer_def by simp
  have "session_step\<^sup>*\<^sup>* sample_parked ?s2"
    using answered [of sample_parked sample_call_body SessionCtx "?r 1"] parked sample_awaits two by simp
  moreover have "session_step\<^sup>*\<^sup>* ?s2 ?s3"
    using answered [of ?s2 "FetchCall \<lparr>fr_Body = [2]\<rparr>" SessionCtx "?r 0"] parked three
      mint_session.taken [OF two [unfolded parked]] by simp
  moreover have "engine_at ?s3 = Blocked (WaitReply (FetchCall \<lparr>fr_Body = [3]\<rparr>) OpCtx)"
    using mint_session.taken [OF three [unfolded parked]] parked by simp
  moreover note sample_parks
  ultimately show ?thesis by (intro exI [of _ ?s3]) (auto simp: Pending_def)
qed

theorem late_reply_blocks_driver_witness:
  "\<exists>s1. session_step\<^sup>*\<^sup>* sample_session s1 \<and> Pending s1 \<noteq> None \<and>
    (\<forall>r. \<exists>s2. Advance r s1 = Inr s2 \<and> (\<forall>s3. \<not> (session_step\<^sup>*\<^sup>* s2 s3 \<and> s_driver s3 \<noteq> Sending r)))"
proof -
  obtain s where s: "session_step\<^sup>*\<^sup>* sample_session s" "Pending s = Some (FetchCall \<lparr>fr_Body = [3]\<rparr>)"
    "engine_at s = Blocked (WaitReply (FetchCall \<lparr>fr_Body = [3]\<rparr>) OpCtx)"
    using sample_submits by blast
  from late_reply_blocks_driver [OF s(1) [unfolded sample_session_def] s(2,3)] obtain s1 where "drifts\<^sup>*\<^sup>* s s1"
    "Pending s1 = Some (FetchCall \<lparr>fr_Body = [3]\<rparr>)"
    "\<forall>r. \<exists>s2. Advance r s1 = Inr s2 \<and> (\<forall>s3. session_step\<^sup>*\<^sup>* s2 s3 \<longrightarrow> s_driver s3 = Sending r)" by auto
  moreover from this(1) have "session_step\<^sup>*\<^sup>* sample_session s1" using s(1) drifts_steps by (meson rtranclp_trans)
  ultimately show ?thesis by (metis option.distinct(1))
qed

end
