(* ===== verification/Token_Registry.thy ===== *)
theory Token_Registry
  imports Token_Session
begin

text \<open>
  What the two tools of the token extension share (\<open>src/cmd/token/main.go\<close>): the registry of the
  sessions in flight, the host's answers, and how a call runs.

  A call is a function up to the point where it hands a session on to run (\<open>begins\<close>), and a
  function again once the session's driver is free (\<open>render\<close>); in between the session drifts, so
  the whole call is the relation \<open>call\<close>. A call that never returns is related to nothing. Between
  calls the stored sessions drift too (\<open>registry_step\<close>). What a tool must do with its sessions for
  the registry to stay in order is the locale \<open>session_tool\<close>.
\<close>

section \<open>The registry\<close>

record 'a sessionRegistry =
  reg_prefix :: string
  reg_seq :: u64
  reg_sessions :: "string \<rightharpoonup> 'a session"

definition newRegistry :: "string \<Rightarrow> 'a sessionRegistry" where
  "newRegistry prefix = \<lparr>reg_prefix = prefix, reg_seq = 0, reg_sessions = Map.empty\<rparr>"

definition store :: "'a session \<Rightarrow> 'a sessionRegistry \<Rightarrow> string \<times> 'a sessionRegistry" where
  "store s r =
     (let seq = reg_seq r + 1; sid = reg_prefix r @ FormatUint (unat seq) in
      (sid, r\<lparr>reg_seq := seq, reg_sessions := (reg_sessions r)(sid \<mapsto> s)\<rparr>))"

definition get :: "string \<Rightarrow> 'a sessionRegistry \<Rightarrow> 'a session option" where
  "get sid r = reg_sessions r sid"

definition remove :: "string \<Rightarrow> 'a sessionRegistry \<Rightarrow> 'a sessionRegistry" where
  "remove sid r = r\<lparr>reg_sessions := (reg_sessions r)(sid := None)\<rparr>"

text \<open>The registry holds pointers: what happens to a session is seen through it.\<close>

definition put :: "string \<Rightarrow> 'a session \<Rightarrow> 'a sessionRegistry \<Rightarrow> 'a sessionRegistry" where
  "put sid s r = r\<lparr>reg_sessions := (reg_sessions r)(sid \<mapsto> s)\<rparr>"

section \<open>The host's side of a call\<close>

datatype tool_error =
    BadInput
  | BadMintAddress string
  | BadHostKey address_error
  | BadSupply
  | BadTreasury string
  | UnknownSession string
  | BadResponse
  | BadSignature address_error
  | SessionFailed session_error
  | NeitherDoneNorPending string
  | VerifyError verify_error

record resumeArgs =
  ra_Session :: string
  ra_Signature :: string
  ra_SignError :: string
  ra_Response :: string
  ra_FetchErr :: string

definition decode_resume :: "(string \<times> json) list \<Rightarrow> resumeArgs option" where
  "decode_resume kvs =
     (case (field_string ''session'' [] kvs, field_string ''signature'' [] kvs, field_string ''signError'' [] kvs,
            field_string ''response'' [] kvs, field_string ''fetchError'' [] kvs) of
        (Some s, Some sig, Some se, Some resp, Some fe) \<Rightarrow>
          Some \<lparr>ra_Session = s, ra_Signature = sig, ra_SignError = se, ra_Response = resp, ra_FetchErr = fe\<rparr>
      | _ \<Rightarrow> None)"

definition zero_reply :: HostReply where
  "zero_reply = \<lparr>hr_Signature = zero_signature, hr_Body = [], hr_Err = None\<rparr>"

definition reply :: "resumeArgs \<Rightarrow> tool_error + HostReply" where
  "reply a =
     (if ra_SignError a \<noteq> [] then Inr (zero_reply\<lparr>hr_Err := Some (ra_SignError a)\<rparr>)
      else if ra_FetchErr a \<noteq> [] then Inr (zero_reply\<lparr>hr_Err := Some (ra_FetchErr a)\<rparr>)
      else if ra_Response a \<noteq> [] then
        (case DecodeString (ra_Response a) of
           None \<Rightarrow> Inl BadResponse
         | Some body \<Rightarrow> Inr (zero_reply\<lparr>hr_Body := body\<rparr>))
      else
        (case ParseSignatureBytes (ra_Signature a) of
           Inl err \<Rightarrow> Inl (BadSignature err)
         | Inr sig \<Rightarrow> Inr (zero_reply\<lparr>hr_Signature := sig\<rparr>)))"

definition marshal :: "json_syntax \<Rightarrow> json \<Rightarrow> string" where
  "marshal js v = string_of_bytes (json_print js v)"

definition pendingReply :: "json_syntax \<Rightarrow> string \<Rightarrow> HostCall \<Rightarrow> string" where
  "pendingReply js sid call =
     (case call of
        SignCall r \<Rightarrow> marshal js (JObject
          [(''session'', JString sid), (''sign'', JObject [(''message'', JString (EncodeToString (sr_Message r)))])])
      | FetchCall f \<Rightarrow> marshal js (JObject
          [(''fetch'', JObject [(''body'', JString (EncodeToString (fr_Body f)))]), (''session'', JString sid)]))"

section \<open>Calls\<close>

datatype 'a begun = Refused tool_error "'a sessionRegistry" | Started "'a session" | Resumed string "'a session"

text \<open>The half of a handler that both tools share: a resumed session is advanced.\<close>

definition resume :: "resumeArgs \<Rightarrow> 'a sessionRegistry \<Rightarrow> 'a begun" where
  "resume a r =
     (case get (ra_Session a) r of
        None \<Rightarrow> Refused (UnknownSession (ra_Session a)) r
      | Some s \<Rightarrow>
          (case reply a of
             Inl err \<Rightarrow> Refused err r
           | Inr hr \<Rightarrow>
               (case Advance hr s of
                  Inl err \<Rightarrow> Refused (SessionFailed err) (remove (ra_Session a) r)
                | Inr s' \<Rightarrow> Resumed (ra_Session a) s')))"

inductive call ::
  "('a sessionRegistry \<Rightarrow> 'a begun) \<Rightarrow>
   (string \<Rightarrow> 'a session \<Rightarrow> 'a sessionRegistry \<Rightarrow> (tool_error + string) \<times> 'a sessionRegistry) \<Rightarrow>
   'a sessionRegistry \<Rightarrow> tool_error + string \<Rightarrow> 'a sessionRegistry \<Rightarrow> bool"
  for begins render where
  refused: "begins r = Refused err r' \<Longrightarrow> call begins render r (Inl err) r'"
| started: "begins r = Started s0 \<Longrightarrow> drifts\<^sup>*\<^sup>* s0 s \<Longrightarrow> s_driver s = Idle \<Longrightarrow> store s r = (sid, r1) \<Longrightarrow>
    render sid s r1 = (out, r') \<Longrightarrow> call begins render r out r'"
| resumed: "begins r = Resumed sid s0 \<Longrightarrow> drifts\<^sup>*\<^sup>* s0 s \<Longrightarrow> s_driver s = Idle \<Longrightarrow>
    render sid s (put sid s r) = (out, r') \<Longrightarrow> call begins render r out r'"

text \<open>The registry between calls and during them; \<open>'arg\<close> is what a call is given.\<close>

inductive registry_step ::
  "('arg \<Rightarrow> 'a sessionRegistry \<Rightarrow> 'a begun) \<Rightarrow>
   (string \<Rightarrow> 'a session \<Rightarrow> 'a sessionRegistry \<Rightarrow> (tool_error + string) \<times> 'a sessionRegistry) \<Rightarrow>
   'a sessionRegistry \<Rightarrow> 'a sessionRegistry \<Rightarrow> bool"
  for begins render where
  called: "call (begins arg) render r out r' \<Longrightarrow> registry_step begins render r r'"
| drifted: "get sid r = Some s \<Longrightarrow> drifts s s' \<Longrightarrow> registry_step begins render r (put sid s' r)"

section \<open>Stored sessions and their ids\<close>

text \<open>A session that waits for the host.\<close>

definition parked :: "'a session \<Rightarrow> bool" where
  "parked s \<longleftrightarrow> s_driver s = Idle \<and> s_outcome s = None \<and> s_pending s \<noteq> None"

definition numbered :: "string \<Rightarrow> nat \<Rightarrow> 'a sessionRegistry \<Rightarrow> bool" where
  "numbered p m r \<longleftrightarrow> reg_prefix r = p \<and> unat (reg_seq r) \<le> m \<and>
     (\<forall>sid. get sid r \<noteq> None \<longrightarrow> (\<exists>n. n \<le> unat (reg_seq r) \<and> sid = p @ FormatUint n))"

text \<open>Every id is the prefix and a number of 64 bits, however many there have been.\<close>

definition named :: "string \<Rightarrow> 'a sessionRegistry \<Rightarrow> bool" where
  "named p r \<longleftrightarrow> reg_prefix r = p \<and> (\<forall>sid. get sid r \<noteq> None \<longrightarrow> (\<exists>n. n < 2 ^ 64 \<and> sid = p @ FormatUint n))"

lemma registry_simps [simp]:
  "get sid (newRegistry p) = None"
  "get sid (remove sid' r) = (if sid = sid' then None else get sid r)"
  "get sid (put sid' s r) = (if sid = sid' then Some s else get sid r)"
  "reg_seq (newRegistry p) = 0" "reg_prefix (newRegistry p) = p"
  "reg_seq (remove sid r) = reg_seq r" "reg_prefix (remove sid r) = reg_prefix r"
  "reg_seq (put sid s r) = reg_seq r" "reg_prefix (put sid s r) = reg_prefix r"
  by (simp_all add: get_def remove_def put_def newRegistry_def)

lemma store_parts:
  assumes "store s r = (sid, r')"
  shows "get sid' r' = (if sid' = sid then Some s else get sid' r)" "reg_seq r' = reg_seq r + 1"
    "reg_prefix r' = reg_prefix r" "sid = reg_prefix r @ FormatUint (unat (reg_seq r + 1))"
  using assms by (auto simp: store_def get_def Let_def)

lemma named_simps [simp]:
  "named p (newRegistry p)" "named p r \<Longrightarrow> named p (remove sid r)"
  "named p r \<Longrightarrow> get sid r \<noteq> None \<Longrightarrow> named p (put sid s r)"
  by (auto simp: named_def)

lemma named_store: "named p r \<Longrightarrow> store s r = (sid, r') \<Longrightarrow> named p r'"
  using store_parts [of s r sid r'] unsigned_less [of "reg_seq r + 1", where ?'a = nat] by (auto simp: named_def)

lemma drifts_parked: "parked s \<Longrightarrow> drifts s s' \<Longrightarrow> parked s'"
  by (erule driftsE) (auto simp: parked_def elim: worksE)

lemma parked_advances: "parked s \<Longrightarrow> Advance hr s = Inr (s\<lparr>s_pending := None, s_driver := Sending hr\<rparr>)"
  by (simp add: parked_def Advance_def)

lemma reply_error: "reply a = Inl err \<Longrightarrow> err = BadResponse \<or> (\<exists>e. err = BadSignature e)"
  by (auto simp: reply_def split: if_splits option.splits sum.splits)

lemma numbered_mono:
  assumes "numbered p m r" and "m \<le> m'" and "reg_seq r' = reg_seq r" and "reg_prefix r' = reg_prefix r"
    and "\<And>sid. get sid r' \<noteq> None \<Longrightarrow> get sid r \<noteq> None"
  shows "numbered p m' r'"
  using assms unfolding numbered_def by (metis le_trans)

lemma numbered_store:
  assumes "numbered p m r" and "m < 2 ^ 64 - 1" and "store s r = (sid, r')"
  shows "numbered p (Suc m) r'" "get sid r = None"
proof -
  have seq: "unat (reg_seq r) \<le> m" and p: "reg_prefix r = p" using assms(1) by (simp_all add: numbered_def)
  have next_seq: "unat (reg_seq r + 1) = Suc (unat (reg_seq r))"
  proof -
    have "unat (reg_seq r) + 1 < 2 ^ LENGTH(64)" using seq assms(2) by simp
    then show ?thesis by (simp add: unat_add_lem [THEN iffD1])
  qed
  note parts = store_parts [OF assms(3), unfolded next_seq]
  have "\<exists>n. n \<le> Suc (unat (reg_seq r)) \<and> sid1 = reg_prefix r @ FormatUint n" if "get sid1 r' \<noteq> None" for sid1
  proof (cases "sid1 = sid")
    case False
    with that parts(1) have "get sid1 r \<noteq> None" by simp
    with assms(1) show ?thesis unfolding numbered_def by (meson le_SucI)
  qed (use parts(4) in auto)
  with seq parts(2,3) next_seq p show "numbered p (Suc m) r'" by (simp add: numbered_def)
  show "get sid r = None"
  proof (rule ccontr)
    assume "get sid r \<noteq> None"
    with assms(1) obtain n where "n \<le> unat (reg_seq r)" "sid = reg_prefix r @ FormatUint n" by (auto simp: numbered_def)
    with parts(4) FormatUint_inj [of n "Suc (unat (reg_seq r))"] show False by simp
  qed
qed

section \<open>What a tool must do with its sessions\<close>

text \<open>
  \<open>owned\<close> are the sessions of the tool. The tool starts its own sessions, resumes one by advancing
  it, and answers with the session's pending call or with its report on the outcome.
\<close>

definition render_session ::
  "json_syntax \<Rightarrow> ('a \<Rightarrow> tool_error + string) \<Rightarrow> string \<Rightarrow> 'a session \<Rightarrow> 'a sessionRegistry \<Rightarrow>
   (tool_error + string) \<times> 'a sessionRegistry" where
  "render_session js report sid s r =
     (case Result_of s of
        Some out \<Rightarrow> (report out, remove sid r)
      | None \<Rightarrow>
          ((case Pending s of
              None \<Rightarrow> Inl (NeitherDoneNorPending sid)
            | Some c \<Rightarrow> Inr (pendingReply js sid c)), r))"

text \<open>An error that does not come from the state of a session.\<close>

definition ordinary :: "tool_error \<Rightarrow> bool" where
  "ordinary err \<longleftrightarrow> (\<forall>sid. err \<noteq> NeitherDoneNorPending sid) \<and> (\<forall>e. err \<noteq> SessionFailed e)"

locale session_tool =
  fixes begins :: "'arg \<Rightarrow> 'a sessionRegistry \<Rightarrow> 'a begun"
    and render :: "string \<Rightarrow> 'a session \<Rightarrow> 'a sessionRegistry \<Rightarrow> (tool_error + string) \<times> 'a sessionRegistry"
    and js :: json_syntax
    and report :: "'a \<Rightarrow> tool_error + string"
    and owned :: "'a session \<Rightarrow> bool"
  assumes starts: "begins a r = Started s \<Longrightarrow> owned s"
    and resumes: "begins a r = Resumed sid s \<Longrightarrow> \<exists>s0 hr. get sid r = Some s0 \<and> Advance hr s0 = Inr s"
    and refuses: "begins a r = Refused err r' \<Longrightarrow>
      r' = r \<and> ordinary err \<or> (\<exists>sid s0 hr e. get sid r = Some s0 \<and> Advance hr s0 = Inl e)"
    and owned_step: "owned s \<Longrightarrow> session_step s s' \<Longrightarrow> owned s'"
    and owned_idle: "owned s \<Longrightarrow> s_driver s = Idle \<Longrightarrow> parked s \<or> (\<exists>out. s_outcome s = Some out)"
    and renders: "render = render_session js report"
begin

definition registry_inv :: "'a sessionRegistry \<Rightarrow> bool" where
  "registry_inv r \<longleftrightarrow> (\<forall>sid s. get sid r = Some s \<longrightarrow> owned s \<and> parked s)"

lemma owned_drifts: "drifts\<^sup>*\<^sup>* s s' \<Longrightarrow> owned s \<Longrightarrow> owned s'"
  by (induction rule: rtranclp_induct) (auto intro: owned_step session_step.drift)

lemma resumed_owned:
  assumes "begins a r = Resumed sid s" and "registry_inv r"
  shows "owned s \<and> get sid r \<noteq> None"
proof -
  obtain s0 hr where s0: "get sid r = Some s0" "Advance hr s0 = Inr s" using resumes [OF assms(1)] by blast
  with assms(2) have "owned s0" "s_driver s0 = Idle" by (auto simp: registry_inv_def parked_def)
  with s0 owned_step show ?thesis by (auto intro: session_step.advances)
qed

lemma refused_harmless:
  assumes "begins a r = Refused err r'" and "registry_inv r"
  shows "r' = r \<and> ordinary err"
  using refuses [OF assms(1)] assms(2) parked_advances by (fastforce simp: registry_inv_def)

lemma render_cases:
  assumes "owned s" and "s_driver s = Idle" and "render sid s r = (out, r')"
  obtains (waiting) c where "parked s" "s_pending s = Some c" "out = Inr (pendingReply js sid c)" "r' = r"
    | (finished) res where "s_outcome s = Some res" "out = report res" "r' = remove sid r"
  using owned_idle [OF assms(1,2)] assms(3)
  by (auto simp: renders render_session_def Result_of_def Pending_def parked_def split: option.splits)

text \<open>The three ways a call ends.\<close>

lemma call_cases:
  assumes inv: "registry_inv r" and call: "call (begins a) render r out r'"
  obtains (refused) err where "out = Inl err" "r' = r" "ordinary err"
    | (waiting) sid s c where "owned s" "parked s" "s_pending s = Some c" "get sid r' = Some s"
        "out = Inr (pendingReply js sid c)" "\<And>sid'. sid' \<noteq> sid \<Longrightarrow> get sid' r' = get sid' r"
    | (finished) sid s res where "owned s" "s_outcome s = Some res" "get sid r' = None"
        "out = report res" "\<And>sid'. sid' \<noteq> sid \<Longrightarrow> get sid' r' = get sid' r"
  using call
proof cases
  case (refused err)
  with refused_harmless inv that(1) show thesis by blast
next
  case (started s0 s sid r1)
  from starts [OF started(1)] owned_drifts [OF started(2)] have s: "owned s" by blast
  from s started(3,5) show thesis
  proof (cases rule: render_cases)
    case (waiting c)
    with that(2) [OF s, of c sid] store_parts(1) [OF started(4)] show thesis by simp
  next
    case (finished res)
    with that(3) [OF s, of res sid] store_parts(1) [OF started(4)] show thesis by simp
  qed
next
  case (resumed sid s0 s)
  from resumed_owned [OF resumed(1) inv] owned_drifts [OF resumed(2)] have s: "owned s" by blast
  from s resumed(3,4) show thesis
  proof (cases rule: render_cases)
    case (waiting c)
    with that(2) [OF s, of c sid] show thesis by simp
  next
    case (finished res)
    with that(3) [OF s, of res sid] show thesis by simp
  qed
qed

lemma inv_call:
  assumes "registry_inv r" and "call (begins a) render r out r'"
  shows "registry_inv r'"
  using assms
proof (cases rule: call_cases)
  case (waiting sid s c)
  have "owned s1 \<and> parked s1" if "get sid1 r' = Some s1" for sid1 s1
    using waiting assms(1) that by (cases "sid1 = sid") (auto simp: registry_inv_def)
  then show ?thesis by (simp add: registry_inv_def)
next
  case (finished sid s res)
  have "owned s1 \<and> parked s1" if "get sid1 r' = Some s1" for sid1 s1
    using finished assms(1) that by (cases "sid1 = sid") (auto simp: registry_inv_def)
  then show ?thesis by (simp add: registry_inv_def)
qed (use assms(1) in simp)

lemma inv_drift:
  assumes "registry_inv r" and "get sid r = Some s" and "drifts s s'"
  shows "registry_inv (put sid s' r)"
proof -
  from assms(1,2) have s: "owned s" "parked s" by (auto simp: registry_inv_def)
  with owned_drifts [of s s'] drifts_parked [OF s(2) assms(3)] assms(3) have "owned s'" "parked s'" by blast+
  with assms(1) show ?thesis by (auto simp: registry_inv_def)
qed

lemma inv_step: "registry_step begins render r r' \<Longrightarrow> registry_inv r \<Longrightarrow> registry_inv r'"
  by (induction rule: registry_step.induct) (auto intro: inv_call inv_drift)

lemma inv_new: "registry_inv (newRegistry p)"
  by (simp add: registry_inv_def)

lemma inv_reachable: "(registry_step begins render)\<^sup>*\<^sup>* (newRegistry p) r \<Longrightarrow> registry_inv r"
  by (induction rule: rtranclp_induct) (auto intro: inv_step inv_new)

lemma named_render: "render sid s r = (out, r') \<Longrightarrow> named p r \<Longrightarrow> named p r'"
  by (auto simp: renders render_session_def split: option.splits)

lemma named_step:
  assumes "registry_inv r" and "registry_step begins render r r'" and "named p r"
  shows "named p r'"
  using assms(2)
proof cases
  case (called a out)
  from called show ?thesis
  proof cases
    case (refused err)
    with refused_harmless [OF _ assms(1)] assms(3) show ?thesis by blast
  next
    case (started s0 s sid r1)
    with named_render named_store assms(3) show ?thesis by blast
  next
    case (resumed sid s0 s)
    with resumed_owned [OF _ assms(1)] have "get sid r \<noteq> None" by blast
    with named_render [OF resumed(4)] assms(3) show ?thesis by simp
  qed
qed (use assms(3) in simp)

lemma named_reachable: "(registry_step begins render)\<^sup>*\<^sup>* (newRegistry p) r \<Longrightarrow> named p r"
  by (induction rule: rtranclp_induct) (auto intro: named_step inv_reachable)

lemma numbered_render:
  assumes "render sid s r = (out, r')" and "numbered p m r"
  shows "numbered p m r'"
proof -
  have "numbered p m (remove sid r)" by (rule numbered_mono [OF assms(2)]) (auto split: if_splits)
  with assms show ?thesis by (auto simp: renders render_session_def split: option.splits)
qed

lemma numbered_step:
  assumes "registry_inv r" and "registry_step begins render r r'" and "numbered p m r" and "m < 2 ^ 64 - 1"
  shows "numbered p (Suc m) r'"
  using assms(2)
proof cases
  case (called a out)
  from called show ?thesis
  proof cases
    case (refused err)
    with refused_harmless [OF _ assms(1)] have "r' = r" by blast
    with numbered_mono [OF assms(3), of "Suc m" r] show ?thesis by simp
  next
    case (started s0 s sid r1)
    from numbered_render [OF started(5)] numbered_store(1) [OF assms(3,4) started(4)] show ?thesis by blast
  next
    case (resumed sid s0 s)
    with resumed_owned [OF _ assms(1)] have "get sid r \<noteq> None" by blast
    then have "numbered p (Suc m) (put sid s r)" by (intro numbered_mono [OF assms(3)]) (auto split: if_splits)
    with numbered_render [OF resumed(4)] show ?thesis by blast
  qed
next
  case (drifted sid s s')
  then show ?thesis by (auto intro!: numbered_mono [OF assms(3)] split: if_splits)
qed

lemma numbered_run:
  assumes "(registry_step begins render ^^ n) (newRegistry p) r" and "n < 2 ^ 64"
  shows "numbered p n r \<and> registry_inv r"
  using assms
proof (induction n arbitrary: r)
  case 0
  then show ?case by (auto simp: numbered_def registry_inv_def)
next
  case (Suc n)
  then obtain r1 where "(registry_step begins render ^^ n) (newRegistry p) r1" "registry_step begins render r1 r" by auto
  with Suc.IH [of r1] Suc.prems(2) inv_step [of r1 r] numbered_step [of r1 r _ n] show ?case by simp
qed

end

end
