(* ===== verification/Token_Cmd.thy ===== *)
theory Token_Cmd
  imports Token_Registry Mcp_Server
begin

text \<open>
  The two tools of the token extension (\<open>src/cmd/token/main.go\<close>): \<open>token_verify\<close> and \<open>token_mint\<close>,
  from their arguments to their answers. \<open>verify_begin\<close> and \<open>mint_begin\<close> are the handlers up to
  where a session is handed on to run, \<open>verify_render\<close> and \<open>mint_render\<close> from where its driver is
  free again; both tools are interpretations of \<open>session_tool\<close> (\<open>Token_Registry\<close>).

  The base58 form of keys, the raw text of a JSON value and the texts of errors are arguments.
\<close>

section \<open>The supply\<close>

text \<open>\<open>parseSupply\<close> works on the raw text of the member, empty when it is missing.\<close>

definition parseSupply :: "string \<Rightarrow> tool_error + u64" where
  "parseSupply raw =
     (if length raw = 0 \<or> raw = ''null'' then Inr 0
      else
        (let s = (if 2 \<le> length raw \<and> raw ! 0 = CHR 0x22 \<and> raw ! (length raw - 1) = CHR 0x22
                  then take (length raw - 2) (drop 1 raw) else raw) in
         case ParseUint64 s of None \<Rightarrow> Inl BadSupply | Some n \<Rightarrow> Inr n))"

section \<open>The verify tool\<close>

record token_lib =
  tk_sdk :: sdk
  tk_js :: json_syntax
  tk_parse :: "string \<Rightarrow> string + pubkey"
  tk_String :: "pubkey \<Rightarrow> string"
  tk_raw :: "json \<Rightarrow> string"
  tk_error :: "mint_error \<Rightarrow> string"

definition newVerifyService :: "VerifyOutcome sessionRegistry" where
  "newVerifyService = newRegistry ''verify-''"

definition verify_begin :: "token_lib \<Rightarrow> rawMessage \<Rightarrow> VerifyOutcome sessionRegistry \<Rightarrow> VerifyOutcome begun" where
  "verify_begin lib arguments r =
     (case Option.bind arguments json_members of
        None \<Rightarrow> Refused BadInput r
      | Some kvs \<Rightarrow>
          (case (decode_resume kvs, field_string ''mint'' [] kvs) of
             (Some a, Some mint) \<Rightarrow>
               if ra_Session a = [] then
                 (case tk_parse lib mint of
                    Inl err \<Rightarrow> Refused (BadMintAddress err) r
                  | Inr pk \<Rightarrow> Started (StartVerify (tk_sdk lib) pk))
               else resume a r
           | _ \<Rightarrow> Refused BadInput r))"

definition show_bool :: "bool \<Rightarrow> string" where
  "show_bool b = (if b then ''true'' else ''false'')"

definition verify_report :: "token_lib \<Rightarrow> VerifyOutcome \<Rightarrow> tool_error + string" where
  "verify_report lib out =
     (case vo_Err out of
        Some err \<Rightarrow>
          if err = ErrToken2022Mint then
            Inr (''mint '' @ tk_String lib (ms_Mint (vo_State out)) @
              '': UNSAFE - Token-2022 mint that may carry transfer hooks, transfer fees, '' @
              ''or a permanent delegate; not a plain fixed-supply SPL mint'')
          else Inl (VerifyError err)
      | None \<Rightarrow>
          let st = vo_State out in
          Inr (''mint '' @ tk_String lib (ms_Mint st) @ '': supply='' @ FormatUint (unat (ms_Supply st)) @
            '' decimals='' @ FormatUint (unat (ms_Decimals st)) @
            '' mintAuthorityRevoked='' @ show_bool (SupplyFixed st) @
            '' freezeAbsent='' @ show_bool (\<not> Freezable st)))"

definition verify_render ::
  "token_lib \<Rightarrow> string \<Rightarrow> VerifyOutcome session \<Rightarrow> VerifyOutcome sessionRegistry \<Rightarrow>
   (tool_error + string) \<times> VerifyOutcome sessionRegistry" where
  "verify_render lib sid s r =
     (case Result_of s of
        Some out \<Rightarrow> (verify_report lib out, remove sid r)
      | None \<Rightarrow>
          ((case Pending s of
              None \<Rightarrow> Inl (NeitherDoneNorPending sid)
            | Some c \<Rightarrow> Inr (pendingReply (tk_js lib) sid c)), r))"

section \<open>The mint tool\<close>

text \<open>A \<open>uint8\<close> accepts a number literal from 0 to 255.\<close>

fun field_u8 :: "string \<Rightarrow> byte \<Rightarrow> (string \<times> json) list \<Rightarrow> byte option" where
  "field_u8 f cur [] = Some cur"
| "field_u8 f cur ((k, v) # kvs) =
     (if matches_field f k then
        (case v of
           JNumber s \<Rightarrow>
             (case ParseUint64 s of
                None \<Rightarrow> None
              | Some n \<Rightarrow> if unat n < 256 then field_u8 f (of_nat (unat n)) kvs else None)
         | JNull \<Rightarrow> field_u8 f cur kvs
         | _ \<Rightarrow> None)
      else field_u8 f cur kvs)"

record mint_args =
  mg_HostKey :: string
  mg_Name :: string
  mg_Symbol :: string
  mg_MetadataURI :: string
  mg_Decimals :: byte
  mg_Supply :: rawMessage
  mg_Treasury :: string

definition decode_mint_args :: "(string \<times> json) list \<Rightarrow> mint_args option" where
  "decode_mint_args kvs =
     (case (field_string ''_hostKey'' [] kvs, field_string ''name'' [] kvs, field_string ''symbol'' [] kvs,
            field_string ''metadataUri'' [] kvs, field_u8 ''decimals'' 9 kvs, field_string ''treasury'' [] kvs) of
        (Some hk, Some n, Some sy, Some uri, Some d, Some t) \<Rightarrow>
          Some \<lparr>mg_HostKey = hk, mg_Name = n, mg_Symbol = sy, mg_MetadataURI = uri, mg_Decimals = d,
                mg_Supply = field_raw ''supply'' None kvs, mg_Treasury = t\<rparr>
      | _ \<Rightarrow> None)"

definition raw_text :: "token_lib \<Rightarrow> rawMessage \<Rightarrow> string" where
  "raw_text lib raw = (case raw of None \<Rightarrow> [] | Some j \<Rightarrow> tk_raw lib j)"

definition parse_treasury :: "token_lib \<Rightarrow> string \<Rightarrow> string + pubkey" where
  "parse_treasury lib t = (if t = [] then Inr zero_pubkey else tk_parse lib t)"

definition start_mint ::
  "token_lib \<Rightarrow> MintOption list \<Rightarrow> pubkey \<times> bytes \<Rightarrow> mint_args \<Rightarrow> tool_error + Outcome session" where
  "start_mint lib opts wallet a =
     (case ParsePubkeyBytes (mg_HostKey a) of
        Inl err \<Rightarrow> Inl (BadHostKey err)
      | Inr payer \<Rightarrow>
     (case parseSupply (raw_text lib (mg_Supply a)) of
        Inl err \<Rightarrow> Inl err
      | Inr supply \<Rightarrow>
     (case parse_treasury lib (mg_Treasury a) of
        Inl err \<Rightarrow> Inl (BadTreasury err)
      | Inr t \<Rightarrow>
          Inr (StartMint (tk_sdk lib) payer wallet
            \<lparr>sp_Name = mg_Name a, sp_Symbol = mg_Symbol a, sp_MetadataURI = mg_MetadataURI a,
             sp_Decimals = mg_Decimals a, sp_Supply = supply, sp_Treasury = t\<rparr> opts))))"

definition newMintService :: "Outcome sessionRegistry" where
  "newMintService = newRegistry ''mint-''"

definition mint_begin ::
  "token_lib \<Rightarrow> MintOption list \<Rightarrow> pubkey \<times> bytes \<Rightarrow> rawMessage \<Rightarrow> Outcome sessionRegistry \<Rightarrow> Outcome begun" where
  "mint_begin lib opts wallet arguments r =
     (case Option.bind arguments json_members of
        None \<Rightarrow> Refused BadInput r
      | Some kvs \<Rightarrow>
          (case (decode_resume kvs, decode_mint_args kvs) of
             (Some a, Some m) \<Rightarrow>
               if ra_Session a = [] then
                 (case start_mint lib opts wallet m of Inl err \<Rightarrow> Refused err r | Inr s \<Rightarrow> Started s)
               else resume a r
           | _ \<Rightarrow> Refused BadInput r))"

definition mint_report :: "token_lib \<Rightarrow> Outcome \<Rightarrow> string" where
  "mint_report lib out =
     marshal (tk_js lib) (JObject (
       (if out_Disclosures out = [] then [] else [(''disclosures'', JArray (map (\<lambda>d.
          JObject [(''code'', JString (vi_Code d)), (''detail'', JString (vi_Detail d))]) (out_Disclosures out)))]) @
       [(''done'', JBool True)] @
       (case out_Err out of None \<Rightarrow> [] | Some err \<Rightarrow> [(''error'', JString (tk_error lib err))]) @
       [(''mint'', JString (tk_String lib (out_Mint out)))]))"

definition mint_render ::
  "token_lib \<Rightarrow> string \<Rightarrow> Outcome session \<Rightarrow> Outcome sessionRegistry \<Rightarrow>
   (tool_error + string) \<times> Outcome sessionRegistry" where
  "mint_render lib sid s r =
     (case Result_of s of
        Some out \<Rightarrow> (Inr (mint_report lib out), remove sid r)
      | None \<Rightarrow>
          ((case Pending s of
              None \<Rightarrow> Inl (NeitherDoneNorPending sid)
            | Some c \<Rightarrow> Inr (pendingReply (tk_js lib) sid c)), r))"

section \<open>The server\<close>

text \<open>
  The tools as they are registered. A tool call may wait for its session, so the handlers are
  arguments here and the calls are the relation below.
\<close>

definition string_type :: json where
  "string_type = JObject [(''type'', JString ''string'')]"

definition integer_type :: json where
  "integer_type = JObject [(''type'', JString ''integer'')]"

definition verify_tool :: "('s \<Rightarrow> rawMessage \<Rightarrow> (string + string) \<times> 's) \<Rightarrow> 's Tool" where
  "verify_tool handle =
     \<lparr>Name = ''token_verify'',
      Description = ''Verify a Solana mint: report supply, decimals, and whether the mint and freeze authorities '' @
        ''are revoked (a safe token has both revoked). The chain is read through the host, which holds the RPC '' @
        ''endpoint, so the call completes through the host's fetch loop.'',
      InputSchema = Some (JObject [(''type'', JString ''object''), (''properties'', JObject [(''mint'', string_type)])]),
      Handler = handle\<rparr>"

definition mint_tool :: "('s \<Rightarrow> rawMessage \<Rightarrow> (string + string) \<times> 's) \<Rightarrow> 's Tool" where
  "mint_tool handle =
     \<lparr>Name = ''token_mint'',
      Description = ''Mint a new fixed-supply SPL token safely on Solana: create the mint, attach metadata, '' @
        ''mint the whole supply to the treasury, then revoke the mint authority (freeze authority is never set). A '' @
        ''scam-shaped request is refused. Call it with {name,symbol,metadataUri,decimals,supply,treasury}; treasury '' @
        ''is the address that receives the whole supply and should be a multisig vault (omit it on a test cluster '' @
        ''and the payer keeps the supply; on mainnet omitting it is refused). The transactions are signed by the '' @
        ''host with a key this tool never holds and submitted through the host's RPC endpoint, so the call '' @
        ''completes through the host's call loop and returns {done,mint}.'',
      InputSchema = Some (JObject [(''type'', JString ''object''),
        (''properties'', JObject [(''name'', string_type), (''symbol'', string_type), (''metadataUri'', string_type),
           (''decimals'', integer_type), (''supply'', integer_type),
           (''treasury'', JObject [(''type'', JString ''string''), (''description'',
              JString ''base58 address receiving the whole supply (a multisig vault); required on mainnet'')])]),
        (''required'', JArray [JString ''name'', JString ''symbol'', JString ''metadataUri'', JString ''supply''])]),
      Handler = handle\<rparr>"

definition token_server ::
  "string \<Rightarrow> ('s \<Rightarrow> rawMessage \<Rightarrow> (string + string) \<times> 's) \<Rightarrow> ('s \<Rightarrow> rawMessage \<Rightarrow> (string + string) \<times> 's) \<Rightarrow> 's Server" where
  "token_server version verify_handle mint_handle =
     Register (mint_tool mint_handle) (Register (verify_tool verify_handle) (New ''token'' version))"

section \<open>Calls and sessions\<close>

abbreviation verify_call where
  "verify_call lib arguments \<equiv> call (verify_begin lib arguments) (verify_render lib)"

abbreviation mint_call where
  "mint_call lib opts wallet arguments \<equiv> call (mint_begin lib opts wallet arguments) (mint_render lib)"

abbreviation mint_step :: "token_lib \<Rightarrow> MintOption list \<Rightarrow> Outcome sessionRegistry \<Rightarrow> Outcome sessionRegistry \<Rightarrow> bool" where
  "mint_step lib opts \<equiv> registry_step (\<lambda>(wallet, arguments). mint_begin lib opts wallet arguments) (mint_render lib)"

abbreviation verify_step :: "token_lib \<Rightarrow> VerifyOutcome sessionRegistry \<Rightarrow> VerifyOutcome sessionRegistry \<Rightarrow> bool" where
  "verify_step lib \<equiv> registry_step (verify_begin lib) (verify_render lib)"

text \<open>
  The sessions of the two tools: a mint session has come from a start with a host key of 32
  bytes, a verify session from a start with some key.
\<close>

definition mint_session_of :: "token_lib \<Rightarrow> MintOption list \<Rightarrow> Outcome session \<Rightarrow> bool" where
  "mint_session_of lib opts s \<longleftrightarrow>
     (\<exists>payer wallet spec. length payer = 32 \<and> session_step\<^sup>*\<^sup>* (StartMint (tk_sdk lib) payer wallet spec opts) s)"

definition verify_session_of :: "token_lib \<Rightarrow> VerifyOutcome session \<Rightarrow> bool" where
  "verify_session_of lib s \<longleftrightarrow> (\<exists>pk. session_step\<^sup>*\<^sup>* (StartVerify (tk_sdk lib) pk) s)"

lemma mint_session_inv:
  assumes "mint_session_of lib opts s"
  obtains payer wallet spec e pinned where "length payer = 32"
    "s_run s = mint_lifecycle (tk_sdk lib) payer pinned wallet spec e" "session_inv s"
proof -
  obtain payer wallet spec where p: "length payer = 32"
    and s: "session_step\<^sup>*\<^sup>* (StartMint (tk_sdk lib) payer wallet spec opts) s"
    using assms by (auto simp: mint_session_of_def)
  obtain e pinned where "NewEngine (engine_options opts) = (e, pinned)" by fastforce
  from StartMint_reachable [OF s this] p that show thesis by blast
qed

lemma verify_session_inv:
  assumes "verify_session_of lib s"
  obtains pk e where "s_run s = verify_lifecycle (tk_sdk lib) pk e" "session_inv s"
  using assms verify_session.inv_reachable unfolding verify_session_of_def StartVerify_def by blast

lemma session_inv_idle: "session_inv s \<Longrightarrow> s_driver s = Idle \<Longrightarrow> parked s \<or> (\<exists>out. s_outcome s = Some out)"
  by (auto simp: session_inv_def parked_def)

lemma start_mint_session:
  assumes "start_mint lib opts wallet a = Inr s"
  shows "mint_session_of lib opts s"
proof -
  have "ParsePubkeyBytes b = Inr payer \<Longrightarrow> length payer = 32" for b payer
    by (auto simp: ParsePubkeyBytes_def PublicKeyLength_def split: option.splits if_splits)
  moreover have "length payer = 32 \<Longrightarrow> mint_session_of lib opts (StartMint (tk_sdk lib) payer wallet spec opts)" for payer spec
    unfolding mint_session_of_def by blast
  ultimately show ?thesis
    using assms unfolding start_mint_def by (auto split: sum.splits)
qed

text \<open>How a resumption and a start end.\<close>

lemma resume_cases:
  "resume a r \<noteq> Started s"
  "resume a r = Resumed sid s \<Longrightarrow> \<exists>s0 hr. get sid r = Some s0 \<and> Advance hr s0 = Inr s"
  "resume a r = Refused err r' \<Longrightarrow>
     r' = r \<and> ordinary err \<or> (\<exists>sid s0 hr e. get sid r = Some s0 \<and> Advance hr s0 = Inl e)"
  using reply_error [of a] by (auto simp: resume_def ordinary_def split: option.splits sum.splits)

declare resume_cases(1) [simp]

lemma start_refused: "start_mint lib opts wallet m = Inl err \<Longrightarrow> ordinary err"
  by (auto simp: start_mint_def parseSupply_def ordinary_def Let_def split: sum.splits option.splits if_splits)

interpretation mint_sessions: session_tool "\<lambda>(wallet, arguments). mint_begin lib opts wallet arguments" "mint_render lib"
  "tk_js lib" "\<lambda>out. Inr (mint_report lib out)" "mint_session_of lib opts" for lib opts
proof (unfold_locales, goal_cases)
  case (1 a r s)
  then show ?case
    using start_mint_session
    by (auto simp: mint_begin_def split: prod.splits option.splits if_splits sum.splits)
next
  case (2 a r sid s)
  then show ?case
    using resume_cases(2) by (auto simp: mint_begin_def split: prod.splits option.splits if_splits sum.splits)
next
  case (3 a r err r')
  then show ?case
    using resume_cases(3) start_refused
    by (auto simp: mint_begin_def split: prod.splits option.splits if_splits sum.splits) (auto simp: ordinary_def)
next
  case (4 s s')
  then show ?case unfolding mint_session_of_def by (meson rtranclp.rtrancl_into_rtrancl)
next
  case (5 s)
  from 5(1) show ?case by (rule mint_session_inv) (rule session_inv_idle [OF _ 5(2)])
next
  case 6
  show ?case by (intro ext) (simp add: mint_render_def render_session_def)
qed

interpretation verify_sessions: session_tool "verify_begin lib" "verify_render lib" "tk_js lib" "verify_report lib"
  "verify_session_of lib" for lib
proof (unfold_locales, goal_cases)
  case (1 a r s)
  then show ?case
    by (auto simp: verify_begin_def verify_session_of_def split: option.splits if_splits sum.splits)
next
  case (2 a r sid s)
  then show ?case
    using resume_cases(2) by (auto simp: verify_begin_def split: option.splits if_splits sum.splits)
next
  case (3 a r err r')
  then show ?case
    using resume_cases(3) by (auto simp: verify_begin_def split: option.splits if_splits sum.splits) (auto simp: ordinary_def)
next
  case (4 s s')
  then show ?case unfolding verify_session_of_def by (meson rtranclp.rtrancl_into_rtrancl)
next
  case (5 s)
  from 5(1) show ?case by (rule verify_session_inv) (rule session_inv_idle [OF _ 5(2)])
next
  case 6
  show ?case by (intro ext) (simp add: verify_render_def render_session_def)
qed

section \<open>A sample call\<close>

definition sample_lib :: token_lib where
  "sample_lib = \<lparr>tk_sdk = sample_sdk, tk_js = \<lparr>json_parse = (\<lambda>_. None),
       json_print = (\<lambda>j. case j of JObject (kv # _) \<Rightarrow> bytes_of_string (fst kv) | _ \<Rightarrow> [])\<rparr>,
     tk_parse = (\<lambda>_. Inl []), tk_String = (\<lambda>_. []),
     tk_raw = (\<lambda>j. case j of JNumber s \<Rightarrow> s | _ \<Rightarrow> []), tk_error = (\<lambda>_. [])\<rparr>"

definition sample_arguments :: "(string \<times> json) list" where
  "sample_arguments =
     [(''_hostKey'', JString (EncodeToString sample_payer)), (''name'', JString ''acme''), (''symbol'', JString ''acm''),
      (''metadataUri'', JString ''u''), (''decimals'', JNumber ''2''), (''supply'', JNumber ''10'')]"

definition sample_registry :: "Outcome sessionRegistry" where
  "sample_registry = snd (store sample_parked newMintService)"

lemmas field_simps_eval = matches_field_def upper_char_def char_of_def bit_0 Let_def

lemma sample_decode:
  "decode_resume sample_arguments = Some \<lparr>ra_Session = [], ra_Signature = [], ra_SignError = [], ra_Response = [], ra_FetchErr = []\<rparr>"
  "decode_mint_args sample_arguments =
     Some \<lparr>mg_HostKey = EncodeToString sample_payer, mg_Name = ''acme'', mg_Symbol = ''acm'', mg_MetadataURI = ''u'',
       mg_Decimals = 2, mg_Supply = Some (JNumber ''10''), mg_Treasury = []\<rparr>"
  by (simp_all add: decode_resume_def decode_mint_args_def sample_arguments_def field_simps_eval ParseUint64_def)

lemma sample_begin: "mint_begin sample_lib [] (sample_mint, [1]) (Some (JObject sample_arguments)) r = Started sample_session"
proof -
  have "ParsePubkeyBytes (EncodeToString sample_payer) = Inr sample_payer"
    by (simp add: ParsePubkeyBytes_def base64_roundtrip sample_payer_def PublicKeyLength_def)
  moreover have "parseSupply ''10'' = Inr 10" by (simp add: parseSupply_def ParseUint64_def Let_def)
  ultimately show ?thesis
    by (simp add: mint_begin_def json_members_def sample_decode start_mint_def raw_text_def sample_lib_def
        parse_treasury_def sample_session_def sample_spec_def zero_pubkey_def)
qed

text \<open>The syntax of JSON has no part in it.\<close>

lemma mint_begin_syntax: "mint_begin (lib\<lparr>tk_js := js\<rparr>) = mint_begin lib"
proof -
  have parts: "raw_text (lib\<lparr>tk_js := js\<rparr>) = raw_text lib" "parse_treasury (lib\<lparr>tk_js := js\<rparr>) = parse_treasury lib"
    "tk_sdk (lib\<lparr>tk_js := js\<rparr>) = tk_sdk lib"
    by (auto simp: raw_text_def parse_treasury_def fun_eq_iff split: option.splits)
  have "start_mint (lib\<lparr>tk_js := js\<rparr>) = start_mint lib"
    by (intro ext) (unfold start_mint_def parts, rule refl)
  then show ?thesis by (intro ext) (unfold mint_begin_def, simp only:)
qed

lemma sample_mint_call:
  "mint_call (sample_lib\<lparr>tk_js := js\<rparr>) [] (sample_mint, [1]) (Some (JObject sample_arguments)) newMintService
     (Inr (pendingReply js ''mint-1'' sample_call_body)) sample_registry"
proof (rule call.started)
  show "mint_begin (sample_lib\<lparr>tk_js := js\<rparr>) [] (sample_mint, [1]) (Some (JObject sample_arguments)) newMintService =
      Started sample_session"
    unfolding mint_begin_syntax by (rule sample_begin)
  show "drifts\<^sup>*\<^sup>* sample_session sample_parked"
    by (rule r_into_rtranclp, rule drifts.work, rule sample_works)
  show "s_driver sample_parked = Idle" by (simp add: sample_parked_def)
  show "store sample_parked newMintService = (''mint-1'', sample_registry)"
    by (simp add: sample_registry_def newMintService_def store_def newRegistry_def FormatUint.simps Let_def char_of_def bit_0)
  show "mint_render (sample_lib\<lparr>tk_js := js\<rparr>) ''mint-1'' sample_parked sample_registry =
      (Inr (pendingReply js ''mint-1'' sample_call_body), sample_registry)"
    by (simp add: mint_render_def Result_of_def Pending_def sample_parked_def sample_session_parts)
qed

lemma sample_call_once:
  "mint_call sample_lib [] (sample_mint, [1]) (Some (JObject sample_arguments)) newMintService
     (Inr (pendingReply (tk_js sample_lib) ''mint-1'' sample_call_body)) sample_registry"
proof -
  have "sample_lib\<lparr>tk_js := tk_js sample_lib\<rparr> = sample_lib" by simp
  with sample_mint_call [of "tk_js sample_lib"] show ?thesis by (simp only:)
qed

section \<open>Properties\<close>

lemma mint_call_of_pair:
  "mint_call lib opts wallet arguments r out r' \<Longrightarrow>
     call ((\<lambda>(wallet, arguments). mint_begin lib opts wallet arguments) (wallet, arguments)) (mint_render lib) r out r'"
  by simp

text \<open>What the host must know of a request to sign, and of a report without an error.\<close>

definition guarded_request :: "sdk \<Rightarrow> SignRequest \<Rightarrow> bool" where
  "guarded_request k rq \<longleftrightarrow>
     (\<exists>mint spec net ixs bh tx. length (sr_Pubkey rq) = 32 \<and> harmless (mint_plan k (sr_Pubkey rq) net spec) \<and>
        buildMint k (sr_Pubkey rq) mint (treasury (sr_Pubkey rq) spec) spec = Inr ixs \<and>
        NewTransaction k ixs bh (sr_Pubkey rq) = Inr tx \<and> tx_Message tx = Inr (sr_Message rq))"

definition read_safe :: "sdk \<Rightarrow> pubkey \<Rightarrow> event list \<Rightarrow> bool" where
  "read_safe k mint es \<longleftrightarrow>
     (\<exists>before cx st es1 ms st'. es = before @ es1 \<and> Verify cx k mint st es1 = Result (Inr ms) st' [] \<and>
        ms_MintAuthority ms = None \<and> ms_FreezeAuthority ms = None)"

lemma pending_sign_guarded:
  assumes "mint_session_of lib opts s" and "s_pending s = Some (SignCall rq)"
  shows "guarded_request (tk_sdk lib) rq"
  using assms(1)
proof (cases rule: mint_session_inv)
  case (1 payer wallet spec e pinned)
  then obtain p b where "mint_lifecycle (tk_sdk lib) payer pinned wallet spec e p = Blocked (WaitSend (SignCall rq) b)"
    using assms(2) by (auto simp: session_inv_def asked_def)
  then have "Mint (tk_sdk lib) payer pinned wallet spec e p = Blocked (WaitSend (SignCall rq) b)"
    by (auto simp: mint_lifecycle_def andThen_Blocked return_def split: prod.splits)
  from Mint_guarded [OF this] 1(1) show ?thesis
    unfolding guarded_request_def sign_request_for_def by auto metis
qed

lemma finished_read:
  assumes "mint_session_of lib opts s" and "s_outcome s = Some res" and "out_Err res = None"
  shows "read_safe (tk_sdk lib) (out_Mint res) (s_history s)"
  using assms(1)
proof (cases rule: mint_session_inv)
  case (1 payer wallet spec e pinned)
  then obtain st' where "mint_lifecycle (tk_sdk lib) payer pinned wallet spec e (s_history s) = Result res st' []"
    using assms(2) by (auto simp: session_inv_def)
  with assms(3) obtain d where "Mint (tk_sdk lib) payer pinned wallet spec e (s_history s) = Result (out_Mint res, d, None) st' []"
    by (auto simp: mint_lifecycle_def andThen_Result return_def)
  from Mint_verified [OF this] show ?thesis unfolding read_safe_def by blast
qed

text \<open>
  C7: what the mint tool tells its host. In any history of the tool, whatever the host passes
  in and whenever deadlines pass, a call that returns gives an error and changes nothing, or
  the next thing to do for a stored session, or the report of a session that is gone. What it
  asks to have signed is always a transaction of a guarded mint: by the key the host named,
  compiled from the instructions of a plan the safety policy passes. What it reports without
  an error is a mint that was read from the chain as the last thing in its session, without
  mint authority and without freeze authority.
\<close>

theorem mint_tool_replies:
  assumes "(mint_step lib opts)\<^sup>*\<^sup>* newMintService r" and "mint_call lib opts wallet arguments r out r'"
  shows "(\<exists>err. out = Inl err \<and> r' = r) \<or>
    (\<exists>sid s c. get sid r' = Some s \<and> Pending s = Some c \<and> out = Inr (pendingReply (tk_js lib) sid c) \<and>
       (\<forall>rq. c = SignCall rq \<longrightarrow> guarded_request (tk_sdk lib) rq)) \<or>
    (\<exists>sid s res. get sid r' = None \<and> mint_session_of lib opts s \<and> Result_of s = Some res \<and>
       out = Inr (mint_report lib res) \<and>
       (out_Err res = None \<longrightarrow> read_safe (tk_sdk lib) (out_Mint res) (s_history s)))"
  using mint_sessions.inv_reachable [OF assms(1) [unfolded newMintService_def]] mint_call_of_pair [OF assms(2)]
proof (cases rule: mint_sessions.call_cases)
  case (waiting sid s c)
  then have "\<forall>rq. c = SignCall rq \<longrightarrow> guarded_request (tk_sdk lib) rq" using pending_sign_guarded by blast
  with waiting(3-5) show ?thesis unfolding Pending_def by blast
next
  case (finished sid s res)
  with finished_read show ?thesis unfolding Result_of_def by blast
qed blast

theorem mint_tool_replies_witness:
  "\<exists>out sid s c. mint_call sample_lib [] (sample_mint, [1]) (Some (JObject sample_arguments)) newMintService
       (Inr out) sample_registry \<and>
     get sid sample_registry = Some s \<and> Pending s = Some c \<and> out = pendingReply (tk_js sample_lib) sid c"
proof -
  have "mint_report sample_lib res \<noteq> pendingReply (tk_js sample_lib) ''mint-1'' sample_call_body" for res
    by (auto simp: mint_report_def pendingReply_def marshal_def sample_lib_def)
  with mint_tool_replies [OF rtranclp.rtrancl_refl sample_call_once] sample_call_once
  show ?thesis by fastforce
qed

text \<open>
  C40: a stored session can always be resumed, and ids are not reused. As long as fewer than
  \<open>2 ^ 64 - 1\<close> things have happened, every session in the registry shows a pending call and no
  outcome and accepts a reply, and the id the next session gets is not in use.
\<close>

theorem stored_sessions_resume:
  assumes "(mint_step lib opts ^^ n) newMintService r" and "n < 2 ^ 64 - 1"
  shows "(get sid r = Some s \<longrightarrow> Pending s \<noteq> None \<and> Result_of s = None \<and> (\<exists>s'. Advance hr s = Inr s')) \<and>
    get (fst (store s0 r)) r = None"
proof -
  have "n < 2 ^ 64" using assms(2) by simp
  with mint_sessions.numbered_run [OF assms(1) [unfolded newMintService_def]] have "numbered ''mint-'' n r" and
    inv: "mint_sessions.registry_inv lib opts r" by blast+
  then have "get (fst (store s0 r)) r = None"
    using numbered_store(2) [OF _ assms(2), of _ r s0] by (metis prod.collapse)
  moreover have "Pending s \<noteq> None \<and> Result_of s = None \<and> (\<exists>s'. Advance hr s = Inr s')" if "get sid r = Some s"
    using inv that parked_advances [of s hr] by (auto simp: mint_sessions.registry_inv_def parked_def Pending_def Result_of_def)
  ultimately show ?thesis by blast
qed

theorem stored_sessions_resume_witness:
  "(mint_step sample_lib [] ^^ 1) newMintService sample_registry \<and>
   get ''mint-1'' sample_registry = Some sample_parked \<and> (\<exists>s'. Advance zero_reply sample_parked = Inr s') \<and>
   get (fst (store sample_parked sample_registry)) sample_registry = None"
proof -
  have run: "(mint_step sample_lib [] ^^ 1) newMintService sample_registry"
    using registry_step.called [of "\<lambda>(wallet, arguments). mint_begin sample_lib [] wallet arguments"
        "((sample_mint, [1]), Some (JObject sample_arguments))"] sample_call_once by (simp add: eq_OO)
  have stored: "get ''mint-1'' sample_registry = Some sample_parked"
    by (simp add: sample_registry_def newMintService_def store_def newRegistry_def get_def FormatUint.simps Let_def char_of_def bit_0)
  from stored_sessions_resume [OF run, of "''mint-1''" sample_parked zero_reply sample_parked] run stored
  show ?thesis by simp
qed

lemma digits_value_snoc:
  "digits_value acc (s @ [char_of (48 + d)]) = map_option (\<lambda>v. 10 * v + d) (digits_value acc s)" if "d < (10 :: nat)"
  using that by (induction s arbitrary: acc) (auto simp: Let_def)

lemma digits_value_FormatUint: "digits_value 0 (FormatUint n) = Some n"
proof (induction n rule: FormatUint.induct)
  case (1 n)
  show ?case
  proof (cases "n < 10")
    case True
    then show ?thesis by (simp add: FormatUint.simps [of n] Let_def)
  next
    case False
    with 1 digits_value_snoc [of "n mod 10" 0 "FormatUint (n div 10)"] show ?thesis
      by (simp add: FormatUint.simps [of n])
  qed
qed

lemma FormatUint_first: "\<exists>d ds. d < 10 \<and> FormatUint n = char_of (48 + d :: nat) # ds"
proof (induction n rule: FormatUint.induct)
  case (1 n)
  then show ?case by (cases "n < 10") (fastforce simp: FormatUint.simps [of n])+
qed

text \<open>
  The supply survives its journey. A number is accepted as a JSON number and as a decimal
  string alike and read without loss of precision, exactly when it fits into 64 bits; a larger
  one is refused, never truncated.
\<close>

theorem parseSupply_lossless:
  "parseSupply (FormatUint n) = (if n < 2 ^ 64 then Inr (of_nat n) else Inl BadSupply) \<and>
   parseSupply ([CHR 0x22] @ FormatUint n @ [CHR 0x22]) = (if n < 2 ^ 64 then Inr (of_nat n) else Inl BadSupply)"
proof -
  obtain d ds where f: "FormatUint n = char_of (48 + d :: nat) # ds" "d < 10" using FormatUint_first by blast
  have "char_of (48 + d :: nat) \<noteq> CHR 0x22 \<and> char_of (48 + d :: nat) \<noteq> CHR ''n''"
    using f(2) by (auto dest!: arg_cong [of "char_of _" _ "of_char :: char \<Rightarrow> nat"])
  moreover have "ParseUint64 (FormatUint n) = (if n < 2 ^ 64 then Some (of_nat n) else None)"
    using digits_value_FormatUint [of n] f(1) by (auto simp: ParseUint64_def)
  ultimately show ?thesis
    using f(1) by (auto simp: parseSupply_def Let_def)
qed

text \<open>
  The report on a Token-2022 mint names the wrong account. Whatever mint was asked about,
  the text starts with the all-zero key, because the outcome of a failed verification carries
  the zero state.
\<close>

theorem token2022_report_names_zero_key:
  assumes "verify_lifecycle (tk_sdk lib) mint st es = Result out st' rest" and "vo_Err out = Some ErrToken2022Mint"
    and "Result_of s = Some out"
  shows "\<exists>tail. fst (verify_render lib sid s r) = Inr (''mint '' @ tk_String lib zero_pubkey @ '': UNSAFE'' @ tail)"
proof -
  obtain v where "out = (case v of Inl err \<Rightarrow> \<lparr>vo_State = zero_state, vo_Err = Some err\<rparr>
      | Inr st \<Rightarrow> \<lparr>vo_State = st, vo_Err = None\<rparr>)"
    using assms(1) by (auto simp: verify_lifecycle_def andThen_Result return_def)
  with assms(2) have "vo_State out = zero_state" by (cases v) auto
  with assms(2,3) show ?thesis by (simp add: verify_render_def verify_report_def zero_state_def)
qed

theorem token2022_report_names_zero_key_witness:
  "\<exists>lib mint s tail. mint \<noteq> zero_pubkey \<and>
     (\<exists>out st'. verify_lifecycle (tk_sdk lib) mint sample_state (answer 1) = Result out st' [] \<and> Result_of s = Some out) \<and>
     fst (verify_render lib ''verify-1'' s newVerifyService) =
       Inr (''mint '' @ tk_String lib zero_pubkey @ '': UNSAFE'' @ tail)"
proof -
  let ?k = "sample_sdk\<lparr>addr := (\<lambda>_. replicate 32 6)\<rparr>" and ?out = "\<lparr>vo_State = zero_state, vo_Err = Some ErrToken2022Mint\<rparr>"
  let ?lib = "sample_lib\<lparr>tk_sdk := ?k\<rparr>"
  let ?s = "(newSession (verify_lifecycle ?k sample_mint sample_state))\<lparr>s_outcome := Some ?out\<rparr>"
  have run: "verify_lifecycle (tk_sdk ?lib) sample_mint sample_state (answer 1) =
      Result ?out (sample_state\<lparr>rpc_id := rpc_id sample_state + 1\<rparr>) []"
    by (simp add: verify_lifecycle_def Verify_def andThen_def sample_call_last sample_fields return_def judge_mint_def
        token2022ProgramID_def)
  have res: "Result_of ?s = Some ?out" by (simp add: Result_of_def)
  from token2022_report_names_zero_key [OF run _ res, of "''verify-1''" newVerifyService] obtain tail where
    "fst (verify_render ?lib ''verify-1'' ?s newVerifyService) =
      Inr (''mint '' @ tk_String ?lib zero_pubkey @ '': UNSAFE'' @ tail)" by auto
  moreover have "sample_mint \<noteq> zero_pubkey" by (simp add: sample_mint_def zero_pubkey_def)
  ultimately show ?thesis using run res by blast
qed

end
