(* ===== verification/Mcp_Process.thy ===== *)
theory Mcp_Process
  imports Mcp_Server
begin

text \<open>
  The message loop of \<open>src/mcpserver/server.go\<close> as a process, for tools that may wait: the handlers
  of the token extension run sessions on other goroutines, so a call is not a function of the
  state and need not return.

  \<open>handles\<close> says which answers a tool's handler can return, and \<open>idles\<close> how the state can change
  while the process waits. A message is dispatched by the function \<open>dispatch\<close> of \<open>Mcp_Server\<close>, on
  the server in which the one handler that the message reaches returns the answer it returned.
  For handlers that are functions this is \<open>Serve\<close> again (\<open>serve_is_process\<close>). The locale
  \<open>process_output\<close> is what the tools must keep so that everything the process ever writes is of a
  certain kind.
\<close>

section \<open>Dispatch to handlers that wait\<close>

type_synonym 's handling = "string \<Rightarrow> 's \<Rightarrow> rawMessage \<Rightarrow> string + string \<Rightarrow> 's \<Rightarrow> bool"

text \<open>The answers of handlers that are functions.\<close>

definition tool_handles :: "'s Server \<Rightarrow> 's handling" where
  "tool_handles s name st arguments out st' \<longleftrightarrow>
     (\<exists>t. srv_tools s name = Some t \<and> Handler t st arguments = (out, st'))"

definition answering :: "(string + string) \<times> 's \<Rightarrow> 's Server \<Rightarrow> 's Server" where
  "answering ans s = s\<lparr>srv_tools := (\<lambda>n. map_option (Handler_update (\<lambda>_ _ _. ans)) (srv_tools s n))\<rparr>"

text \<open>The tool call a line amounts to, if it reaches a handler.\<close>

definition tool_call :: "json_syntax \<Rightarrow> 's Server \<Rightarrow> bytes \<Rightarrow> (string \<times> rawMessage) option" where
  "tool_call js s line =
     (case Option.bind (json_parse js line) decode_request of
        None \<Rightarrow> None
      | Some req \<Rightarrow>
          if req_JSONRPC req = ''2.0'' \<and> req_Method req = ''tools/call'' then
            (case decode_call (req_Params req) of
               None \<Rightarrow> None
             | Some (name, arguments) \<Rightarrow> if srv_tools s name = None then None else Some (name, arguments))
          else None)"

definition dispatches ::
  "json_syntax \<Rightarrow> 's Server \<Rightarrow> 's handling \<Rightarrow> bytes \<Rightarrow> 's \<Rightarrow> jsonRPCResponse option \<Rightarrow> 's \<Rightarrow> bool" where
  "dispatches js s handles line st resp st' \<longleftrightarrow>
     (case tool_call js s line of
        None \<Rightarrow> dispatch js s line st = (resp, st')
      | Some (name, arguments) \<Rightarrow>
          \<exists>out st1. handles name st arguments out st1 \<and> dispatch js (answering (out, st1) s) line st = (resp, st'))"

definition answer_content :: "string + string \<Rightarrow> json" where
  "answer_content out = (case out of Inl err \<Rightarrow> toolContent err True | Inr txt \<Rightarrow> toolContent txt False)"

lemma answering_parts [simp]:
  "srv_name (answering ans s) = srv_name s" "srv_version (answering ans s) = srv_version s"
  "srv_order (answering ans s) = srv_order s"
  "srv_tools (answering ans s) n = map_option (Handler_update (\<lambda>_ _ _. ans)) (srv_tools s n)"
  by (simp_all add: answering_def)

text \<open>What is answered: a fixed response without a handler, or the text a handler gave.\<close>

lemma dispatch_tool_call:
  assumes "tool_call js s line = Some (name, arguments)"
  obtains i t where "srv_tools s name = Some t"
    "\<And>st out st'. Handler t st arguments = (out, st') \<Longrightarrow>
       dispatch js s line st = (Some (resultResponse i (answer_content out)), st')"
    "\<And>st out st'. dispatch js (answering (out, st') s) line st = (Some (resultResponse i (answer_content out)), st')"
proof -
  from assms obtain req where req: "Option.bind (json_parse js line) decode_request = Some req"
    and m: "req_JSONRPC req = ''2.0''" "req_Method req = ''tools/call''"
    and call: "decode_call (req_Params req) = Some (name, arguments)" "srv_tools s name \<noteq> None"
    by (auto simp: tool_call_def split: option.splits if_splits)
  from call(2) obtain t where t: "srv_tools s name = Some t" by blast
  show thesis
    by (rule that [of t "req_ID req"])
      (simp_all add: t dispatch_def req m callResult_def call Let_def answer_content_def split: sum.splits)
qed

lemma dispatches_handlers: "dispatches js s (tool_handles s) line st resp st' \<longleftrightarrow> dispatch js s line st = (resp, st')"
proof (cases "tool_call js s line")
  case (Some call)
  obtain name arguments where c: "tool_call js s line = Some (name, arguments)" using Some by (cases call) auto
  then obtain i t where t: "srv_tools s name = Some t"
    and d: "\<And>st out st'. Handler t st arguments = (out, st') \<Longrightarrow>
       dispatch js s line st = (Some (resultResponse i (answer_content out)), st')"
      "\<And>st out st'. dispatch js (answering (out, st') s) line st = (Some (resultResponse i (answer_content out)), st')"
    by (rule dispatch_tool_call) blast
  obtain out st1 where "Handler t st arguments = (out, st1)" by fastforce
  with d t show ?thesis by (auto simp: dispatches_def c tool_handles_def)
qed (simp add: dispatches_def)

section \<open>The process\<close>

record 's process =
  pr_line :: nat
  pr_input :: "bytes list"
  pr_written :: "bytes list"
  pr_state :: 's

definition started_process :: "bytes \<Rightarrow> 's \<Rightarrow> 's process" where
  "started_process input st = \<lparr>pr_line = 0, pr_input = scan_lines input, pr_written = [], pr_state = st\<rparr>"

text \<open>
  One turn of the loop of \<open>Serve\<close>, or a change of the state while the loop waits. The loop ends,
  and takes no step, at the end of the input, at a line that is too long, when the context is
  cancelled and when a write fails.
\<close>

inductive process_step ::
  "json_syntax \<Rightarrow> 's Server \<Rightarrow> 's handling \<Rightarrow> ('s \<Rightarrow> 's \<Rightarrow> bool) \<Rightarrow> (nat \<Rightarrow> bool) \<Rightarrow> (nat \<Rightarrow> bool) \<Rightarrow>
   's process \<Rightarrow> 's process \<Rightarrow> bool"
  for js s handles idles cancelled wfails where
  idle: "idles (pr_state p) st' \<Longrightarrow> process_step js s handles idles cancelled wfails p (p\<lparr>pr_state := st'\<rparr>)"
| blank: "pr_input p = raw # raws \<Longrightarrow> length raw < maxMessageBytes \<Longrightarrow> \<not> cancelled (pr_line p) \<Longrightarrow>
    trim_bytes (dropCR raw) = [] \<Longrightarrow>
    process_step js s handles idles cancelled wfails p (p\<lparr>pr_line := Suc (pr_line p), pr_input := raws\<rparr>)"
| silent: "pr_input p = raw # raws \<Longrightarrow> length raw < maxMessageBytes \<Longrightarrow> \<not> cancelled (pr_line p) \<Longrightarrow>
    trim_bytes (dropCR raw) = line \<Longrightarrow> line \<noteq> [] \<Longrightarrow> dispatches js s handles line (pr_state p) None st' \<Longrightarrow>
    process_step js s handles idles cancelled wfails p
      (p\<lparr>pr_line := Suc (pr_line p), pr_input := raws, pr_state := st'\<rparr>)"
| answer: "pr_input p = raw # raws \<Longrightarrow> length raw < maxMessageBytes \<Longrightarrow> \<not> cancelled (pr_line p) \<Longrightarrow>
    trim_bytes (dropCR raw) = line \<Longrightarrow> line \<noteq> [] \<Longrightarrow> dispatches js s handles line (pr_state p) (Some resp) st' \<Longrightarrow>
    \<not> wfails (length (pr_written p)) \<Longrightarrow>
    process_step js s handles idles cancelled wfails p
      (p\<lparr>pr_line := Suc (pr_line p), pr_input := raws, pr_written := pr_written p @ [writeMessage js resp], pr_state := st'\<rparr>)"

text \<open>For handlers that are functions the process is the loop \<open>serve_lines\<close>.\<close>

lemma serve_is_process:
  assumes "serve_lines js s cancelled wfails rerr (pr_line p) (pr_input p) (pr_written p) (pr_state p) = (err, ws, st)"
    and "err = map_option ErrRead rerr"
  shows "\<exists>p'. (process_step js s (tool_handles s) idles cancelled wfails)\<^sup>*\<^sup>* p p' \<and> pr_written p' = ws \<and> pr_state p' = st"
  using assms(1)
proof (induction "pr_input p" arbitrary: p)
  case Nil
  then show ?case by auto
next
  case (Cons raw raws)
  let ?step = "process_step js s (tool_handles s) idles cancelled wfails"
  have onward: ?case if "?step p p1" "pr_input p1 = raws"
    "serve_lines js s cancelled wfails rerr (pr_line p1) (pr_input p1) (pr_written p1) (pr_state p1) = (err, ws, st)" for p1
    using Cons.hyps(1) [of p1] that by (meson converse_rtranclp_into_rtranclp)
  have input: "pr_input p = raw # raws" using Cons.hyps(2) by simp
  have ends: "Some ErrTooLong \<noteq> err" "Some ErrContext \<noteq> err" "Some ErrWrite \<noteq> err" using assms(2) by (cases rerr; simp)+
  obtain r st1 where d: "dispatch js s (trim_bytes (dropCR raw)) (pr_state p) = (r, st1)" by fastforce
  then have dd: "dispatches js s (tool_handles s) (trim_bytes (dropCR raw)) (pr_state p) r st1" by (simp add: dispatches_handlers)
  have small: "length raw < maxMessageBytes" "\<not> cancelled (pr_line p)"
    using Cons.prems ends unfolding input by (auto split: if_splits)
  note turn = process_step.blank [where p = p and cancelled = cancelled, OF input small]
    process_step.silent [where p = p and cancelled = cancelled, OF input small refl]
    process_step.answer [where p = p and cancelled = cancelled, OF input small refl]
  show ?case
  proof (cases "trim_bytes (dropCR raw) = []")
    case True
    with onward [OF turn(1)] Cons.prems small show ?thesis
      unfolding input by (simp add: not_le)
  next
    case line: False
    show ?thesis
    proof (cases r)
      case None
      with onward [OF turn(2) [OF line dd [unfolded None]]] Cons.prems small line d show ?thesis
        unfolding input by (simp add: not_le)
    next
      case (Some resp)
      with Cons.prems small line d ends(3) have "\<not> wfails (length (pr_written p))"
        unfolding input by (auto simp: not_le split: if_splits)
      with onward [OF turn(3) [OF line dd [unfolded Some]]] Cons.prems small line d Some
      show ?thesis unfolding input by (simp add: not_le)
    qed
  qed
qed

section \<open>What the tools must keep\<close>

text \<open>Every message is one of the server's own, or carries an answer of a handler that satisfies \<open>says\<close>.\<close>

definition proper_response :: "'s Server \<Rightarrow> (string + string \<Rightarrow> bool) \<Rightarrow> jsonRPCResponse \<Rightarrow> bool" where
  "proper_response server says resp \<longleftrightarrow> well_formed_response resp \<and>
     ((\<exists>e. resp_Error resp = Some e) \<or>
      resp_Result resp \<in> {Some (initializeResult server), Some (listResult server), Some (JObject [])} \<or>
      (\<exists>out. says out \<and> resp_Result resp = Some (answer_content out)))"

text \<open>
  \<open>inv\<close> holds of the state between messages, and \<open>says out\<close> of every answer a handler returns.
\<close>

locale process_output =
  fixes server :: "'s Server" and handles :: "'s handling" and idles :: "'s \<Rightarrow> 's \<Rightarrow> bool"
    and inv :: "'s \<Rightarrow> bool" and says :: "string + string \<Rightarrow> bool"
  assumes handled: "srv_tools server name \<noteq> None \<Longrightarrow> inv st \<Longrightarrow> handles name st arguments out st' \<Longrightarrow> inv st' \<and> says out"
    and idled: "inv st \<Longrightarrow> idles st st' \<Longrightarrow> inv st'"
begin

abbreviation proper where
  "proper \<equiv> proper_response server says"

lemma proper_parts [simp]:
  "proper (errorResponse i c m)" "proper (resultResponse i (initializeResult server))"
  "proper (resultResponse i (listResult server))" "proper (resultResponse i (JObject []))"
  by (auto simp: proper_response_def) (simp_all add: errorResponse_def resultResponse_def)

lemma proper_answer:
  assumes "says out"
  shows "proper (resultResponse i (answer_content out))"
proof -
  have "resp_Result (resultResponse i (answer_content out)) = Some (answer_content out)" by (simp add: resultResponse_def)
  with assms show ?thesis unfolding proper_response_def by auto
qed

lemma dispatched:
  assumes "inv st" and "dispatches js server handles line st resp st'"
  shows "inv st' \<and> (\<forall>r. resp = Some r \<longrightarrow> proper r)"
proof (cases "tool_call js server line")
  case None
  with assms(2) have "dispatch js server line st = (resp, st')" by (simp add: dispatches_def)
  with assms(1) None show ?thesis
    by (auto simp: dispatch_def tool_call_def callResult_def Let_def split: option.splits if_splits prod.splits)
next
  case (Some call)
  obtain name arguments where c: "tool_call js server line = Some (name, arguments)" using Some by (cases call) auto
  with assms(2) obtain out st1 where h: "handles name st arguments out st1"
    "dispatch js (answering (out, st1) server) line st = (resp, st')" by (auto simp: dispatches_def)
  obtain i t where t: "srv_tools server name = Some t"
    "\<And>st out st'. dispatch js (answering (out, st') server) line st = (Some (resultResponse i (answer_content out)), st')"
    using c by (rule dispatch_tool_call) blast
  from handled [OF _ assms(1) h(1)] t(1) have "inv st1" "says out" by auto
  with h(2) t(2) proper_answer show ?thesis by auto
qed

lemma output_step:
  assumes "process_step js server handles idles cancelled wfails p p'"
    and "inv (pr_state p) \<and> (\<forall>m \<in> set (pr_written p). \<exists>r. m = writeMessage js r \<and> proper r)"
  shows "inv (pr_state p') \<and> (\<forall>m \<in> set (pr_written p'). \<exists>r. m = writeMessage js r \<and> proper r)"
  using assms(1)
proof cases
  case (silent raw raws line st')
  with dispatched [of "pr_state p" js line None st'] assms(2) show ?thesis by auto
next
  case (answer raw raws line resp st')
  with dispatched [of "pr_state p" js line "Some resp" st'] assms(2) show ?thesis by auto
qed (use assms(2) idled in auto)

lemma output_run:
  assumes "(process_step js server handles idles cancelled wfails)\<^sup>*\<^sup>* (started_process input st) p" and "inv st"
  shows "inv (pr_state p) \<and> (\<forall>m \<in> set (pr_written p). \<exists>r. m = writeMessage js r \<and> proper r)"
  using assms(1)
proof (induction rule: rtranclp_induct)
  case (step p1 p2)
  from output_step [OF step(2,3)] show ?case .
qed (simp add: started_process_def assms(2))

text \<open>
  The loop of \<open>Mcp_Server\<close> itself, for handlers that are functions, however it ends: at the end of
  the input, when reading or a write fails, or when the context is cancelled.
\<close>

lemma served_output:
  assumes "handles = tool_handles server" and "inv st"
    and "serve_lines js server cancelled wfails rerr i raws ws st = (err, ws', st')"
    and "\<forall>m \<in> set ws. \<exists>r. m = writeMessage js r \<and> proper r"
  shows "inv st' \<and> (\<forall>m \<in> set ws'. \<exists>r. m = writeMessage js r \<and> proper r)"
  using assms(2-)
proof (induction raws arbitrary: i ws st)
  case (Cons raw raws)
  obtain r st1 where d: "dispatch js server (trim_bytes (dropCR raw)) st = (r, st1)" by fastforce
  then have "dispatches js server handles (trim_bytes (dropCR raw)) st r st1"
    using assms(1) by (simp add: dispatches_handlers)
  from dispatched [OF Cons.prems(1) this] have st1: "inv st1" "\<And>x. r = Some x \<Longrightarrow> proper x" by simp_all
  let ?kept = "\<lambda>ws. \<forall>m \<in> set ws. \<exists>r. m = writeMessage js r \<and> proper r"
  have onward: ?case if "serve_lines js server cancelled wfails rerr i1 raws ws1 st2 = (err, ws', st')" "inv st2" "?kept ws1"
    for i1 ws1 st2 using Cons.IH that by blast
  consider "ws' = ws" "st' = st \<or> st' = st1"
    | i1 where "serve_lines js server cancelled wfails rerr i1 raws ws st = (err, ws', st')"
    | i1 where "serve_lines js server cancelled wfails rerr i1 raws ws st1 = (err, ws', st')"
    | x i1 where "r = Some x" "serve_lines js server cancelled wfails rerr i1 raws (ws @ [writeMessage js x]) st1 = (err, ws', st')"
    using Cons.prems(2) d by (cases r) (auto simp: Let_def split: if_splits)
  then show ?case
  proof cases
    case 1
    with Cons.prems(1,3) st1(1) show ?thesis by auto
  next
    case (4 x i1)
    show ?thesis by (rule onward [OF 4(2) st1(1)]) (use Cons.prems(3) st1(2) [OF 4(1)] in auto)
  qed (rule onward; (assumption | rule Cons.prems st1))+
qed auto

end

end
