(* ===== verification/Token_Process.thy ===== *)
theory Token_Process
  imports Token_Cmd Mcp_Process Go_Flags
begin

text \<open>
  The token extension as a process (\<open>main\<close> of \<open>src/cmd/token/main.go\<close>): both tools on the message
  loop of \<open>mcpserver\<close>, with the sessions of both registries running while the loop waits.

  The state is the two registries. A call of one tool touches its own registry only, and the
  sessions share no state, so what other sessions do during a call is what they do before it or
  after it. The process is never cancelled: its context is \<open>context.Background()\<close>.
\<close>

section \<open>The process\<close>

record token_world =
  tw_verify :: "VerifyOutcome sessionRegistry"
  tw_mint :: "Outcome sessionRegistry"

inductive token_handles :: "token_lib \<Rightarrow> (tool_error \<Rightarrow> string) \<Rightarrow> token_world handling" for lib et where
  verify: "verify_call lib arguments (tw_verify w) out r' \<Longrightarrow>
    token_handles lib et ''token_verify'' w arguments (wrap_error et out) (w\<lparr>tw_verify := r'\<rparr>)"
| mint: "mint_call lib [] wallet arguments (tw_mint w) out r' \<Longrightarrow>
    token_handles lib et ''token_mint'' w arguments (wrap_error et out) (w\<lparr>tw_mint := r'\<rparr>)"

inductive token_idles :: "token_world \<Rightarrow> token_world \<Rightarrow> bool" where
  verify: "get sid (tw_verify w) = Some s \<Longrightarrow> drifts s s' \<Longrightarrow> token_idles w (w\<lparr>tw_verify := put sid s' (tw_verify w)\<rparr>)"
| mint: "get sid (tw_mint w) = Some s \<Longrightarrow> drifts s s' \<Longrightarrow> token_idles w (w\<lparr>tw_mint := put sid s' (tw_mint w)\<rparr>)"

text \<open>
  \<open>main\<close> defines no flags of its own: it exits with code 2 if they do not parse, and serves
  otherwise. In the table of tools the handlers are left open; \<open>token_handles\<close> has them.
\<close>

definition token_tools :: "string \<Rightarrow> token_world Server" where
  "token_tools version = token_server version (\<lambda>w _. (Inl [], w)) (\<lambda>w _. (Inl [], w))"

definition token_main :: "string list \<Rightarrow> bytes \<Rightarrow> nat + token_world process" where
  "token_main args input =
     (case parse_flags [] args of
        Inl err \<Rightarrow> Inl 2
      | Inr _ \<Rightarrow> Inr (started_process input \<lparr>tw_verify = newVerifyService, tw_mint = newMintService\<rparr>))"

abbreviation token_step where
  "token_step lib et version wfails \<equiv>
     process_step (tk_js lib) (token_tools version) (token_handles lib et) token_idles (\<lambda>_. False) wfails"

section \<open>What the tools say\<close>

definition host_request :: "sdk \<Rightarrow> HostCall \<Rightarrow> bool" where
  "host_request k c \<longleftrightarrow>
     (case c of
        SignCall rq \<Rightarrow> guarded_request k rq
      | FetchCall f \<Rightarrow> \<exists>i rpc. i < 2 ^ 31 \<and> rpc_request (sdk_rpc k) i rpc = Inr (fr_Body f))"

definition verified_outcome :: "sdk \<Rightarrow> VerifyOutcome \<Rightarrow> bool" where
  "verified_outcome k out \<longleftrightarrow> (\<exists>pk st es st'. verify_lifecycle k pk st es = Result out st' [])"

inductive token_says :: "token_lib \<Rightarrow> (tool_error \<Rightarrow> string) \<Rightarrow> string + string \<Rightarrow> bool" for lib et where
  failed: "ordinary err \<Longrightarrow> token_says lib et (Inl (et err))"
| requests: "host_request (tk_sdk lib) c \<Longrightarrow> token_says lib et (Inr (pendingReply (tk_js lib) sid c))"
| minted: "(out_Err res = None \<Longrightarrow> read_safe (tk_sdk lib) (out_Mint res) es) \<Longrightarrow> token_says lib et (Inr (mint_report lib res))"
| verified: "verified_outcome (tk_sdk lib) out \<Longrightarrow> token_says lib et (wrap_error et (verify_report lib out))"

lemma lifecycles_ask:
  "speaks_rpc k (mint_lifecycle k payer pinned wallet spec)" "speaks_rpc k (verify_lifecycle k pk)"
  "no_sign (verify_lifecycle k pk)"
proof -
  show "speaks_rpc k (mint_lifecycle k payer pinned wallet spec)"
    unfolding mint_lifecycle_def by (intro asks_andThen Mint_rpc) (auto split: prod.splits)
  show "speaks_rpc k (verify_lifecycle k pk)" "no_sign (verify_lifecycle k pk)"
    unfolding verify_lifecycle_def Verify_def by (intro asks_andThen transport_rpc transport_no_sign asks_return)+
qed

lemma rpc_request_of:
  assumes "speaks_rpc k m" and "asked (m st) es (FetchCall f)"
  shows "host_request k (FetchCall f)"
proof -
  obtain p b where "m st p = Blocked (WaitSend (FetchCall f) b)" using assms(2) by (auto simp: asked_def)
  with assms(1) have "rpc_wait (sdk_rpc k) (WaitSend (FetchCall f) b)" unfolding asks_def by blast
  then show ?thesis by (auto simp: rpc_wait_def host_request_def)
qed

lemma pending_mint:
  assumes "mint_session_of lib opts s" and "s_pending s = Some c"
  shows "host_request (tk_sdk lib) c"
proof (cases c)
  case (SignCall rq)
  with pending_sign_guarded assms show ?thesis by (simp add: host_request_def)
next
  case (FetchCall f)
  from assms(1) show ?thesis
  proof (cases rule: mint_session_inv)
    case (1 payer wallet spec e pinned)
    with assms(2) FetchCall have "asked (mint_lifecycle (tk_sdk lib) payer pinned wallet spec e) (s_history s) (FetchCall f)"
      by (auto simp: session_inv_def)
    from rpc_request_of [OF lifecycles_ask(1) this] FetchCall show ?thesis by simp
  qed
qed

lemma pending_verify:
  assumes "verify_session_of lib s" and "s_pending s = Some c"
  shows "\<exists>f. c = FetchCall f \<and> host_request (tk_sdk lib) c"
  using assms(1)
proof (cases rule: verify_session_inv)
  case (1 pk e)
  with assms(2) have asked: "asked (verify_lifecycle (tk_sdk lib) pk e) (s_history s) c" by (auto simp: session_inv_def)
  have "\<not> asked (verify_lifecycle (tk_sdk lib) pk e) (s_history s) (SignCall rq)" for rq
    using lifecycles_ask(3) [of "tk_sdk lib" pk] by (fastforce simp: asked_def asks_def sign_wait_def)
  with asked obtain f where "c = FetchCall f" by (cases c) auto
  with asked rpc_request_of [OF lifecycles_ask(2)] show ?thesis by blast
qed

lemma finished_verify:
  assumes "verify_session_of lib s" and "s_outcome s = Some out"
  shows "verified_outcome (tk_sdk lib) out"
  using assms(1)
  by (cases rule: verify_session_inv) (use assms(2) in \<open>auto simp: session_inv_def verified_outcome_def\<close>)

lemma mint_says:
  assumes "mint_sessions.registry_inv lib opts r" and "mint_call lib opts wallet arguments r out r'"
  shows "token_says lib et (wrap_error et out)"
  using assms(1) mint_call_of_pair [OF assms(2)]
proof (cases rule: mint_sessions.call_cases)
  case (waiting sid s c)
  with pending_mint show ?thesis by (auto intro: requests)
next
  case (finished sid s res)
  then have "token_says lib et (Inr (mint_report lib res))"
    by (intro minted [where es = "s_history s"]) (rule finished_read)
  with finished show ?thesis by simp
qed (auto intro: failed)

lemma verify_says:
  assumes "verify_sessions.registry_inv lib r" and "verify_call lib arguments r out r'"
  shows "token_says lib et (wrap_error et out)"
  using assms
proof (cases rule: verify_sessions.call_cases)
  case (waiting sid s c)
  with pending_verify show ?thesis by (auto intro: requests)
next
  case (finished sid s res)
  with finished_verify show ?thesis by (auto intro: verified)
qed (auto intro: failed)

definition world_inv :: "token_lib \<Rightarrow> token_world \<Rightarrow> bool" where
  "world_inv lib w \<longleftrightarrow> verify_sessions.registry_inv lib (tw_verify w) \<and> mint_sessions.registry_inv lib [] (tw_mint w)"

interpretation token_output: process_output "token_tools version" "token_handles lib et" token_idles "world_inv lib"
  "token_says lib et" for version lib et
proof (unfold_locales, goal_cases)
  case (1 name w arguments out w')
  from 1(3) show ?case
  proof cases
    case (verify out1 r')
    with 1(2) verify_says verify_sessions.inv_call show ?thesis by (auto simp: world_inv_def)
  next
    case (mint wallet out1 r')
    from 1(2) have "mint_sessions.registry_inv lib [] (tw_mint w)" by (simp add: world_inv_def)
    from mint_says [OF this mint(4)] mint_sessions.inv_call [OF this mint_call_of_pair [OF mint(4)]] mint(2,3) 1(2)
    show ?thesis by (simp add: world_inv_def)
  qed
next
  case (2 w w')
  from 2(2,1) show ?case
    by cases (auto simp: world_inv_def intro: verify_sessions.inv_drift mint_sessions.inv_drift)
qed

section \<open>Properties\<close>

text \<open>
  C8: everything the token extension ever writes. Whatever bytes arrive on its input, whenever
  its sessions run and deadlines pass, every message on its output is one well-formed response:
  an error of the protocol, the server's description or list of tools, an empty result, or the
  content of a tool's answer. A tool's answer is an error text that is not an internal one, the
  next thing for the host to do, which is to sign a transaction of a guarded mint or to send one
  JSON-RPC request, the report of a mint, without an error only if the mint was read from the
  chain without authorities, or the report of a verification that was run.
\<close>

theorem token_process_output:
  assumes "token_main args input = Inr p0" and "(token_step lib et version wfails)\<^sup>*\<^sup>* p0 p"
    and "m \<in> set (pr_written p)"
  shows "\<exists>r. m = writeMessage (tk_js lib) r \<and> proper_response (token_tools version) (token_says lib et) r"
proof -
  let ?w = "\<lparr>tw_verify = newVerifyService, tw_mint = newMintService\<rparr>"
  have "p0 = started_process input ?w" using assms(1) by (auto simp: token_main_def split: sum.splits)
  moreover have "world_inv lib ?w"
    by (simp add: world_inv_def newVerifyService_def newMintService_def mint_sessions.inv_new verify_sessions.inv_new)
  ultimately show ?thesis using token_output.output_run assms(2,3) by blast
qed

text \<open>One request: the sample mint, answered with the first thing the host has to send.\<close>

definition sample_wire :: json_syntax where
  "sample_wire =
     \<lparr>json_parse = (\<lambda>b. if b = [77] then Some (JObject [(''jsonrpc'', JString ''2.0''), (''id'', JNumber ''1''),
          (''method'', JString ''tools/call''),
          (''params'', JObject [(''name'', JString ''token_mint''), (''arguments'', JObject sample_arguments)])]) else None),
      json_print = (\<lambda>_. [])\<rparr>"

lemma token_tools_table:
  "srv_tools (token_tools version) ''token_mint'' \<noteq> None" "srv_tools (token_tools version) ''token_verify'' \<noteq> None"
  by (simp_all add: token_tools_def token_server_def Register_def New_def mint_tool_def verify_tool_def)

lemma sample_dispatch:
  "dispatches sample_wire (token_tools version) (token_handles (sample_lib\<lparr>tk_js := sample_wire\<rparr>) et) [77]
     \<lparr>tw_verify = newVerifyService, tw_mint = newMintService\<rparr>
     (Some (resultResponse (Some (JNumber ''1'')) (toolContent (pendingReply sample_wire ''mint-1'' sample_call_body) False)))
     \<lparr>tw_verify = newVerifyService, tw_mint = sample_registry\<rparr>"
proof -
  let ?out = "Inr (pendingReply sample_wire ''mint-1'' sample_call_body)"
    and ?w' = "\<lparr>tw_verify = newVerifyService, tw_mint = sample_registry\<rparr>"
  note line = sample_wire_def decode_request_def decode_call_def json_members_def matches_field_def upper_char_def
  have call: "tool_call sample_wire (token_tools version) [77] = Some (''token_mint'', Some (JObject sample_arguments))"
    using token_tools_table by (simp add: tool_call_def line)
  have "token_handles (sample_lib\<lparr>tk_js := sample_wire\<rparr>) et ''token_mint'' \<lparr>tw_verify = newVerifyService, tw_mint = newMintService\<rparr>
      (Some (JObject sample_arguments)) ?out ?w'"
    using token_handles.mint [of "sample_lib\<lparr>tk_js := sample_wire\<rparr>" "(sample_mint, [1])" "Some (JObject sample_arguments)"
        "\<lparr>tw_verify = newVerifyService, tw_mint = newMintService\<rparr>" ?out sample_registry et] sample_mint_call [of sample_wire]
    by simp
  moreover obtain t where "srv_tools (token_tools version) ''token_mint'' = Some t" using token_tools_table by blast
  then have "dispatch sample_wire (answering (?out, ?w') (token_tools version)) [77] w =
      (Some (resultResponse (Some (JNumber ''1'')) (toolContent (pendingReply sample_wire ''mint-1'' sample_call_body) False)), ?w')" for w
    by (simp add: dispatch_def callResult_def line)
  ultimately show ?thesis unfolding dispatches_def call by auto
qed

theorem token_process_output_witness:
  "\<exists>p0 p m r. token_main [] [77, 10] = Inr p0 \<and>
     (token_step (sample_lib\<lparr>tk_js := sample_wire\<rparr>) (\<lambda>_. []) ''1'' (\<lambda>_. False))\<^sup>*\<^sup>* p0 p \<and> m \<in> set (pr_written p) \<and>
     m = writeMessage sample_wire r \<and>
     proper_response (token_tools ''1'') (token_says (sample_lib\<lparr>tk_js := sample_wire\<rparr>) (\<lambda>_. [])) r"
proof -
  let ?lib = "sample_lib\<lparr>tk_js := sample_wire\<rparr>"
  let ?p0 = "started_process [77, 10] \<lparr>tw_verify = newVerifyService, tw_mint = newMintService\<rparr>"
  have main: "token_main [] [77, 10] = Inr ?p0" by (simp add: token_main_def parse_flags.simps)
  have line: "trim_bytes (dropCR [77]) = [77]"
    by (simp add: dropCR_def trim_bytes_def trim_codes_def trim_with.simps space_prefix_def space_encodings_def)
  have input: "pr_input ?p0 = [77] # []" "pr_state ?p0 = \<lparr>tw_verify = newVerifyService, tw_mint = newMintService\<rparr>"
    by (simp_all add: started_process_def scan_lines.simps)
  have disp: "dispatches (tk_js ?lib) (token_tools ''1'') (token_handles ?lib (\<lambda>_. [])) [77] (pr_state ?p0)
     (Some (resultResponse (Some (JNumber ''1'')) (toolContent (pendingReply sample_wire ''mint-1'' sample_call_body) False)))
     \<lparr>tw_verify = newVerifyService, tw_mint = sample_registry\<rparr>"
    unfolding input using sample_dispatch by simp
  have "\<exists>p. token_step ?lib (\<lambda>_. []) ''1'' (\<lambda>_. False) ?p0 p \<and> pr_written p \<noteq> []"
    by (rule exI, rule conjI, rule process_step.answer [where cancelled = "\<lambda>_. False", OF input(1) _ _ line _ disp])
      (simp_all add: maxMessageBytes_def)
  then obtain p m where "(token_step ?lib (\<lambda>_. []) ''1'' (\<lambda>_. False))\<^sup>*\<^sup>* ?p0 p" "m \<in> set (pr_written p)"
    by (meson list.set_sel(1) r_into_rtranclp)
  with token_process_output [OF main this] main show ?thesis by auto
qed

end
