(* ===== verification/Token_Drive.thy ===== *)
theory Token_Drive
  imports Token_Cmd
begin

text \<open>
  The tools of the token extension are complete for the engine: what the engine can do in
  answer to replies the host can express, it can be made to do through calls of the tool.

  \<open>expressible\<close> are the replies a call can carry. The locale \<open>driven_tool\<close> joins the contract of a
  tool (\<open>session_tool\<close>) with that of an engine in a session (\<open>lifecycle\<close>): a run of the engine is
  cut at its replies, each piece is one call, and the registry keeps the session between them.
\<close>

section \<open>Replies a call can carry\<close>

definition expressible :: "HostReply \<Rightarrow> bool" where
  "expressible hr \<longleftrightarrow>
     (case hr_Err hr of
        Some err \<Rightarrow> err \<noteq> [] \<and> hr_Body hr = [] \<and> hr_Signature hr = zero_signature
      | None \<Rightarrow> if hr_Body hr = [] then length (hr_Signature hr) = 64 else hr_Signature hr = zero_signature)"

definition reply_args :: "string \<Rightarrow> HostReply \<Rightarrow> resumeArgs" where
  "reply_args sid hr =
     \<lparr>ra_Session = sid,
      ra_Signature = (if hr_Err hr = None \<and> hr_Body hr = [] then EncodeToString (hr_Signature hr) else []),
      ra_SignError = (case hr_Err hr of Some err \<Rightarrow> err | None \<Rightarrow> []),
      ra_Response = EncodeToString (hr_Body hr), ra_FetchErr = []\<rparr>"

lemma Encode_Nil [simp]: "EncodeToString b = [] \<longleftrightarrow> b = []"
  by (cases b rule: EncodeToString.cases) (simp_all add: Let_def)

lemma reply_of_args:
  assumes "expressible hr"
  shows "reply (reply_args sid hr) = Inr hr"
  using assms
  by (cases hr) (auto simp: expressible_def reply_def reply_args_def zero_reply_def base64_roundtrip
      ParseSignatureBytes_def SignatureLength_def split: option.splits if_splits)

lemma reply_expressible: "(\<exists>a. reply a = Inr hr) \<longleftrightarrow> expressible hr"
proof
  show "\<exists>a. reply a = Inr hr \<Longrightarrow> expressible hr"
    by (auto simp: reply_def expressible_def zero_reply_def zero_signature_def ParseSignatureBytes_def SignatureLength_def
        split: if_splits option.splits sum.splits)
qed (blast intro: reply_of_args)

section \<open>Driving a tool\<close>

lemma works_drifts: "works\<^sup>*\<^sup>* s s' \<Longrightarrow> drifts\<^sup>*\<^sup>* s s'"
  by (induction rule: rtranclp_induct) (auto intro: rtranclp.rtrancl_into_rtrancl drifts.work)

definition hands_on :: "'a begun \<Rightarrow> 'a session \<Rightarrow> bool" where
  "hands_on b s \<longleftrightarrow> b = Started s \<or> (\<exists>sid. b = Resumed sid s \<and> sid \<noteq> [])"

locale driven_tool = session_tool begins render js report owned + lifecycle run
  for begins :: "'arg \<Rightarrow> 'a sessionRegistry \<Rightarrow> 'a begun"
    and render :: "string \<Rightarrow> 'a session \<Rightarrow> 'a sessionRegistry \<Rightarrow> (tool_error + string) \<times> 'a sessionRegistry"
    and js report owned and run :: "'a run" +
  fixes carries :: "resumeArgs \<Rightarrow> bool"
  assumes passes: "ra_Session a \<noteq> [] \<Longrightarrow> carries a \<Longrightarrow> \<exists>arg. begins arg r = resume a r"
begin

text \<open>A reply that a call can carry, whichever session of the registry it is for.\<close>

definition carried :: "string \<Rightarrow> HostReply \<Rightarrow> bool" where
  "carried p hr \<longleftrightarrow> expressible hr \<and> (\<forall>n < 2 ^ 64. carries (reply_args (p @ FormatUint n) hr))"

definition reaches :: "string \<Rightarrow> event list \<Rightarrow> bool" where
  "reaches p es \<longleftrightarrow> (\<exists>r sid s. (registry_step begins render)\<^sup>*\<^sup>* (newRegistry p) r \<and> get sid r = Some s \<and> sid \<noteq> [] \<and> on_course s es)"

definition concludes :: "string \<Rightarrow> 'a \<Rightarrow> bool" where
  "concludes p x \<longleftrightarrow> (\<exists>r a r'. (registry_step begins render)\<^sup>*\<^sup>* (newRegistry p) r \<and> call (begins a) render r (report x) r')"

lemma call_hands_on:
  assumes "hands_on (begins a r) s0" and "drifts\<^sup>*\<^sup>* s0 s" and "s_driver s = Idle"
  obtains sid r0 where "sid \<noteq> []" "get sid r0 = Some s"
    "\<And>out r'. render sid s r0 = (out, r') \<Longrightarrow> call (begins a) render r out r'"
  using assms(1) unfolding hands_on_def
proof (elim disjE exE conjE)
  assume b: "begins a r = Started s0"
  obtain sid r1 where st: "store s r = (sid, r1)" by fastforce
  have "sid \<noteq> []" using store_parts(4) [OF st] FormatUint_first [of "unat (reg_seq r + 1)"] by auto
  with that [of sid r1] call.started [where begins = "begins a" and render = render, OF b assms(2,3) st] store_parts(1) [OF st] show thesis by simp
next
  fix sid assume "begins a r = Resumed sid s0" "sid \<noteq> []"
  with that [of sid "put sid s r"] call.resumed [where begins = "begins a" and render = render and r = r, OF _ assms(2,3)] show thesis by simp
qed

text \<open>One call: from a session on its course up to the next reply, or to the end.\<close>

lemma one_call:
  assumes "(registry_step begins render)\<^sup>*\<^sup>* (newRegistry p) r" and "hands_on (begins a r) s0"
    and "drifts\<^sup>*\<^sup>* s0 s1" and "on_course s1 es" and "\<forall>e \<in> set rest. e = Taken \<or> e = Tick"
    and "CtxDone \<notin> set es"
  shows "run (es @ rest) = Blocked (WaitReply c cx) \<Longrightarrow> reaches p (es @ rest)"
    and "run (es @ rest) = Result x st' [] \<Longrightarrow> concludes p x"
proof -
  have no_end: "CtxDone \<notin> set (es @ rest)" using assms(5,6) by auto
  have on: "\<exists>s2. drifts\<^sup>*\<^sup>* s0 s2 \<and> on_course s2 (es @ rest)" if "settled (run (es @ rest))"
    using course_runs_on [OF assms(4) that assms(5)] assms(3) works_drifts by (meson rtranclp_trans)
  show "reaches p (es @ rest)" if w: "run (es @ rest) = Blocked (WaitReply c cx)"
  proof -
    obtain s2 where s2: "drifts\<^sup>*\<^sup>* s0 s2" "on_course s2 (es @ rest)" using on w by (auto simp: settled_def)
    note pending = course_pending [OF s2(2) w no_end]
    obtain sid r0 where r0: "sid \<noteq> []" "get sid r0 = Some s2"
      "\<And>out r'. render sid s2 r0 = (out, r') \<Longrightarrow> call (begins a) render r out r'"
      by (rule call_hands_on [OF assms(2) s2(1) pending(1)]) blast
    have "render sid s2 r0 = (Inr (pendingReply js sid c), r0)"
      using pending by (simp add: renders render_session_def Result_of_def Pending_def)
    then have "registry_step begins render r r0" using r0(3) registry_step.called by fast
    with assms(1) r0 s2 show ?thesis unfolding reaches_def by (meson rtranclp.rtrancl_into_rtrancl)
  qed
  show "concludes p x" if w: "run (es @ rest) = Result x st' []"
  proof -
    obtain s2 where s2: "drifts\<^sup>*\<^sup>* s0 s2" "on_course s2 (es @ rest)" using on w by (auto simp: settled_def)
    from course_finishes [OF s2(2) w] obtain s3 where s3: "works s2 s3" "s_driver s3 = Idle" "s_outcome s3 = Some x" by blast
    from s2(1) s3(1) have d: "drifts\<^sup>*\<^sup>* s0 s3" by (meson rtranclp.rtrancl_into_rtrancl drifts.work)
    obtain sid r0 where r0: "\<And>out r'. render sid s3 r0 = (out, r') \<Longrightarrow> call (begins a) render r out r'"
      by (rule call_hands_on [OF assms(2) d s3(2)]) blast
    have "render sid s3 r0 = (report x, remove sid r0)" using s3(3) by (simp add: renders render_session_def Result_of_def)
    with r0 assms(1) show ?thesis unfolding concludes_def by blast
  qed
qed

lemma settled_prefix: "settled (run (es @ rest)) \<Longrightarrow> settled (run es)"
proof (induction rest rule: rev_induct)
  case (snoc e rest)
  from snoc.prems have "settled (run ((es @ rest) @ [e]))" by simp
  then obtain w where "run (es @ rest) = Blocked w" by (rule settled_before)
  with snoc.IH show ?case by (simp add: settled_def)
qed simp

text \<open>A stored session is resumed with any reply a call can carry.\<close>

lemma reply_hands_on:
  assumes "reaches p es" and "run es = Blocked (WaitReply c cx)" and "CtxDone \<notin> set es" and "carried p hr"
  obtains r a s0 s1 where "(registry_step begins render)\<^sup>*\<^sup>* (newRegistry p) r" "hands_on (begins a r) s0"
    "drifts\<^sup>*\<^sup>* s0 s1" "on_course s1 (es @ [Reply hr])"
proof -
  obtain r sid s where r: "(registry_step begins render)\<^sup>*\<^sup>* (newRegistry p) r" "get sid r = Some s" "sid \<noteq> []" "on_course s es"
    using assms(1) by (auto simp: reaches_def)
  obtain s0 s1 where s0: "Advance hr s = Inr s0" "works s0 s1" "on_course s1 (es @ [Reply hr])"
    by (rule course_answer [OF r(4) assms(2,3)])
  from named_reachable [OF r(1)] r(2) obtain n where "n < 2 ^ 64" "sid = p @ FormatUint n" by (auto simp: named_def)
  then have "ra_Session (reply_args sid hr) = sid" "carries (reply_args sid hr)" "expressible hr"
    using assms(4) by (simp_all add: reply_args_def carried_def)
  with passes [of "reply_args sid hr" r] r(3) obtain a where "begins a r = resume (reply_args sid hr) r" by auto
  then have "begins a r = Resumed sid s0"
    using r(2) s0(1) reply_of_args [OF \<open>expressible hr\<close>] by (simp add: resume_def reply_args_def)
  with that [OF r(1) _ _ s0(3), of a s0] r(3) s0(2) show thesis by (auto simp: hands_on_def intro: drifts.work)
qed

lemma complete:
  assumes "begins a0 (newRegistry p) = Started (launch (newSession run))"
    and "CtxDone \<notin> set es" and "\<forall>hr. Reply hr \<in> set es \<longrightarrow> carried p hr"
  shows "(run es = Blocked (WaitReply c cx) \<longrightarrow> reaches p es) \<and> (run es = Result x st' [] \<longrightarrow> concludes p x)"
  using assms(2,3)
proof (induction es arbitrary: c cx x st' rule: length_induct)
  case (1 es)
  show ?case
  proof (cases "\<exists>e \<in> set es. \<exists>hr. e = Reply hr")
    case False
    then have "\<forall>e \<in> set es. e = Taken \<or> e = Tick" using 1(2) by (metis event.exhaust)
    moreover have "hands_on (begins a0 (newRegistry p)) (launch (newSession run))" using assms(1) by (simp add: hands_on_def)
    ultimately show ?thesis using one_call [OF _ _ _ course_start, of p "newRegistry p" a0 _ es] by auto
  next
    case True
    then obtain es1 hr es2 where es: "es = es1 @ Reply hr # es2" "\<forall>e \<in> set es2. \<nexists>hr. e = Reply hr"
      using split_list_last_prop [of es "\<lambda>e. \<exists>hr. e = Reply hr"] by blast
    have work: "\<forall>e \<in> set es2. e = Taken \<or> e = Tick" using 1(2) es by (metis event.exhaust in_set_conv_decomp Un_iff set_append set_subset_Cons subsetD)
    have ?thesis if settled: "settled (run es)"
    proof -
      from settled have "settled (run (es1 @ [Reply hr]))" using settled_prefix [of "es1 @ [Reply hr]" es2] es(1) by simp
      then obtain w where w: "run es1 = Blocked w" "possible w (Reply hr)" by (rule settled_before)
      then obtain c1 cx1 where await: "run es1 = Blocked (WaitReply c1 cx1)" by (cases w) (auto simp: possible_def)
      with 1(1) 1(2,3) es(1) have reached: "reaches p es1" by auto
      obtain r a s0 s1 where s: "(registry_step begins render)\<^sup>*\<^sup>* (newRegistry p) r" "hands_on (begins a r) s0"
        "drifts\<^sup>*\<^sup>* s0 s1" "on_course s1 (es1 @ [Reply hr])"
        by (rule reply_hands_on [OF reached await, of hr]) (use 1(2,3) es(1) in auto)
      from one_call [OF s work] 1(2) es(1) show ?thesis by simp
    qed
    then show ?thesis by (auto simp: settled_def)
  qed
qed

end

section \<open>The two tools\<close>

definition resume_object :: "resumeArgs \<Rightarrow> rawMessage" where
  "resume_object a = Some (JObject [(''session'', JString (ra_Session a)), (''signature'', JString (ra_Signature a)),
     (''signError'', JString (ra_SignError a)), (''response'', JString (ra_Response a)), (''fetchError'', JString (ra_FetchErr a))])"

lemma resume_object_decodes:
  "ra_Session a \<noteq> [] \<Longrightarrow> mint_begin lib opts wallet (resume_object a) r = resume a r"
  "ra_Session a \<noteq> [] \<Longrightarrow> verify_begin lib (resume_object a) r' = resume a r'"
  by (cases a, simp add: mint_begin_def resume_object_def json_members_def decode_resume_def decode_mint_args_def
      field_simps_eval)
    (cases a, simp add: verify_begin_def resume_object_def json_members_def decode_resume_def field_simps_eval)

interpretation mint_drives: driven_tool "\<lambda>(wallet, arguments). mint_begin lib opts wallet arguments" "mint_render lib"
  "tk_js lib" "\<lambda>out. Inr (mint_report lib out)" "mint_session_of lib opts" "mint_lifecycle k payer pinned wallet spec e" "\<lambda>_. True"
  for lib opts k payer pinned wallet spec e
proof (unfold_locales, goal_cases)
  case (1 a r)
  with resume_object_decodes(1) have "(\<lambda>(wallet, arguments). mint_begin lib opts wallet arguments) (wallet, resume_object a) r =
      resume a r" by simp
  then show ?case by blast
qed

interpretation verify_drives: driven_tool "verify_begin lib" "verify_render lib" "tk_js lib" "verify_report lib"
  "verify_session_of lib" "verify_lifecycle k pk e" "\<lambda>_. True" for lib k pk e
  by unfold_locales (use resume_object_decodes(2) in blast)

section \<open>Properties\<close>

text \<open>
  The mint tool can do whatever the engine can. Take any course of events of a mint in which
  no context ends and every reply is one that a call can carry: an error text, a response body,
  or a signature of 64 bytes. If the engine then awaits a reply, some sequence of calls leaves a
  session in the registry that has been through exactly these events and shows the call; if the
  engine has returned, some sequence of calls ends with one that reports its outcome.
\<close>

theorem mint_tool_is_complete:
  assumes "NewEngine (engine_options opts) = (e, pinned)"
    and "mint_begin lib opts wallet arguments newMintService = Started (StartMint (tk_sdk lib) payer wallet spec opts)"
    and "CtxDone \<notin> set es" and "\<forall>hr. Reply hr \<in> set es \<longrightarrow> expressible hr"
  shows "(Mint (tk_sdk lib) payer pinned wallet spec e es = Blocked (WaitReply c cx) \<longrightarrow>
      (\<exists>r sid s. (mint_step lib opts)\<^sup>*\<^sup>* newMintService r \<and> get sid r = Some s \<and> s_history s = es \<and> Pending s = Some c)) \<and>
    (Mint (tk_sdk lib) payer pinned wallet spec e es = Result (m, d, err) e' [] \<longrightarrow>
      (\<exists>r wallet' arguments' r'. (mint_step lib opts)\<^sup>*\<^sup>* newMintService r \<and>
        mint_call lib opts wallet' arguments' r
          (Inr (mint_report lib \<lparr>out_Mint = m, out_Disclosures = d, out_Err = err\<rparr>)) r'))"
proof -
  let ?run = "mint_lifecycle (tk_sdk lib) payer pinned wallet spec e"
  have start: "(\<lambda>(wallet, arguments). mint_begin lib opts wallet arguments) (wallet, arguments) (newRegistry ''mint-'') =
      Started (launch (newSession ?run))"
    using assms(1,2) by (simp add: StartMint_def newMintService_def)
  have carried: "\<forall>hr. Reply hr \<in> set es \<longrightarrow> mint_drives.carried ''mint-'' hr" using assms(4) by (simp add: mint_drives.carried_def)
  note complete = mint_drives.complete [OF start assms(3) carried]
  have "Mint (tk_sdk lib) payer pinned wallet spec e es = Blocked w \<Longrightarrow> ?run es = Blocked w" for w
    unfolding mint_lifecycle_def by (simp add: andThen_Blocked)
  moreover have "Mint (tk_sdk lib) payer pinned wallet spec e es = Result (m, d, err) e' [] \<Longrightarrow>
      ?run es = Result \<lparr>out_Mint = m, out_Disclosures = d, out_Err = err\<rparr> e' []"
    unfolding mint_lifecycle_def by (simp add: andThen_Result return_def)
  moreover have "mint_session.on_course (tk_sdk lib) payer pinned wallet spec e s es \<Longrightarrow>
      ?run es = Blocked (WaitReply c cx) \<Longrightarrow> s_history s = es \<and> Pending s = Some c" for s
    using mint_session.course_pending(2) [OF _ _ assms(3)] by (simp add: Pending_def mint_session.on_course_def)
  ultimately show ?thesis
    using complete unfolding mint_drives.reaches_def mint_drives.concludes_def newMintService_def split_paired_Ex
    by simp blast
qed

theorem mint_tool_is_complete_witness:
  "\<exists>d r wallet arguments r'. (mint_step sample_lib [])\<^sup>*\<^sup>* newMintService r \<and>
     mint_call sample_lib [] wallet arguments r
       (Inr (mint_report sample_lib \<lparr>out_Mint = sample_mint, out_Disclosures = d, out_Err = None\<rparr>)) r'"
proof -
  let ?es = "sample_prefix @ sample_rest"
  have lib: "tk_sdk sample_lib = sample_sdk" by (simp add: sample_lib_def)
  obtain d st' where run: "Mint (tk_sdk sample_lib) sample_payer False (sample_mint, [1]) sample_spec sample_state ?es =
      Result (sample_mint, d, None) st' []" unfolding lib using sample_succeeds by blast
  have start: "mint_begin sample_lib [] (sample_mint, [1]) (Some (JObject sample_arguments)) newMintService =
      Started (StartMint (tk_sdk sample_lib) sample_payer (sample_mint, [1]) sample_spec [])"
    unfolding lib sample_begin sample_session_def ..
  have "CtxDone \<notin> set ?es" "\<forall>hr. Reply hr \<in> set ?es \<longrightarrow> expressible hr"
    by (auto simp: sample_prefix_def sample_rest_def answer_def expressible_def)
  from mint_tool_is_complete [OF sample_session_parts(5) start this] run show ?thesis by blast
qed

end
