(* ===== verification/Signing_Handshake.thy ===== *)
theory Signing_Handshake
  imports Signer_Cmd Token_Process Token_Drive "HOL-Library.Countable"
begin

text \<open>
  What the token extension and the signer rely on when a signature passes between them: the
  client library builds and serialises transactions as documented, and JSON texts of plain
  strings survive printing and parsing. Under these the signer approves every message the mint
  tool asks to have signed (\<open>guarded_request_approved\<close>), and the texts of the two tools read back
  as what they were printed from. A library and a syntax that meet the assumptions follow.
\<close>

section \<open>The client library\<close>

text \<open>
  The two processes share no code: the token extension builds its transaction with the client
  library, the signer reads the bytes with a parser of its own. What the library is documented
  to do: program addresses are the decoded base58 texts, the SPL builders address the right
  program and start with the instruction's number, and a compiled transaction serialises to a
  legacy message whose first account is the fee payer and which carries the given instructions
  in their order.
\<close>

definition authority_code :: "authority_type \<Rightarrow> byte" where
  "authority_code a = (case a of AuthorityMintTokens \<Rightarrow> 0 | AuthorityFreezeAccount \<Rightarrow> 1)"

definition builders_standard :: "sdk \<Rightarrow> bool" where
  "builders_standard k \<longleftrightarrow>
     metadataProgramID k = program_id ''metaqbxxUerdq28cj1RbAWkYQm3ybzjb6a8bt518x1s'' \<and>
     (\<forall>payer wallet mint ix. ix_CreateIdempotent k payer wallet mint = Inr ix \<longrightarrow>
        si_Program ix = program_id ''ATokenGPvbdGVxr1b2hvZbsiqW5xWH25efTNsLJA8knL'') \<and>
     (\<forall>amount mint dest auth ix. ix_MintTo k amount mint dest auth = Inr ix \<longrightarrow>
        si_Program ix = program_id ''TokenkegQfeZyiNwAJbNbGKPFXCWuBvf9Ss623VQ5DA'' \<and> si_Data ix = 7 # le_bytes 8 amount) \<and>
     (\<forall>a mint auth ix. ix_RevokeAuthority k a mint auth = Inr ix \<longrightarrow>
        si_Program ix = program_id ''TokenkegQfeZyiNwAJbNbGKPFXCWuBvf9Ss623VQ5DA'' \<and> si_Data ix = [6, authority_code a, 0])"

definition carries :: "bytes list \<Rightarrow> wire_instruction \<Rightarrow> sol_instruction \<Rightarrow> bool" where
  "carries accts w ix \<longleftrightarrow>
     unat (wi_program w) < length accts \<and> accts ! unat (wi_program w) = si_Program ix \<and> wi_data w = si_Data ix"

definition serialises_standard :: "sdk \<Rightarrow> bool" where
  "serialises_standard k \<longleftrightarrow>
     (\<forall>ixs bh payer tx msg. NewTransaction k ixs bh payer = Inr tx \<longrightarrow> tx_Message tx = Inr msg \<longrightarrow>
        (\<exists>header rest ws. msg = serialize_message header (payer # rest) bh ws \<and>
           serializable header (payer # rest) bh ws \<and> list_all2 (carries (payer # rest)) ws ixs))"

lemma buildMint_shape:
  assumes "buildMint k payer mint t s = Inr ixs"
  obtains metadata dest ata amount mintTo freeze rev where
    "ixs = [create_instruction k payer metadata mint t s, ata, mintTo, freeze, rev]"
    "ix_CreateIdempotent k payer t mint = Inr ata" "ix_MintTo k amount mint dest payer = Inr mintTo"
    "ix_RevokeAuthority k AuthorityFreezeAccount mint payer = Inr freeze"
    "ix_RevokeAuthority k AuthorityMintTokens mint payer = Inr rev"
  using assms unfolding buildMint_def by (auto split: sum.splits option.splits)

lemma guarded_request_approved:
  assumes "builders_standard k" and "serialises_standard k" and "guarded_request k rq"
  shows "Approve \<lparr>Payer = sr_Pubkey rq\<rparr> (sr_Message rq) = None"
proof -
  obtain mint spec ixs bh tx where
    build: "buildMint k (sr_Pubkey rq) mint (treasury (sr_Pubkey rq) spec) spec = Inr ixs"
    and tx: "NewTransaction k ixs bh (sr_Pubkey rq) = Inr tx" "tx_Message tx = Inr (sr_Message rq)"
    using assms(3) by (auto simp: guarded_request_def)
  from assms(2) tx obtain header rest ws where
    msg: "sr_Message rq = serialize_message header (sr_Pubkey rq # rest) bh ws"
    and ok: "serializable header (sr_Pubkey rq # rest) bh ws" and ws: "list_all2 (carries (sr_Pubkey rq # rest)) ws ixs"
    unfolding serialises_standard_def by blast
  let ?m = "\<lparr>accounts = sr_Pubkey rq # rest, instructions = map seen_instruction ws\<rparr>"
  have carried: "invokes ?m (seen_instruction w) (si_Program ix) \<and> ix_data (seen_instruction w) = si_Data ix"
    if "carries (sr_Pubkey rq # rest) w ix" for w ix
    using that by (simp add: carries_def invokes_def seen_instruction_def)
  from build obtain metadata dest ata amount mintTo freeze rev where
    ixs: "ixs = [create_instruction k (sr_Pubkey rq) metadata mint (treasury (sr_Pubkey rq) spec) spec, ata, mintTo, freeze, rev]"
    and parts: "ix_CreateIdempotent k (sr_Pubkey rq) (treasury (sr_Pubkey rq) spec) mint = Inr ata"
      "ix_MintTo k amount mint dest (sr_Pubkey rq) = Inr mintTo"
      "ix_RevokeAuthority k AuthorityFreezeAccount mint (sr_Pubkey rq) = Inr freeze"
      "ix_RevokeAuthority k AuthorityMintTokens mint (sr_Pubkey rq) = Inr rev"
    by (rule buildMint_shape)
  from assms(1) parts have programs: "si_Program ata = ataProgram" "si_Program mintTo = tokenProgram"
    "si_Program freeze = tokenProgram" "si_Program rev = tokenProgram"
    "si_Data mintTo = 7 # le_bytes 8 amount" "si_Data freeze = [6, 1, 0]" "si_Data rev = [6, 0, 0]"
    and meta: "metadataProgramID k = metadataProgram"
    unfolding builders_standard_def by (auto simp: ataProgram_def tokenProgram_def metadataProgram_def authority_code_def)
  from ws obtain w1 w2 w3 w4 w5 where w: "ws = [w1, w2, w3, w4, w5]"
    "invokes ?m (seen_instruction w1) metadataProgram" "invokes ?m (seen_instruction w2) ataProgram"
    "invokes ?m (seen_instruction w3) tokenProgram" "is_mint_to (ix_data (seen_instruction w3))"
    "invokes ?m (seen_instruction w4) tokenProgram" "is_revoke 1 (ix_data (seen_instruction w4))"
    "invokes ?m (seen_instruction w5) tokenProgram" "is_revoke 0 (ix_data (seen_instruction w5))"
    unfolding ixs
    by (auto simp: list_all2_Cons2 programs create_instruction_def meta is_mint_to_def is_revoke_def dest!: carried)
  then have "approvable (sr_Pubkey rq) ?m"
    by (auto simp: approvable_def granted_def has_token_ix_def)
  with fmt_serialize_message [OF ok] show ?thesis by (auto simp: Approve_iff msg)
qed

text \<open>A client library that meets these assumptions, and a request of a guarded mint through it.\<close>

fun wire_instructions :: "nat \<Rightarrow> sol_instruction list \<Rightarrow> wire_instruction list" where
  "wire_instructions i [] = []"
| "wire_instructions i (ix # ixs) =
     \<lparr>wi_program = of_nat i, wi_accounts = [], wi_data = si_Data ix\<rparr> # wire_instructions (Suc i) ixs"

definition wire_sdk :: sdk where
  "wire_sdk = sample_sdk\<lparr>addr := program_id,
     ix_CreateIdempotent := (\<lambda>_ _ _. Inr \<lparr>si_Program = ataProgram, si_Accounts = [], si_Data = [1]\<rparr>),
     ix_MintTo := (\<lambda>amount _ _ _. Inr \<lparr>si_Program = tokenProgram, si_Accounts = [], si_Data = 7 # le_bytes 8 amount\<rparr>),
     ix_RevokeAuthority := (\<lambda>a _ _. Inr \<lparr>si_Program = tokenProgram, si_Accounts = [], si_Data = [6, authority_code a, 0]\<rparr>),
     NewTransaction := (\<lambda>ixs bh payer.
       if length bh = 32 \<and> length payer = 32 \<and> length ixs \<le> 200 \<and>
          list_all (\<lambda>ix. length (si_Program ix) = 32 \<and> length (si_Data ix) \<le> 65535) ixs
       then Inr \<lparr>tx_Keys = [payer, sample_mint], tx_NumSigs = 2,
         tx_Message = Inr (serialize_message [2, 0, 0] (payer # map si_Program ixs) bh (wire_instructions 1 ixs))\<rparr>
       else Inl ''too large'')\<rparr>"

lemma wire_instructions_carry:
  "length pre + length ixs \<le> 255 \<Longrightarrow>
     list_all2 (carries (pre @ map si_Program ixs)) (wire_instructions (length pre) ixs) ixs"
proof (induction ixs arbitrary: pre)
  case (Cons ix ixs)
  then have "list_all2 (carries ((pre @ [si_Program ix]) @ map si_Program ixs))
      (wire_instructions (length (pre @ [si_Program ix])) ixs) ixs"
    by (intro Cons.IH) simp
  moreover have "unat (of_nat (length pre) :: byte) = length pre" using Cons.prems by (simp add: unat_of_nat)
  then have "carries (pre @ map si_Program (ix # ixs))
      \<lparr>wi_program = of_nat (length pre), wi_accounts = [], wi_data = si_Data ix\<rparr> ix"
    by (simp add: carries_def)
  ultimately show ?case by simp
qed simp

lemma wire_instructions_small:
  "length (wire_instructions i ixs) = length ixs"
  "list_all (\<lambda>ix. length (si_Data ix) \<le> 65535) ixs \<Longrightarrow>
     list_all (\<lambda>w. length (wi_accounts w) \<le> 0xffff \<and> length (wi_data w) \<le> 0xffff) (wire_instructions i ixs)"
  by (induction ixs arbitrary: i) auto

lemma wire_sdk_standard: "builders_standard wire_sdk" "serialises_standard wire_sdk"
proof -
  show "builders_standard wire_sdk"
    by (simp add: builders_standard_def wire_sdk_def metadataProgramID_def ataProgram_def tokenProgram_def)
  show "serialises_standard wire_sdk"
    unfolding serialises_standard_def
  proof (intro allI impI)
    fix ixs bh payer tx msg
    assume tx: "NewTransaction wire_sdk ixs bh payer = Inr tx" "tx_Message tx = Inr msg"
    then have small: "length bh = 32" "length payer = 32" "length ixs \<le> 200"
      "list_all (\<lambda>ix. length (si_Program ix) = 32 \<and> length (si_Data ix) \<le> 65535) ixs"
      and msg: "msg = serialize_message [2, 0, 0] (payer # map si_Program ixs) bh (wire_instructions 1 ixs)"
      by (auto simp: wire_sdk_def split: if_splits)
    have "serializable [2, 0, 0] (payer # map si_Program ixs) bh (wire_instructions 1 ixs)"
      using small wire_instructions_small [where ixs = ixs and i = 1]
      by (auto simp: serializable_def addrLen_def list_all_iff)
    moreover have "list_all2 (carries (payer # map si_Program ixs)) (wire_instructions 1 ixs) ixs"
      using wire_instructions_carry [of "[payer]" ixs] small(3) by simp
    ultimately show "\<exists>header rest ws. msg = serialize_message header (payer # rest) bh ws \<and>
        serializable header (payer # rest) bh ws \<and> list_all2 (carries (payer # rest)) ws ixs"
      using msg by blast
  qed
qed

lemma wire_sdk_request: "\<exists>rq. sr_Pubkey rq = sample_payer \<and> guarded_request wire_sdk rq"
proof -
  have plan: "harmless (mint_plan wire_sdk sample_payer Devnet sample_spec)"
    using sample_guard by (simp add: Guard_harmless mint_plan_def wire_sdk_def)
  have "scaledAmount 10 2 = Some 1000" by (simp add: scaledAmount_exact)
  then obtain ixs where ixs: "buildMint wire_sdk sample_payer sample_mint (treasury sample_payer sample_spec) sample_spec = Inr ixs"
    by (simp add: buildMint_def metadataPDA_def wire_sdk_def sample_sdk_def sample_spec_def)
  then have "length ixs \<le> 200 \<and> list_all (\<lambda>ix. length (si_Program ix) = 32 \<and> length (si_Data ix) \<le> 65535) ixs"
    by (auto simp: buildMint_def wire_sdk_def sample_sdk_def sample_spec_def create_instruction_def metadataProgramID_def
        metadataProgram_def [symmetric] createV1Data_def borshString_def le_bytes_def authority_code_def
        metadataPDA_def split: option.splits)
  then obtain tx msg where "NewTransaction wire_sdk ixs (replicate 32 9) sample_payer = Inr tx" "tx_Message tx = Inr msg"
    by (simp add: wire_sdk_def sample_payer_def)
  with plan ixs have "guarded_request wire_sdk \<lparr>sr_Pubkey = sample_payer, sr_Message = msg\<rparr>"
    unfolding guarded_request_def by (auto simp: sample_payer_def) metis
  then show ?thesis by (intro exI) (rule conjI, simp_all)
qed

section \<open>Texts\<close>

text \<open>
  JSON made of objects, strings of printable ASCII characters, booleans and nulls. Printing and
  parsing give it back; of other strings and of numbers nothing is assumed.
\<close>

definition plain_string :: "string \<Rightarrow> bool" where
  "plain_string s \<longleftrightarrow> list_all (\<lambda>c. 32 \<le> (of_char c :: nat) \<and> of_char c < (127 :: nat)) s"

fun plain_json :: "json \<Rightarrow> bool" where
  "plain_json JNull = True"
| "plain_json (JBool b) = True"
| "plain_json (JNumber s) = False"
| "plain_json (JString s) = plain_string s"
| "plain_json (JArray js) = list_all plain_json js"
| "plain_json (JObject kvs) = list_all (\<lambda>(k, v). plain_string k \<and> plain_json v) kvs"

definition syntax_plain :: "json_syntax \<Rightarrow> bool" where
  "syntax_plain js \<longleftrightarrow> (\<forall>v. plain_json v \<longrightarrow> json_parse js (json_print js v) = Some v)"

lemma plain_append [simp]: "plain_string (s @ t) \<longleftrightarrow> plain_string s \<and> plain_string t"
  by (simp add: plain_string_def)

lemma plain_Cons: "plain_string (c # s) \<longleftrightarrow> (32 \<le> (of_char c :: nat) \<and> of_char c < (127 :: nat)) \<and> plain_string s"
  by (simp add: plain_string_def)

lemma plain_char: "32 \<le> n \<Longrightarrow> n < 127 \<Longrightarrow> plain_string (char_of n # s) \<longleftrightarrow> plain_string s" for n :: nat
  by (simp add: plain_string_def)

lemma plain_Nil [simp]: "plain_string []"
  by (simp add: plain_string_def)

lemma plain_FormatUint: "plain_string (FormatUint n)"
proof (induction n rule: FormatUint.induct)
  case (1 n)
  then show ?case by (cases "n < 10") (simp_all add: FormatUint.simps [of n] plain_char)
qed

lemma plain_b64_char: "plain_string (b64_char n # s) \<longleftrightarrow> plain_string s"
proof -
  have "b64_digit (b64_char n) \<noteq> None" by (simp add: b64_digit_char)
  then have "32 \<le> (of_char (b64_char n) :: nat) \<and> of_char (b64_char n) < (127 :: nat)"
    by (auto simp: b64_digit_def Let_def split: if_splits)
  then show ?thesis by (simp add: plain_string_def)
qed

lemma plain_Encode: "plain_string (EncodeToString b)"
proof -
  have "plain_string (CHR ''='' # s) \<longleftrightarrow> plain_string s" for s by (simp add: plain_string_def)
  then show ?thesis
    by (induction b rule: EncodeToString.induct) (simp_all add: Let_def plain_b64_char)
qed

lemma bytes_of_string_inverse [simp]: "bytes_of_string (string_of_bytes b) = b"
proof -
  have "of_nat (of_char (char_of (unat x))) = x" for x :: byte
    using unat_byte_less [of x] by simp
  then show ?thesis by (simp add: string_of_bytes_def bytes_of_string_def comp_def)
qed

text \<open>A syntax that prints every tree differently.\<close>

instance json :: countable
  by countable_datatype

definition counting_syntax :: json_syntax where
  "counting_syntax = \<lparr>json_parse = (\<lambda>b. Some (from_nat (length b))), json_print = (\<lambda>v. replicate (to_nat v) 0)\<rparr>"

lemma counting_syntax_plain: "syntax_plain counting_syntax"
  by (simp add: syntax_plain_def counting_syntax_def)

lemma marshal_reads_back: "syntax_plain js \<Longrightarrow> plain_json v \<Longrightarrow> json_parse js (bytes_of_string (marshal js v)) = Some v"
  by (simp add: syntax_plain_def marshal_def)

section \<open>From a pending request to a signature and back\<close>

text \<open>The request as the host reads it, and the host's answer as the tool reads it.\<close>

lemma pending_sign_text:
  assumes "syntax_plain js" and "plain_string sid"
  shows "json_parse js (bytes_of_string (pendingReply js sid (SignCall rq))) =
    Some (JObject [(''session'', JString sid), (''sign'', JObject [(''message'', JString (EncodeToString (sr_Message rq)))])])"
  using assms by (simp add: pendingReply_def marshal_reads_back plain_Encode plain_Cons)

lemma sign_reply_text:
  assumes "syntax_plain js"
  shows "json_parse js (bytes_of_string (sign_reply js sig)) = Some (JObject [(''signature'', JString (EncodeToString sig))])"
  using marshal_reads_back [OF assms, of "JObject [(''signature'', JString (EncodeToString sig))]"]
  by (simp add: sign_reply_def marshal_def plain_Encode plain_Cons)

definition signature_arguments :: "string \<Rightarrow> string \<Rightarrow> rawMessage" where
  "signature_arguments sid signature = Some (JObject [(''session'', JString sid), (''signature'', JString signature)])"

lemma resume_with_signature:
  assumes "sid \<noteq> []" and "get sid r = Some s" and "parked s" and "length sig = 64"
  shows "mint_begin lib opts wallet (signature_arguments sid (EncodeToString sig)) r =
    Resumed sid (s\<lparr>s_pending := None, s_driver := Sending (zero_reply\<lparr>hr_Signature := sig\<rparr>)\<rparr>)"
proof -
  let ?kvs = "[(''session'', JString sid), (''signature'', JString (EncodeToString sig))]"
  have "decode_mint_args ?kvs = Some \<lparr>mg_HostKey = [], mg_Name = [], mg_Symbol = [], mg_MetadataURI = [], mg_Decimals = 9,
      mg_Supply = None, mg_Treasury = []\<rparr>"
    by (simp add: decode_mint_args_def field_simps_eval)
  moreover have "decode_resume ?kvs = Some \<lparr>ra_Session = sid, ra_Signature = EncodeToString sig, ra_SignError = [],
      ra_Response = [], ra_FetchErr = []\<rparr>"
    by (simp add: decode_resume_def field_simps_eval)
  moreover have "ParseSignatureBytes (EncodeToString sig) = Inr sig"
    using assms(4) by (simp add: ParseSignatureBytes_def base64_roundtrip SignatureLength_def)
  ultimately show ?thesis
    using assms by (simp add: mint_begin_def signature_arguments_def json_members_def resume_def reply_def parked_advances)
qed

lemma mint_id_plain: "named ''mint-'' r \<Longrightarrow> get sid r = Some s \<Longrightarrow> plain_string sid \<and> sid \<noteq> []"
  by (fastforce simp: named_def plain_FormatUint plain_Cons)

text \<open>The signer's half: an unlocked signer signs what it approves.\<close>

lemma unlocked_signs:
  assumes "unlock_handler js opn solana_policy v0 i = (Inr ack, v)" and "vault_key v = Some key"
    and "Approve \<lparr>Payer = Public key\<rparr> payload = None" and "Sign key payload = Inr sig"
    and "payload \<noteq> []" and "length payload \<le> maxPayloadBytes"
  shows "sign_handler js solana_policy v (Some (JObject [(''payload'', JString (EncodeToString payload))])) =
    (Inr (sign_reply js sig), v\<lparr>sign_calls := (Public key, payload) # sign_calls v\<rparr>)"
proof -
  have "vault_policy v = \<lparr>Payer = Public key\<rparr>"
    using assms(1,2) by (auto simp: unlock_handler_def solana_policy_def BindKey_def Let_def split: option.splits sum.splits)
  with assms(2-) show ?thesis
    by (simp add: sign_handler_def decode_sign_def json_members_def matches_field_def base64_roundtrip solana_policy_def)
qed

section \<open>A session that waits for a signature\<close>

lemma wire_parts:
  "sdk_rpc wire_sdk = sdk_rpc sample_sdk" "dec_genesis wire_sdk = dec_genesis sample_sdk"
  "dec_account wire_sdk = dec_account sample_sdk" "dec_blockhash wire_sdk = dec_blockhash sample_sdk"
  "url_of wire_sdk = url_of sample_sdk"
  by (simp_all add: wire_sdk_def)

lemma wire_checks:
  "resolveNetwork wire_sdk = resolveNetwork sample_sdk"
  "mint_plan wire_sdk = mint_plan sample_sdk"
  "checkTreasurySpendable wire_sdk t st (answer 0 @ es) = Result None (st\<lparr>rpc_id := rpc_id st + 1\<rparr>) es"
  by (auto simp: fun_eq_iff resolveNetwork_def mint_plan_def wire_parts checkTreasurySpendable_def andThen_def sample_call
      sample_fields judge_treasury_def return_def)

lemma wire_build:
  obtains ixs where "buildMint wire_sdk sample_payer sample_mint sample_payer sample_spec = Inr ixs" "length ixs \<le> 5"
    "list_all (\<lambda>ix. length (si_Program ix) = 32 \<and> length (si_Data ix) \<le> 1000) ixs"
proof -
  have "scaledAmount 10 2 = Some 1000" by (simp add: scaledAmount_exact)
  then obtain ixs where ixs: "buildMint wire_sdk sample_payer sample_mint sample_payer sample_spec = Inr ixs"
    by (simp add: buildMint_def metadataPDA_def wire_sdk_def sample_sdk_def sample_spec_def)
  then have "length ixs \<le> 5 \<and> list_all (\<lambda>ix. length (si_Program ix) = 32 \<and> length (si_Data ix) \<le> 1000) ixs"
    by (auto simp: buildMint_def wire_sdk_def sample_sdk_def sample_spec_def create_instruction_def metadataProgramID_def
        metadataProgram_def [symmetric] createV1Data_def borshString_def le_bytes_def authority_code_def
        metadataPDA_def split: option.splits)
  with ixs that show thesis by blast
qed

lemma wire_instructions_length:
  "list_all (\<lambda>ix. length (si_Data ix) \<le> 1000) ixs \<Longrightarrow>
     length (concat (map serialize_instruction (wire_instructions i ixs))) \<le> 1007 * length ixs"
proof (induction ixs arbitrary: i)
  case (Cons ix ixs)
  have "length (shortvec n) \<le> 3" for n by (simp add: shortvec_def)
  from this [of 0] this [of "int (length (si_Data ix))"] Cons.prems Cons.IH [of "Suc i"] show ?case
    by (simp add: serialize_instruction_def counted_def)
qed simp

lemma wire_message_small:
  assumes "length ixs \<le> 5" and "list_all (\<lambda>ix. length (si_Program ix) = 32 \<and> length (si_Data ix) \<le> 1000) ixs"
  shows "length (serialize_message [2, 0, 0] (sample_payer # map si_Program ixs) (replicate 32 9) (wire_instructions 1 ixs))
    \<le> maxPayloadBytes"
proof -
  have sv: "length (shortvec n) \<le> 3" for n by (simp add: shortvec_def)
  have "list_all (\<lambda>ix. length (si_Data ix) \<le> 1000) ixs" "length (concat (map si_Program ixs)) = 32 * length ixs"
    using assms(2) by (induction ixs) auto
  with wire_instructions_length [of ixs 1] assms(1) sv [of "int (length (sample_payer # map si_Program ixs))"]
    sv [of "int (length (wire_instructions 1 ixs))"]
  show ?thesis by (simp add: serialize_message_def maxPayloadBytes_def sample_payer_def)
qed

lemma wire_asks:
  obtains msg where
    "Mint wire_sdk sample_payer False (sample_mint, [1]) sample_spec sample_state (sample_prefix @ [Taken]) =
       Blocked (WaitReply (SignCall \<lparr>sr_Pubkey = sample_payer, sr_Message = msg\<rparr>) NoCtx)"
    "length msg \<le> maxPayloadBytes"
proof -
  obtain ixs where ixs: "buildMint wire_sdk sample_payer sample_mint sample_payer sample_spec = Inr ixs" "length ixs \<le> 5"
    "list_all (\<lambda>ix. length (si_Program ix) = 32 \<and> length (si_Data ix) \<le> 1000) ixs" by (rule wire_build)
  define msg where "msg = serialize_message [2, 0, 0] (sample_payer # map si_Program ixs) (replicate 32 9) (wire_instructions 1 ixs)"
  have "list_all (\<lambda>ix. length (si_Program ix) = 32 \<and> length (si_Data ix) \<le> 65535) ixs" "length sample_payer = 32"
    using ixs(3) by (auto simp: list_all_iff sample_payer_def)
  with ixs(2) have tx: "NewTransaction wire_sdk ixs (replicate 32 9) sample_payer =
      Inr \<lparr>tx_Keys = [sample_payer, sample_mint], tx_NumSigs = 2, tx_Message = Inr msg\<rparr>"
    unfolding wire_sdk_def msg_def by simp
  have "length msg \<le> maxPayloadBytes" unfolding msg_def using ixs(2,3) by (rule wire_message_small)
  have fits: "scaledAmount 10 2 = Some 1000" by (simp add: scaledAmount_exact)
  have valid: "validateMetadata (sp_Name sample_spec) (sp_Symbol sample_spec) (sp_MetadataURI sample_spec) = None"
    by (simp add: validateMetadata_def sample_spec_def maxNameLen_def maxSymbolLen_def maxURILen_def)
  have t: "treasury sample_payer sample_spec = sample_payer"
    by (simp add: treasury_def sample_spec_def zero_pubkey_def)
  have spec: "sp_Supply sample_spec = 10" "sp_Decimals sample_spec = 2" by (simp_all add: sample_spec_def)
  have sign: "roundTrip_Sign p m st [Taken] = Blocked (WaitReply (SignCall \<lparr>sr_Pubkey = p, sr_Message = m\<rparr>) NoCtx)" for p m st
    by (simp add: roundTrip_Sign_def Let_def andThen_def await_def possible_def)
  have "Mint wire_sdk sample_payer False (sample_mint, [1]) sample_spec sample_state (answer 1 @ answer 0 @ answer 0 @ [Taken]) =
      submit_mint wire_sdk sample_payer (sample_mint, [1]) sample_spec
        (Evaluate (mint_plan sample_sdk sample_payer Devnet sample_spec)) ixs \<lparr>rpc_id = 2, eng_net = Devnet\<rparr> (answer 0 @ [Taken])"
    unfolding Mint_def Let_def
    by (simp add: valid fits t spec andThen_def sample_net get_net_def sample_guard wire_checks ixs(1) sample_state_def)
  also have "\<dots> = Blocked (WaitReply (SignCall \<lparr>sr_Pubkey = sample_payer, sr_Message = msg\<rparr>) NoCtx)"
    unfolding submit_mint_def send_def
    by (simp add: andThen_def wire_parts sample_call sample_fields tx [unfolded sample_payer_def sample_mint_def] sign signer_Sign_def signer_PublicKey_def
        sample_payer_def sample_mint_def numeral_2_eq_2)
  finally show thesis using that \<open>length msg \<le> maxPayloadBytes\<close> by (simp add: sample_prefix_def)
qed

text \<open>The registry with the session that awaits the signature, and the signer unlocked with the key it needs.\<close>

lemma sample_start:
  "mint_begin (sample_lib\<lparr>tk_sdk := k, tk_js := js\<rparr>) [] (sample_mint, [1]) (Some (JObject sample_arguments)) r =
     Started (StartMint k sample_payer (sample_mint, [1]) sample_spec [])"
proof -
  have "ParsePubkeyBytes (EncodeToString sample_payer) = Inr sample_payer"
    by (simp add: ParsePubkeyBytes_def base64_roundtrip sample_payer_def PublicKeyLength_def)
  moreover have "parseSupply ''10'' = Inr 10" by (simp add: parseSupply_def ParseUint64_def Let_def)
  ultimately show ?thesis
    by (simp add: mint_begin_def json_members_def sample_decode start_mint_def raw_text_def sample_lib_def
        parse_treasury_def sample_spec_def zero_pubkey_def)
qed

lemma wire_registry:
  fixes js :: json_syntax
  defines "lib \<equiv> sample_lib\<lparr>tk_sdk := wire_sdk, tk_js := js\<rparr>"
  obtains r sid s msg where "(mint_step lib [])\<^sup>*\<^sup>* newMintService r" "get sid r = Some s"
    "Pending s = Some (SignCall \<lparr>sr_Pubkey = sample_payer, sr_Message = msg\<rparr>)" "length msg \<le> maxPayloadBytes"
proof -
  let ?run = "mint_lifecycle wire_sdk sample_payer False (sample_mint, [1]) sample_spec sample_state"
    and ?es = "sample_prefix @ [Taken]"
  obtain msg where msg: "length msg \<le> maxPayloadBytes"
    and asks: "Mint wire_sdk sample_payer False (sample_mint, [1]) sample_spec sample_state ?es =
       Blocked (WaitReply (SignCall \<lparr>sr_Pubkey = sample_payer, sr_Message = msg\<rparr>) NoCtx)" by (rule wire_asks)
  have run: "?run ?es = Blocked (WaitReply (SignCall \<lparr>sr_Pubkey = sample_payer, sr_Message = msg\<rparr>) NoCtx)"
    unfolding mint_lifecycle_def by (simp add: andThen_Blocked asks)
  have es: "CtxDone \<notin> set ?es" "\<forall>hr. Reply hr \<in> set ?es \<longrightarrow> mint_drives.carried ''mint-'' hr"
    by (auto simp: sample_prefix_def answer_def expressible_def mint_drives.carried_def)
  have "StartMint wire_sdk sample_payer (sample_mint, [1]) sample_spec [] = launch (newSession ?run)"
    using sample_session_parts(5) by (simp add: StartMint_def)
  then have "mint_begin lib [] (sample_mint, [1]) (Some (JObject sample_arguments)) (newRegistry ''mint-'') =
      Started (launch (newSession ?run))"
    unfolding lib_def sample_start by simp
  then have "mint_drives.reaches lib [] wire_sdk sample_payer False (sample_mint, [1]) sample_spec sample_state ''mint-'' ?es"
    using mint_drives.complete [of lib "[]" "((sample_mint, [1]), Some (JObject sample_arguments))" "''mint-''", OF _ es] run
    by simp
  then obtain r sid s where "(mint_step lib [])\<^sup>*\<^sup>* newMintService r" "get sid r = Some s"
    and s: "mint_session.on_course wire_sdk sample_payer False (sample_mint, [1]) sample_spec sample_state s ?es"
    unfolding mint_drives.reaches_def newMintService_def by blast
  with that [of r sid s msg] mint_session.course_pending(2) [OF s run es(1)] msg show thesis by (simp add: Pending_def)
qed

definition sample_key :: Key where
  "sample_key = \<lparr>Public = sample_payer, Curve = ''ed25519'', Sign = (\<lambda>_. Inr (replicate 64 3))\<rparr>"

lemma sample_unlock:
  "unlock_handler js (\<lambda>_ _. Inr sample_key) solana_policy (locked_vault \<lparr>Payer = []\<rparr>) (Some (JObject [])) =
     (Inr (unlock_reply js sample_key), \<lparr>vault_key = Some sample_key, vault_policy = \<lparr>Payer = sample_payer\<rparr>, sign_calls = []\<rparr>)"
  by (simp add: unlock_handler_def decode_unlock_def json_members_def solana_policy_def BindKey_def locked_vault_def
      sample_key_def)

end
