(* ===== verification/Example_Cmd.thy ===== *)
theory Example_Cmd
  imports Mcp_Server
begin

text \<open>
  The template extension (\<open>src/cmd/example/main.go\<close>): one tool that echoes its text, served by
  the harness of \<open>Mcp_Server\<close>. It keeps no state.
\<close>

definition example_handler :: "unit \<Rightarrow> rawMessage \<Rightarrow> (string + string) \<times> unit" where
  "example_handler st arguments =
     ((case Option.bind arguments json_members of
         None \<Rightarrow> Inl ''bad input''
       | Some kvs \<Rightarrow>
           (case field_string ''text'' [] kvs of None \<Rightarrow> Inl ''bad input'' | Some t \<Rightarrow> Inr (''echo: '' @ t))), st)"

definition example_tool :: "unit Tool" where
  "example_tool =
     \<lparr>Name = ''example_echo'',
      Description = ''Echo the given text back. A placeholder demonstrating the extension shape.'',
      InputSchema = Some (JObject [(''type'', JString ''object''),
        (''properties'', JObject [(''text'', JObject [(''type'', JString ''string'')])]),
        (''required'', JArray [JString ''text''])]),
      Handler = example_handler\<rparr>"

definition example_server :: "string \<Rightarrow> unit Server" where
  "example_server version = Register example_tool (New ''example'' version)"

lemma example_echoes:
  "srv_tools (example_server version) ''example_echo'' = Some example_tool \<and>
   Handler example_tool () (Some (JObject [(''text'', JString t)])) = (Inr (''echo: '' @ t), ())"
  by (simp add: example_server_def example_tool_def Register_def New_def example_handler_def json_members_def
      matches_field_def)

end
