(* ===== verification/Tool_Types.thy ===== *)
theory Tool_Types
  imports Signer_Harness Token_Cmd Example_Cmd
begin

text \<open>
  The types of the tools' arguments. Every tool advertises a JSON schema and decodes its
  arguments into a Go struct (\<open>src/cmd/token/main.go\<close>, \<open>src/signer/signer.go\<close>,
  \<open>src/cmd/example/main.go\<close>). Here the structs are tables of fields with their types, which
  say exactly when the decoding fails, and the schemas are read as predicates, of which only
  \<open>type\<close>, \<open>properties\<close> and \<open>required\<close> occur.
\<close>

section \<open>Structs\<close>
























section \<open>Schemas\<close>




















section \<open>The advertised schemas\<close>








section \<open>Properties\<close>



end
