(* ===== verification/Clock_Interface.thy ===== *)
theory Clock_Interface
  imports Flynn_Prelude
begin

text \<open>
  The interfaces \<open>Clock\<close>, \<open>Timer\<close> and \<open>Timing\<close> of \<open>src/clock\<close>: what code that delays work may ask
  of a source of time, and what it may rely on.

  A clock is the record of its operations on a state \<open>'s\<close>; a timer is an identity, and the receive
  from its channel \<open>C()\<close> is the operation \<open>clk_Recv\<close>. What makes time move is not part of the Go
  interface, so it is the operation \<open>clk_Move\<close> with the moves \<open>'m\<close> each clock has. The contract is
  the locale \<open>timing\<close>, over the deadlines that armed timers still owe a delivery for; its client
  lemmas hold for both clocks of the package, which interpret it (\<open>Manual_Clock\<close>, \<open>System_Clock\<close>).
\<close>

section \<open>The interface\<close>

record ('s, 'm) Timing =
  clk_Now :: "'s \<Rightarrow> int"
  clk_NewTimer :: "int \<Rightarrow> 's \<Rightarrow> nat \<times> 's"
  clk_After :: "int \<Rightarrow> 's \<Rightarrow> nat \<times> 's"
  clk_Stop :: "nat \<Rightarrow> 's \<Rightarrow> bool \<times> 's"
  clk_Reset :: "nat \<Rightarrow> int \<Rightarrow> 's \<Rightarrow> bool \<times> 's"
  clk_Recv :: "nat \<Rightarrow> 's \<Rightarrow> int option \<times> 's"
  clk_Move :: "'m \<Rightarrow> 's \<Rightarrow> 's"

datatype 'm clock_op = OpMove 'm | OpNewTimer int | OpStop nat | OpReset nat int | OpRecv nat

text \<open>Only timers that were handed out can be stopped, reset or read.\<close>

definition timing_step ::
  "('s, 'm) Timing \<Rightarrow> ('s \<Rightarrow> nat \<Rightarrow> bool) \<Rightarrow> 'm clock_op \<Rightarrow> 's \<Rightarrow> 's" where
  "timing_step clk handed p s =
     (case p of
        OpMove m \<Rightarrow> clk_Move clk m s
      | OpNewTimer d \<Rightarrow> snd (clk_NewTimer clk d s)
      | OpStop i \<Rightarrow> if handed s i then snd (clk_Stop clk i s) else s
      | OpReset i d \<Rightarrow> if handed s i then snd (clk_Reset clk i d s) else s
      | OpRecv i \<Rightarrow> if handed s i then snd (clk_Recv clk i s) else s)"

text \<open>Deliveries and armings of one timer along a run.\<close>

definition delivers ::
  "('s, 'm) Timing \<Rightarrow> ('s \<Rightarrow> nat \<Rightarrow> bool) \<Rightarrow> nat \<Rightarrow> 'm clock_op \<Rightarrow> 's \<Rightarrow> nat" where
  "delivers clk handed i p s =
     (case p of
        OpRecv j \<Rightarrow> if j = i \<and> handed s j \<and> fst (clk_Recv clk j s) \<noteq> None then 1 else 0
      | _ \<Rightarrow> 0)"

definition arms ::
  "('s, 'm) Timing \<Rightarrow> ('s \<Rightarrow> nat \<Rightarrow> bool) \<Rightarrow> nat \<Rightarrow> 'm clock_op \<Rightarrow> 's \<Rightarrow> nat" where
  "arms clk handed i p s =
     (case p of
        OpNewTimer d \<Rightarrow> if fst (clk_NewTimer clk d s) = i then 1 else 0
      | OpReset j d \<Rightarrow> if j = i \<and> handed s j then 1 else 0
      | _ \<Rightarrow> 0)"

fun along ::
  "('m clock_op \<Rightarrow> 's \<Rightarrow> 's) \<Rightarrow> ('m clock_op \<Rightarrow> 's \<Rightarrow> nat) \<Rightarrow> 'm clock_op list \<Rightarrow> 's \<Rightarrow> nat" where
  "along step f [] s = 0"
| "along step f (p # ps) s = f p s + along step f ps (step p s)"

section \<open>The contract\<close>

text \<open>
  A timer armed at time \<open>t\<close> for a duration \<open>d\<close> is set for \<open>t + d\<close>, or for a time up to \<open>t\<close> if \<open>d\<close> is
  negative (\<open>set_for\<close>), so that one with \<open>d \<le> 0\<close> is due at once.
  \<open>owes s i\<close> is the deadline of a timer that was armed and has neither delivered nor been stopped.
  A receive succeeds only for such a timer, with a time that is not before its deadline, and it
  does succeed once the clock has reached the deadline. A \<open>Stop\<close> that reports a pending timer
  cancels what it owes; one that does not either cancels it or leaves it as it is.
\<close>

definition set_for :: "int \<Rightarrow> int \<Rightarrow> int \<Rightarrow> bool" where
  "set_for t d dl \<longleftrightarrow> t + d \<le> dl \<and> dl \<le> t + max 0 d"

locale timing =
  fixes clk :: "('s, 'm) Timing"
    and inv :: "'s \<Rightarrow> bool"
    and handed :: "'s \<Rightarrow> nat \<Rightarrow> bool"
    and owes :: "'s \<Rightarrow> nat \<Rightarrow> int option"
  assumes moved: "inv s \<Longrightarrow>
      inv (clk_Move clk m s) \<and> handed (clk_Move clk m s) = handed s \<and> owes (clk_Move clk m s) = owes s"
    and created: "inv s \<Longrightarrow> clk_NewTimer clk d s = (i, s') \<Longrightarrow>
      inv s' \<and> \<not> handed s i \<and> handed s' = (handed s)(i := True) \<and> clk_Now clk s' = clk_Now clk s \<and>
      (\<exists>dl. set_for (clk_Now clk s) d dl \<and> owes s' = (owes s)(i \<mapsto> dl))"
    and after_is_timer: "clk_After clk d s = clk_NewTimer clk d s"
    and stopped: "inv s \<Longrightarrow> handed s i \<Longrightarrow> clk_Stop clk i s = (b, s') \<Longrightarrow>
      inv s' \<and> handed s' = handed s \<and> (\<exists>x. owes s' = (owes s)(i := x) \<and> (x = None \<or> \<not> b \<and> x = owes s i))"
    and was_reset: "inv s \<Longrightarrow> handed s i \<Longrightarrow> clk_Reset clk i d s = (b, s') \<Longrightarrow>
      inv s' \<and> handed s' = handed s \<and> (\<exists>dl. set_for (clk_Now clk s) d dl \<and> owes s' = (owes s)(i \<mapsto> dl))"
    and received: "inv s \<Longrightarrow> handed s i \<Longrightarrow> clk_Recv clk i s = (r, s') \<Longrightarrow>
      inv s' \<and> handed s' = handed s \<and>
      (case r of None \<Rightarrow> owes s' = owes s
       | Some v \<Rightarrow> \<exists>dl. owes s i = Some dl \<and> dl \<le> v \<and> owes s' = (owes s)(i := None))"
    and due: "inv s \<Longrightarrow> handed s i \<Longrightarrow> owes s i = Some dl \<Longrightarrow> dl \<le> clk_Now clk s \<Longrightarrow> fst (clk_Recv clk i s) \<noteq> None"
begin

text \<open>What a step does to the state and to one timer.\<close>

lemma step_effect:
  assumes "inv s"
  shows "inv (timing_step clk handed p s) \<and> (handed s i \<longrightarrow> handed (timing_step clk handed p s) i \<and>
    ((\<forall>d. p \<noteq> OpReset i d) \<longrightarrow>
      owes (timing_step clk handed p s) i = None \<or> owes (timing_step clk handed p s) i = owes s i))"
proof (cases p)
  case (OpMove m)
  with moved [OF assms, of m] show ?thesis by (simp add: timing_step_def)
next
  case (OpNewTimer d)
  obtain j s' where "clk_NewTimer clk d s = (j, s')" by fastforce
  with created [OF assms this] OpNewTimer show ?thesis by (auto simp: timing_step_def)
next
  case (OpStop j)
  obtain b s' where "clk_Stop clk j s = (b, s')" by fastforce
  with stopped [OF assms, of j b s'] assms OpStop show ?thesis by (auto simp: timing_step_def)
next
  case (OpReset j d)
  obtain b s' where "clk_Reset clk j d s = (b, s')" by fastforce
  with was_reset [OF assms, of j d b s'] assms OpReset show ?thesis by (auto simp: timing_step_def)
next
  case (OpRecv j)
  obtain r s' where "clk_Recv clk j s = (r, s')" by fastforce
  with received [OF assms, of j r s'] assms OpRecv show ?thesis
    by (auto simp: timing_step_def split: option.splits)
qed

lemma step_inv: "inv s \<Longrightarrow> inv (timing_step clk handed p s)"
  using step_effect by blast

sublocale machine: guarded_machine "timing_step clk handed" inv
  by unfold_locales (rule step_inv)

lemma run_owes:
  assumes "inv s" and "handed s i" and "\<And>d. OpReset i d \<notin> set ps"
  shows "handed (fold (timing_step clk handed) ps s) i \<and>
    (owes (fold (timing_step clk handed) ps s) i = None \<or> owes (fold (timing_step clk handed) ps s) i = owes s i)"
  using assms
proof (induction ps arbitrary: s)
  case (Cons p ps)
  have "p \<noteq> OpReset i d" for d using Cons.prems(3) [of d] by auto
  with Cons.prems step_effect [OF Cons.prems(1), of p i] Cons.IH [OF step_inv [OF Cons.prems(1)], of p] show ?case by fastforce
qed simp

text \<open>A timer stopped while pending is silent until it is reset.\<close>

lemma silent_after_stop:
  assumes "inv s" and "handed s i" and "clk_Stop clk i s = (True, s1)" and "\<And>d. OpReset i d \<notin> set later"
  shows "fst (clk_Recv clk i (fold (timing_step clk handed) later s1)) = None"
proof -
  let ?s2 = "fold (timing_step clk handed) later s1"
  from stopped [OF assms(1-3)] assms(2) have s1: "inv s1" "handed s1 i" "owes s1 i = None" by auto
  with run_owes [OF s1(1,2) assms(4)] have "handed ?s2 i" "owes ?s2 i = None" by auto
  with received [OF machine.inv_run [OF s1(1), of later], of i "fst (clk_Recv clk i ?s2)" "snd (clk_Recv clk i ?s2)"]
  show ?thesis by (auto split: option.splits)
qed

text \<open>A wait for \<open>After d\<close> ends with a time at least \<open>d\<close> after its start, and not before.\<close>

lemma after_waits:
  assumes "inv s" and "clk_After clk d s = (i, s1)" and "\<And>d'. OpReset i d' \<notin> set ps"
    and "clk_Recv clk i (fold (timing_step clk handed) ps s1) = (Some v, s2)"
  shows "clk_Now clk s + d \<le> v"
proof -
  from created [OF assms(1) assms(2) [unfolded after_is_timer]]
  obtain dl where s1: "inv s1" "handed s1 i" "owes s1 i = Some dl" "clk_Now clk s + d \<le> dl" by (auto simp: set_for_def)
  from run_owes [OF s1(1,2) assms(3)] received [OF machine.inv_run [OF s1(1)] _ assms(4)] s1(3,4) show ?thesis by auto
qed

text \<open>Each arming of a timer is good for one delivery.\<close>

definition credit :: "nat \<Rightarrow> 's \<Rightarrow> nat" where
  "credit i s = (if handed s i \<and> owes s i \<noteq> None then 1 else 0)"

lemma credit_step:
  assumes "inv s"
  shows "credit i (timing_step clk handed p s) + delivers clk handed i p s \<le> credit i s + arms clk handed i p s"
proof (cases p)
  case (OpMove m)
  with moved [OF assms, of m] show ?thesis by (simp add: timing_step_def delivers_def arms_def credit_def)
next
  case (OpNewTimer d)
  obtain j s' where new: "clk_NewTimer clk d s = (j, s')" by fastforce
  from created [OF assms new] new OpNewTimer show ?thesis
    by (auto simp: timing_step_def delivers_def arms_def credit_def)
next
  case (OpStop j)
  obtain b s' where "clk_Stop clk j s = (b, s')" by fastforce
  with stopped [OF assms, of j b s'] OpStop show ?thesis
    by (auto simp: timing_step_def delivers_def arms_def credit_def split: if_splits)
next
  case (OpReset j d)
  obtain b s' where "clk_Reset clk j d s = (b, s')" by fastforce
  with was_reset [OF assms, of j d b s'] OpReset show ?thesis
    by (auto simp: timing_step_def delivers_def arms_def credit_def)
next
  case (OpRecv j)
  obtain r s' where "clk_Recv clk j s = (r, s')" by fastforce
  with received [OF assms, of j r s'] OpRecv show ?thesis
    by (auto simp: timing_step_def delivers_def arms_def credit_def split: option.splits)
qed

lemma deliveries_bounded:
  "inv s \<Longrightarrow> along (timing_step clk handed) (delivers clk handed i) ps s \<le>
     credit i s + along (timing_step clk handed) (arms clk handed i) ps s"
proof (induction ps arbitrary: s)
  case (Cons p ps)
  from Cons.IH [OF step_inv [OF Cons.prems], of p] credit_step [OF Cons.prems, of i p] show ?case by simp
qed simp

end

text \<open>A clock whose time only moves forward and whose timers fire only once it is there.\<close>

locale forward_timing = timing clk inv handed owes
  for clk :: "('s, 'm) Timing" and inv :: "'s \<Rightarrow> bool" and handed owes +
  assumes forward: "inv s \<Longrightarrow> clk_Now clk s \<le> clk_Now clk (timing_step clk handed p s)"
    and ripe: "inv s \<Longrightarrow> handed s i \<Longrightarrow> clk_Recv clk i s = (Some v, s') \<Longrightarrow> owes s i = Some dl \<Longrightarrow>
      dl \<le> clk_Now clk s"

end
