(* ===== verification/Manual_Clock.thy ===== *)
theory Manual_Clock
  imports Clock_Interface
begin

text \<open>
  The deterministic clock (\<open>src/clock/clock.go\<close>, \<open>src/clock/timer.go\<close>): a \<open>Manual\<close> clock that
  moves only when it is told to, with the timers it hands out.

  Times and durations are integers (nanoseconds). Timers are shared by pointer between the
  clock's pending list and the code that holds them, so they live in a store: a timer is an
  identity, and \<open>cells\<close> gives its deadline and its one-slot channel. Every operation holds the
  clock's mutex from start to end, so the interleavings of concurrent callers are the sequences
  of operations. The clock is shown to keep the contract \<open>timing\<close>, from which its timers have the
  contract's client lemmas.
\<close>

section \<open>State\<close>

record manualTimer =
  deadline :: int
  chan_c :: "int option"

record Manual =
  clock_t :: int
  timers :: "nat list"
  cells :: "nat \<Rightarrow> manualTimer"
  next_timer :: nat

definition NewManual :: "int \<Rightarrow> Manual" where
  "NewManual start = \<lparr>clock_t = start, timers = [], cells = (\<lambda>_. \<lparr>deadline = 0, chan_c = None\<rparr>), next_timer = 0\<rparr>"

definition Now :: "Manual \<Rightarrow> int" where
  "Now m = clock_t m"

definition PendingTimers :: "Manual \<Rightarrow> nat" where
  "PendingTimers m = length (timers m)"

section \<open>Operations\<close>

definition set_cell :: "nat \<Rightarrow> manualTimer \<Rightarrow> Manual \<Rightarrow> Manual" where
  "set_cell i c m = m\<lparr>cells := (cells m)(i := c)\<rparr>"

text \<open>A send that does not block: a full slot keeps the value it has.\<close>

definition fireLocked :: "nat \<Rightarrow> Manual \<Rightarrow> Manual" where
  "fireLocked i m =
     (case chan_c (cells m i) of
        None \<Rightarrow> set_cell i ((cells m i)\<lparr>chan_c := Some (clock_t m)\<rparr>) m
      | Some _ \<Rightarrow> m)"

fun remove_first :: "nat \<Rightarrow> nat list \<Rightarrow> bool \<times> nat list" where
  "remove_first i [] = (False, [])"
| "remove_first i (x # xs) =
     (if x = i then (True, xs) else (case remove_first i xs of (b, ys) \<Rightarrow> (b, x # ys)))"

definition removeLocked :: "nat \<Rightarrow> Manual \<Rightarrow> bool \<times> Manual" where
  "removeLocked i m = (case remove_first i (timers m) of (b, ts) \<Rightarrow> (b, m\<lparr>timers := ts\<rparr>))"

text \<open>The loop of \<open>fireDueLocked\<close>: the timers to visit and those kept so far.\<close>

fun fire_loop :: "nat list \<Rightarrow> nat list \<Rightarrow> Manual \<Rightarrow> Manual" where
  "fire_loop [] kept m = m\<lparr>timers := kept\<rparr>"
| "fire_loop (i # is) kept m =
     (if clock_t m < deadline (cells m i) then fire_loop is (kept @ [i]) m
      else fire_loop is kept (fireLocked i m))"

definition fireDueLocked :: "Manual \<Rightarrow> Manual" where
  "fireDueLocked m = fire_loop (timers m) [] m"

definition Advance :: "int \<Rightarrow> Manual \<Rightarrow> Manual" where
  "Advance d m = fireDueLocked (m\<lparr>clock_t := clock_t m + d\<rparr>)"

definition SetTime :: "int \<Rightarrow> Manual \<Rightarrow> Manual" where
  "SetTime t m = fireDueLocked (m\<lparr>clock_t := t\<rparr>)"

definition NewTimer :: "int \<Rightarrow> Manual \<Rightarrow> nat \<times> Manual" where
  "NewTimer d m =
     (let i = next_timer m;
          m1 = (set_cell i \<lparr>deadline = clock_t m + d, chan_c = None\<rparr> m)\<lparr>next_timer := Suc i\<rparr>
      in (i, if d \<le> 0 then fireLocked i m1 else m1\<lparr>timers := timers m1 @ [i]\<rparr>))"

text \<open>\<open>After\<close> hands out the channel of a new timer, here the timer itself.\<close>

definition After :: "int \<Rightarrow> Manual \<Rightarrow> nat \<times> Manual" where
  "After d m = NewTimer d m"

definition Stop :: "nat \<Rightarrow> Manual \<Rightarrow> bool \<times> Manual" where
  "Stop i m = removeLocked i m"

definition Reset :: "nat \<Rightarrow> int \<Rightarrow> Manual \<Rightarrow> bool \<times> Manual" where
  "Reset i d m =
     (case removeLocked i m of
        (was, m1) \<Rightarrow>
          let m2 = set_cell i \<lparr>deadline = clock_t m1 + d, chan_c = None\<rparr> m1
          in (was, if d \<le> 0 then fireLocked i m2 else m2\<lparr>timers := timers m2 @ [i]\<rparr>))"

text \<open>The client's side: a receive that finds a value takes it.\<close>

definition Recv :: "nat \<Rightarrow> Manual \<Rightarrow> int option \<times> Manual" where
  "Recv i m = (chan_c (cells m i), set_cell i ((cells m i)\<lparr>chan_c := None\<rparr>) m)"

datatype manual_move = MoveAdvance int | MoveSet int

definition manual_clock :: "(Manual, manual_move) Timing" where
  "manual_clock =
     \<lparr>clk_Now = Now, clk_NewTimer = NewTimer, clk_After = After, clk_Stop = Stop, clk_Reset = Reset,
      clk_Recv = Recv, clk_Move = (\<lambda>mv. case mv of MoveAdvance d \<Rightarrow> Advance d | MoveSet t \<Rightarrow> SetTime t)\<rparr>"

definition handed_out :: "Manual \<Rightarrow> nat \<Rightarrow> bool" where
  "handed_out m i \<longleftrightarrow> i < next_timer m"

abbreviation clock_step :: "manual_move clock_op \<Rightarrow> Manual \<Rightarrow> Manual" where
  "clock_step \<equiv> timing_step manual_clock handed_out"

section \<open>The invariant\<close>

text \<open>
  A timer is pending at most once, its deadline is still ahead, and its slot is free: a fire
  is never lost to a full channel.
\<close>

definition clock_inv :: "Manual \<Rightarrow> bool" where
  "clock_inv m \<longleftrightarrow> distinct (timers m) \<and>
     (\<forall>i \<in> set (timers m). i < next_timer m \<and> clock_t m < deadline (cells m i) \<and> chan_c (cells m i) = None)"

lemma remove_first_eq: "distinct xs \<Longrightarrow> remove_first i xs = (i \<in> set xs, filter (\<lambda>x. x \<noteq> i) xs)"
  by (induction xs) (auto intro!: filter_True [symmetric])

lemma set_cell_simps [simp]:
  "clock_t (set_cell i c m) = clock_t m" "timers (set_cell i c m) = timers m"
  "next_timer (set_cell i c m) = next_timer m" "cells (set_cell i c m) = (cells m)(i := c)"
  by (simp_all add: set_cell_def)

lemma fireLocked_simps [simp]:
  "clock_t (fireLocked i m) = clock_t m" "timers (fireLocked i m) = timers m"
  "next_timer (fireLocked i m) = next_timer m"
  "deadline (cells (fireLocked i m) j) = deadline (cells m j)"
  "chan_c (cells (fireLocked i m) j) =
     (if j = i \<and> chan_c (cells m i) = None then Some (clock_t m) else chan_c (cells m j))"
  by (auto simp: fireLocked_def split: option.splits)

text \<open>What one sweep of the pending list does to the clock, to every timer and to the list.\<close>

lemma fire_loop_effect:
  "distinct is \<Longrightarrow>
   clock_t (fire_loop is kept m) = clock_t m \<and> next_timer (fire_loop is kept m) = next_timer m \<and>
   timers (fire_loop is kept m) = kept @ filter (\<lambda>i. clock_t m < deadline (cells m i)) is \<and>
   (\<forall>j. deadline (cells (fire_loop is kept m) j) = deadline (cells m j) \<and>
        chan_c (cells (fire_loop is kept m) j) =
          (if j \<in> set is \<and> deadline (cells m j) \<le> clock_t m \<and> chan_c (cells m j) = None
           then Some (clock_t m) else chan_c (cells m j)))"
  by (induction "is" arbitrary: kept m) auto

lemma fireDueLocked_effect:
  assumes "distinct (timers m)"
  shows "clock_t (fireDueLocked m) = clock_t m" "next_timer (fireDueLocked m) = next_timer m"
    "timers (fireDueLocked m) = filter (\<lambda>i. clock_t m < deadline (cells m i)) (timers m)"
    "deadline (cells (fireDueLocked m) j) = deadline (cells m j)"
    "chan_c (cells (fireDueLocked m) j) =
       (if j \<in> set (timers m) \<and> deadline (cells m j) \<le> clock_t m \<and> chan_c (cells m j) = None
        then Some (clock_t m) else chan_c (cells m j))"
  using fire_loop_effect [OF assms, of "[]" m] by (simp_all add: fireDueLocked_def)

lemma removeLocked_effect:
  "distinct (timers m) \<Longrightarrow> removeLocked i m = (i \<in> set (timers m), m\<lparr>timers := filter (\<lambda>x. x \<noteq> i) (timers m)\<rparr>)"
  by (simp add: removeLocked_def remove_first_eq)

lemma inv_distinct [simp]: "clock_inv m \<Longrightarrow> distinct (timers m)"
  by (simp add: clock_inv_def)

lemma clock_inv_New: "clock_inv (NewManual t)"
  by (simp add: clock_inv_def NewManual_def)

section \<open>The contract\<close>

text \<open>A timer owes its delivery while it is pending or its channel is full.\<close>

definition owed :: "Manual \<Rightarrow> nat \<Rightarrow> int option" where
  "owed m i =
     (if i < next_timer m \<and> (i \<in> set (timers m) \<or> chan_c (cells m i) \<noteq> None) then Some (deadline (cells m i)) else None)"

text \<open>What is in a channel is not earlier than the deadline it was fired for.\<close>

definition manual_inv :: "Manual \<Rightarrow> bool" where
  "manual_inv m \<longleftrightarrow> clock_inv m \<and> (\<forall>i v. chan_c (cells m i) = Some v \<longrightarrow> deadline (cells m i) \<le> v)"

lemma manual_clock_parts [simp]:
  "clk_Now manual_clock = Now" "clk_NewTimer manual_clock = NewTimer" "clk_After manual_clock = After"
  "clk_Stop manual_clock = Stop" "clk_Reset manual_clock = Reset" "clk_Recv manual_clock = Recv"
  "clk_Move manual_clock (MoveAdvance d) = Advance d" "clk_Move manual_clock (MoveSet t) = SetTime t"
  by (simp_all add: manual_clock_def)

lemma manual_moved:
  assumes "manual_inv m"
  shows "manual_inv (fireDueLocked (m\<lparr>clock_t := t\<rparr>))"
    "handed_out (fireDueLocked (m\<lparr>clock_t := t\<rparr>)) = handed_out m"
    "owed (fireDueLocked (m\<lparr>clock_t := t\<rparr>)) = owed m"
  using assms by (auto simp: manual_inv_def clock_inv_def owed_def handed_out_def fireDueLocked_effect fun_eq_iff)

lemma NewTimer_effect:
  assumes "NewTimer d m = (i, m')"
  shows "i = next_timer m" "clock_t m' = clock_t m" "next_timer m' = Suc i"
    "timers m' = (if d \<le> 0 then timers m else timers m @ [i])"
    "deadline (cells m' j) = (if j = i then clock_t m + d else deadline (cells m j))"
    "chan_c (cells m' j) = (if j = i then if d \<le> 0 then Some (clock_t m) else None else chan_c (cells m j))"
  using assms by (auto simp: NewTimer_def Let_def)

lemma Reset_effect:
  assumes "Reset i d m = (b, m')" and "distinct (timers m)"
  shows "clock_t m' = clock_t m" "next_timer m' = next_timer m"
    "timers m' = (if d \<le> 0 then filter (\<lambda>x. x \<noteq> i) (timers m) else filter (\<lambda>x. x \<noteq> i) (timers m) @ [i])"
    "deadline (cells m' j) = (if j = i then clock_t m + d else deadline (cells m j))"
    "chan_c (cells m' j) = (if j = i then if d \<le> 0 then Some (clock_t m) else None else chan_c (cells m j))"
  using assms by (auto simp: Reset_def Let_def removeLocked_effect)

lemma manual_created:
  assumes "manual_inv m" and "NewTimer d m = (i, m')"
  shows "manual_inv m'" "\<not> handed_out m i" "handed_out m' = (handed_out m)(i := True)"
    "owed m' = (owed m)(i \<mapsto> clock_t m + d)" "clock_t m' = clock_t m"
proof -
  note effect = NewTimer_effect [OF assms(2)]
  show "manual_inv m'"
    using assms(1) by (auto simp: manual_inv_def clock_inv_def effect less_Suc_eq)
  show "owed m' = (owed m)(i \<mapsto> clock_t m + d)"
  proof
    fix j
    show "owed m' j = ((owed m)(i \<mapsto> clock_t m + d)) j"
      by (cases "j = i") (auto simp: owed_def effect less_Suc_eq)
  qed
qed (auto simp: handed_out_def NewTimer_effect [OF assms(2)] less_Suc_eq fun_eq_iff)

lemma manual_stopped:
  assumes "manual_inv m" and "Stop i m = (b, m')"
  shows "manual_inv m'" "handed_out m' = handed_out m"
    "owed m' = (owed m)(i := owed m' i)" "owed m' i = None \<or> \<not> b \<and> owed m' i = owed m i"
proof -
  have effect: "b = (i \<in> set (timers m))" "m' = m\<lparr>timers := filter (\<lambda>x. x \<noteq> i) (timers m)\<rparr>"
    using assms by (auto simp: Stop_def removeLocked_effect manual_inv_def)
  show "manual_inv m'" using assms(1) by (auto simp: effect manual_inv_def clock_inv_def)
  show "owed m' = (owed m)(i := owed m' i)"
  proof
    fix j
    show "owed m' j = ((owed m)(i := owed m' i)) j" by (cases "j = i") (simp_all add: owed_def effect)
  qed
  show "owed m' i = None \<or> \<not> b \<and> owed m' i = owed m i"
    using assms(1) by (auto simp: owed_def effect manual_inv_def clock_inv_def)
  show "handed_out m' = handed_out m" by (simp add: effect handed_out_def fun_eq_iff)
qed

lemma manual_reset:
  assumes "manual_inv m" and "handed_out m i" and "Reset i d m = (b, m')"
  shows "manual_inv m'" "handed_out m' = handed_out m" "owed m' = (owed m)(i \<mapsto> clock_t m + d)"
proof -
  have "distinct (timers m)" using assms(1) by (simp add: manual_inv_def)
  note effect = Reset_effect [OF assms(3) this]
  show "manual_inv m'"
    using assms(1,2) by (auto simp: manual_inv_def clock_inv_def effect handed_out_def)
  show "owed m' = (owed m)(i \<mapsto> clock_t m + d)"
  proof
    fix j
    show "owed m' j = ((owed m)(i \<mapsto> clock_t m + d)) j"
      using assms(2) by (cases "j = i") (auto simp: owed_def effect handed_out_def)
  qed
  show "handed_out m' = handed_out m" by (simp add: handed_out_def effect fun_eq_iff)
qed

lemma manual_received:
  assumes "manual_inv m" and "handed_out m i" and "Recv i m = (r, m')"
  shows "manual_inv m'" "handed_out m' = handed_out m" "r = None \<Longrightarrow> owed m' = owed m"
    "r = Some v \<Longrightarrow> \<exists>dl. owed m i = Some dl \<and> dl \<le> v \<and> owed m' = (owed m)(i := None)"
proof -
  have effect: "r = chan_c (cells m i)" "m' = set_cell i ((cells m i)\<lparr>chan_c := None\<rparr>) m"
    using assms(3) by (simp_all add: Recv_def)
  show "manual_inv m'" using assms(1) by (auto simp: effect manual_inv_def clock_inv_def)
  show "handed_out m' = handed_out m" by (simp add: effect handed_out_def fun_eq_iff)
  show "owed m' = owed m" if "r = None"
    using that by (auto simp: owed_def effect fun_eq_iff)
  show "\<exists>dl. owed m i = Some dl \<and> dl \<le> v \<and> owed m' = (owed m)(i := None)" if "r = Some v"
  proof (intro exI conjI)
    show "owed m i = Some (deadline (cells m i))" using that assms(2) by (simp add: owed_def effect handed_out_def)
    show "deadline (cells m i) \<le> v" using that assms(1) by (simp add: manual_inv_def effect)
    show "owed m' = (owed m)(i := None)"
      using that assms(1) by (auto simp: owed_def effect fun_eq_iff manual_inv_def clock_inv_def)
  qed
qed

interpretation manual: timing manual_clock manual_inv handed_out owed
proof (unfold_locales, goal_cases)
  case (1 m mv)
  with manual_moved [OF 1] show ?case by (cases mv) (simp_all add: Advance_def SetTime_def)
next
  case (2 m d i m')
  with manual_created [of m d i m'] show ?case by (auto simp: Now_def set_for_def)
next
  case (4 m i b m')
  with manual_stopped [of m i b m'] show ?case by auto
next
  case (5 m i d b m')
  with manual_reset [of m i d b m'] show ?case by (auto simp: Now_def set_for_def)
next
  case (6 m i r m')
  with manual_received [of m i r m'] show ?case by (auto split: option.splits)
next
  case (7 m i dl)
  then show ?case by (auto simp: manual_inv_def clock_inv_def owed_def Recv_def Now_def split: if_splits)
qed (simp add: After_def)

lemma manual_inv_New: "manual_inv (NewManual t)"
  by (simp add: manual_inv_def clock_inv_New) (simp add: NewManual_def)

lemma manual_reachable: "manual_inv (fold clock_step ops (NewManual t))"
  by (intro manual.machine.inv_run manual_inv_New)

section \<open>A clock that is only advanced\<close>

text \<open>
  \<open>Set\<close> may move the clock back. As long as a test only advances it, its time moves forward, and
  what is in a channel was due.
\<close>

definition advancing_clock :: "(Manual, nat) Timing" where
  "advancing_clock =
     \<lparr>clk_Now = Now, clk_NewTimer = NewTimer, clk_After = After, clk_Stop = Stop, clk_Reset = Reset,
      clk_Recv = Recv, clk_Move = (\<lambda>d. Advance (int d))\<rparr>"

lemma advancing_clock_parts [simp]:
  "clk_Now advancing_clock = Now" "clk_NewTimer advancing_clock = NewTimer" "clk_After advancing_clock = After"
  "clk_Stop advancing_clock = Stop" "clk_Reset advancing_clock = Reset" "clk_Recv advancing_clock = Recv"
  "clk_Move advancing_clock d = Advance (int d)"
  by (simp_all add: advancing_clock_def)

definition advancing_inv :: "Manual \<Rightarrow> bool" where
  "advancing_inv m \<longleftrightarrow> manual_inv m \<and> (\<forall>i. chan_c (cells m i) \<noteq> None \<longrightarrow> deadline (cells m i) \<le> clock_t m)"

lemma advancing_distinct: "advancing_inv m \<Longrightarrow> distinct (timers m)"
  by (simp add: advancing_inv_def manual_inv_def)

lemma advancing_moved:
  assumes "advancing_inv m"
  shows "advancing_inv (Advance (int d) m)" "Now m \<le> Now (Advance (int d) m)"
proof -
  have d: "distinct (timers (m\<lparr>clock_t := clock_t m + int d\<rparr>))" using advancing_distinct [OF assms] by simp
  have "deadline (cells m i) \<le> clock_t m + int d" if "chan_c (cells m i) \<noteq> None" for i
    using assms that by (force simp: advancing_inv_def)
  with assms manual_moved [of m "clock_t m + int d"] show "advancing_inv (Advance (int d) m)"
    by (auto simp: advancing_inv_def Advance_def fireDueLocked_effect [OF d] split: if_splits)
  show "Now m \<le> Now (Advance (int d) m)" by (simp add: Now_def Advance_def fireDueLocked_effect [OF d])
qed

lemma advancing_operations:
  assumes "advancing_inv m"
  shows "NewTimer d m = (i, m') \<Longrightarrow> advancing_inv m' \<and> Now m' = Now m"
    "Stop i m = (b, m') \<Longrightarrow> advancing_inv m' \<and> Now m' = Now m"
    "handed_out m i \<Longrightarrow> Reset i d m = (b, m') \<Longrightarrow> advancing_inv m' \<and> Now m' = Now m"
    "handed_out m i \<Longrightarrow> Recv i m = (r, m') \<Longrightarrow> advancing_inv m' \<and> Now m' = Now m"
proof -
  from assms have inv: "manual_inv m" and ripe: "\<And>i. chan_c (cells m i) \<noteq> None \<Longrightarrow> deadline (cells m i) \<le> clock_t m"
    by (auto simp: advancing_inv_def)
  note distinct = advancing_distinct [OF assms]
  show "advancing_inv m' \<and> Now m' = Now m" if "NewTimer d m = (i, m')"
    using manual_created(1) [OF inv that] ripe by (auto simp: advancing_inv_def Now_def NewTimer_effect [OF that])
  show "advancing_inv m' \<and> Now m' = Now m" if "Stop i m = (b, m')"
    using manual_stopped(1) [OF inv that] ripe that by (auto simp: advancing_inv_def Now_def Stop_def removeLocked_effect [OF distinct])
  show "advancing_inv m' \<and> Now m' = Now m" if "handed_out m i" "Reset i d m = (b, m')"
    using manual_reset(1) [OF inv that] ripe by (auto simp: advancing_inv_def Now_def Reset_effect [OF that(2) distinct])
  show "advancing_inv m' \<and> Now m' = Now m" if "handed_out m i" "Recv i m = (r, m')"
    using manual_received(1) [OF inv that] ripe that(2) by (auto simp: advancing_inv_def Now_def Recv_def)
qed

interpretation advancing: forward_timing advancing_clock advancing_inv handed_out owed
proof (unfold_locales, goal_cases)
  case (1 m d)
  then have "manual_inv m" by (simp add: advancing_inv_def)
  from manual_moved [OF this] advancing_moved(1) [OF 1] show ?case by (simp add: Advance_def)
next
  case (2 m d i m')
  then have "NewTimer d m = (i, m')" "manual_inv m" by (simp_all add: advancing_inv_def)
  with manual_created [of m d i m'] advancing_operations(1) [OF 2(1)] show ?case by (auto simp: Now_def set_for_def)
next
  case (4 m i b m')
  then have "Stop i m = (b, m')" "manual_inv m" by (simp_all add: advancing_inv_def)
  with manual_stopped [of m i b m'] advancing_operations(2) [OF 4(1)] show ?case by auto
next
  case (5 m i d b m')
  then have "Reset i d m = (b, m')" "manual_inv m" by (simp_all add: advancing_inv_def)
  with manual_reset [of m i d b m'] advancing_operations(3) [OF 5(1)] 5(2) show ?case by (auto simp: Now_def set_for_def)
next
  case (6 m i r m')
  then have "Recv i m = (r, m')" "manual_inv m" by (simp_all add: advancing_inv_def)
  with manual_received [of m i r m'] advancing_operations(4) [OF 6(1)] 6(2) show ?case by (auto split: option.splits)
next
  case (7 m i dl)
  then have "manual_inv m" by (simp add: advancing_inv_def)
  with 7 show ?case by (auto simp: manual_inv_def clock_inv_def owed_def Recv_def Now_def split: if_splits)
next
  case (8 m p)
  show ?case
  proof (cases p)
    case (OpMove d)
    with advancing_moved(2) [OF 8] show ?thesis by (simp add: timing_step_def)
  next
    case (OpNewTimer d)
    with advancing_operations(1) [OF 8, of d] show ?thesis by (cases "NewTimer d m") (simp add: timing_step_def)
  next
    case (OpStop i)
    with advancing_operations(2) [OF 8, of i] show ?thesis by (cases "Stop i m") (simp add: timing_step_def)
  next
    case (OpReset i d)
    with advancing_operations(3) [OF 8, of i d] show ?thesis by (cases "Reset i d m") (simp add: timing_step_def)
  next
    case (OpRecv i)
    with advancing_operations(4) [OF 8, of i] show ?thesis by (cases "Recv i m") (simp add: timing_step_def)
  qed
next
  case (9 m i v m' dl)
  then have "chan_c (cells m i) \<noteq> None" "deadline (cells m i) = dl" by (auto simp: Recv_def owed_def split: if_splits)
  with 9(1) show ?case by (auto simp: advancing_inv_def Now_def)
qed (simp add: After_def)

lemma advancing_reachable: "advancing_inv (fold (timing_step advancing_clock handed_out) ops (NewManual t))"
proof -
  have "advancing_inv (NewManual t)" using manual_inv_New by (simp add: advancing_inv_def) (simp add: NewManual_def)
  then show ?thesis by (rule advancing.machine.inv_run)
qed

section \<open>Properties\<close>

text \<open>
  C35: advancing the clock fires exactly the timers that are due, once, with the new time. In
  every state the clock can reach, after \<open>Advance d\<close> each pending timer whose deadline is not
  after the new time holds the new time in its channel and is no longer pending; every other
  timer is left as it was, still pending in its place if it was pending. No fire is lost to a
  full channel.
\<close>

theorem Advance_fires_due:
  fixes ops t0 d
  defines "m \<equiv> fold clock_step ops (NewManual t0)"
  shows "Now (Advance d m) = Now m + d \<and>
    timers (Advance d m) = filter (\<lambda>i. Now m + d < deadline (cells m i)) (timers m) \<and>
    (\<forall>i. chan_c (cells (Advance d m) i) =
       (if i \<in> set (timers m) \<and> deadline (cells m i) \<le> Now m + d then Some (Now m + d)
        else chan_c (cells m i)))"
proof -
  have "clock_inv m" unfolding m_def using manual_reachable [of ops t0] by (simp add: manual_inv_def)
  then show ?thesis
    by (auto simp: Advance_def Now_def fireDueLocked_effect) (auto simp: clock_inv_def)
qed

text \<open>
  A stopped timer stays silent. If \<open>Stop\<close> reports that the timer was still pending, then
  whatever happens to the clock afterwards, short of a \<open>Reset\<close> of that timer, nothing is ever
  delivered on its channel.
\<close>

theorem stopped_timer_is_silent:
  assumes "Stop i (fold clock_step ops (NewManual t0)) = (True, m)"
    and "\<forall>d. OpReset i d \<notin> set later"
  shows "fst (Recv i (fold clock_step later m)) = None"
proof -
  have "i \<in> set (timers (fold clock_step ops (NewManual t0)))"
    using assms(1) manual_reachable [of ops t0] by (auto simp: manual_inv_def Stop_def removeLocked_effect)
  then have "handed_out (fold clock_step ops (NewManual t0)) i"
    using manual_reachable [of ops t0] by (auto simp: manual_inv_def clock_inv_def handed_out_def)
  from manual.silent_after_stop [OF manual_reachable this] assms show ?thesis by auto
qed

theorem stopped_timer_is_silent_witness:
  "fst (Recv 0 (fold clock_step [OpMove (MoveAdvance 5), OpNewTimer 1, OpMove (MoveSet 100)]
     (snd (Stop 0 (fold clock_step [OpNewTimer 3] (NewManual 0)))))) = None"
  by (rule stopped_timer_is_silent [of 0 "[OpNewTimer 3]" 0])
    (simp_all add: Stop_def removeLocked_def timing_step_def NewTimer_def NewManual_def Let_def set_cell_def)

end
