(* ===== verification/System_Clock.thy ===== *)
theory System_Clock
  imports Manual_Clock
begin

text \<open>
  The production clock (\<open>System\<close> and \<open>systemTimer\<close> of \<open>src/clock/clock.go\<close>, \<open>src/clock/timer.go\<close>),
  which wraps Go's package \<open>time\<close>.

  The state is what the Go runtime keeps: the present, and for every timer made by
  \<open>time.NewTimer\<close> the time it is set for, if it is set. Since Go 1.23 the channel of such a timer
  behaves as unbuffered: a timer that is due fires when its channel is read, with the time it was
  set for, and \<open>Stop\<close> and \<open>Reset\<close> discard a value that was not read and report the timer as
  pending. Time only moves forward. The clock keeps the contract \<open>timing\<close>, like the \<open>Manual\<close> clock
  that stands in for it; the last section states where the two still differ.
\<close>

section \<open>Go's runtime timers\<close>

record go_runtime =
  rt_now :: int
  rt_when :: "nat \<Rightarrow> int option"
  rt_next :: nat

definition time_Now :: "go_runtime \<Rightarrow> int" where
  "time_Now s = rt_now s"

text \<open>\<open>time.NewTimer\<close>: a duration that is not positive is due at once.\<close>

definition time_NewTimer :: "int \<Rightarrow> go_runtime \<Rightarrow> nat \<times> go_runtime" where
  "time_NewTimer d s =
     (rt_next s, s\<lparr>rt_when := (rt_when s)(rt_next s \<mapsto> rt_now s + max 0 d), rt_next := Suc (rt_next s)\<rparr>)"

definition time_Stop :: "nat \<Rightarrow> go_runtime \<Rightarrow> bool \<times> go_runtime" where
  "time_Stop i s = (rt_when s i \<noteq> None, s\<lparr>rt_when := (rt_when s)(i := None)\<rparr>)"

definition time_Reset :: "nat \<Rightarrow> int \<Rightarrow> go_runtime \<Rightarrow> bool \<times> go_runtime" where
  "time_Reset i d s = (rt_when s i \<noteq> None, s\<lparr>rt_when := (rt_when s)(i \<mapsto> rt_now s + max 0 d)\<rparr>)"

definition time_Recv :: "nat \<Rightarrow> go_runtime \<Rightarrow> int option \<times> go_runtime" where
  "time_Recv i s =
     (case rt_when s i of
        None \<Rightarrow> (None, s)
      | Some t \<Rightarrow> if t \<le> rt_now s then (Some t, s\<lparr>rt_when := (rt_when s)(i := None)\<rparr>) else (None, s))"

definition time_passes :: "nat \<Rightarrow> go_runtime \<Rightarrow> go_runtime" where
  "time_passes d s = s\<lparr>rt_now := rt_now s + int d\<rparr>"

section \<open>The clock\<close>

text \<open>\<open>systemTimer\<close> passes every operation on to the timer it holds.\<close>

definition systemTimer_Stop :: "nat \<Rightarrow> go_runtime \<Rightarrow> bool \<times> go_runtime" where
  "systemTimer_Stop t s = time_Stop t s"

definition systemTimer_Reset :: "nat \<Rightarrow> int \<Rightarrow> go_runtime \<Rightarrow> bool \<times> go_runtime" where
  "systemTimer_Reset t d s = time_Reset t d s"

definition systemTimer_C :: "nat \<Rightarrow> nat" where
  "systemTimer_C t = t"

definition System_Now :: "go_runtime \<Rightarrow> int" where
  "System_Now s = time_Now s"

definition System_NewTimer :: "int \<Rightarrow> go_runtime \<Rightarrow> nat \<times> go_runtime" where
  "System_NewTimer d s = time_NewTimer d s"

text \<open>\<open>time.After(d)\<close> is \<open>NewTimer(d).C\<close>.\<close>

definition System_After :: "int \<Rightarrow> go_runtime \<Rightarrow> nat \<times> go_runtime" where
  "System_After d s = time_NewTimer d s"

definition system_clock :: "(go_runtime, nat) Timing" where
  "system_clock =
     \<lparr>clk_Now = System_Now, clk_NewTimer = System_NewTimer, clk_After = System_After, clk_Stop = systemTimer_Stop,
      clk_Reset = systemTimer_Reset, clk_Recv = (\<lambda>t. time_Recv (systemTimer_C t)), clk_Move = time_passes\<rparr>"

lemmas system_clock_defs = system_clock_def System_Now_def System_NewTimer_def System_After_def systemTimer_Stop_def
  systemTimer_Reset_def systemTimer_C_def time_Now_def time_NewTimer_def time_Stop_def time_Reset_def time_Recv_def
  time_passes_def

definition made :: "go_runtime \<Rightarrow> nat \<Rightarrow> bool" where
  "made s i \<longleftrightarrow> i < rt_next s"

definition runtime_inv :: "go_runtime \<Rightarrow> bool" where
  "runtime_inv s \<longleftrightarrow> (\<forall>i. rt_when s i \<noteq> None \<longrightarrow> i < rt_next s)"

definition started :: "int \<Rightarrow> go_runtime" where
  "started t = \<lparr>rt_now = t, rt_when = (\<lambda>_. None), rt_next = 0\<rparr>"

interpretation system: timing system_clock runtime_inv made rt_when
proof (unfold_locales, goal_cases)
  case (1 s m)
  then show ?case by (simp add: system_clock_defs runtime_inv_def made_def fun_eq_iff)
next
  case (2 s d i s')
  then show ?case
    by (auto simp: system_clock_defs runtime_inv_def made_def set_for_def fun_eq_iff less_SucI split: if_splits)
next
  case (4 s i b s')
  then show ?case by (auto simp: system_clock_defs runtime_inv_def made_def fun_eq_iff split: if_splits)
next
  case (5 s i d b s')
  then show ?case
    by (auto simp: system_clock_defs runtime_inv_def made_def set_for_def fun_eq_iff split: if_splits)
next
  case (6 s i r s')
  then show ?case
    by (auto simp: system_clock_defs runtime_inv_def made_def fun_eq_iff split: option.splits if_splits)
next
  case (7 s i dl)
  then show ?case by (simp add: system_clock_defs)
qed (simp add: system_clock_defs)

lemma runtime_inv_started: "runtime_inv (started t)"
  by (simp add: runtime_inv_def started_def)

lemma system_reachable: "runtime_inv (fold (timing_step system_clock made) ops (started t))"
  by (intro system.machine.inv_run runtime_inv_started)

interpretation system: forward_timing system_clock runtime_inv made rt_when
proof (unfold_locales, goal_cases)
  case (1 s p)
  show ?case by (cases p) (simp_all add: timing_step_def system_clock_defs split: option.splits)
next
  case (2 s i v s' dl)
  then show ?case by (auto simp: system_clock_defs split: if_splits)
qed

section \<open>Properties\<close>

text \<open>
  C36: a timer delivers at most one value each time it is armed, on either clock. Along any
  sequence of operations the number of values received from a timer's channel is at most the
  number of times the timer was created or reset.
\<close>

theorem timers_deliver_once_per_arming:
  "along clock_step (delivers manual_clock handed_out i) ops (NewManual t0) \<le>
     along clock_step (arms manual_clock handed_out i) ops (NewManual t0) \<and>
   along (timing_step system_clock made) (delivers system_clock made j) ops' (started t1) \<le>
     along (timing_step system_clock made) (arms system_clock made j) ops' (started t1)"
  using manual.deliveries_bounded [OF manual_inv_New, of i ops t0] system.deliveries_bounded [OF runtime_inv_started, of j ops' t1]
  by (simp_all add: manual.credit_def system.credit_def handed_out_def made_def NewManual_def started_def)

text \<open>
  C37: the clock for tests is not the clock it stands in for when a timer is stopped after it
  fired. A timer is armed for \<open>d\<close>, \<open>d\<close> passes, nobody reads the channel, and it is stopped. The
  \<open>Manual\<close> clock reports that the timer was no longer pending and still delivers the value; the
  timer of Go's \<open>time\<close>, since Go 1.23, reports that it was pending and delivers nothing.
\<close>

theorem stop_after_fire_differs:
  "(case NewTimer (int d) (fold clock_step ops (NewManual t0)) of (i, m) \<Rightarrow>
     case Stop i (Advance (int d) m) of (b, m') \<Rightarrow> \<not> b \<and> fst (Recv i m') \<noteq> None) \<and>
   (case System_NewTimer (int d) (fold (timing_step system_clock made) ops' (started t1)) of (j, s) \<Rightarrow>
     case systemTimer_Stop j (time_passes d s) of (b, s') \<Rightarrow> b \<and> fst (time_Recv j s') = None)"
proof
  let ?m = "fold clock_step ops (NewManual t0)"
  obtain i m where new: "NewTimer (int d) ?m = (i, m)" by fastforce
  from manual_created [OF manual_reachable new] have
    m: "manual_inv m" "owed m i = Some (clock_t ?m + int d)" "clock_t m = clock_t ?m" by simp_all
  have inv: "manual_inv (Advance (int d) m)" "owed (Advance (int d) m) = owed m"
    using manual_moved [OF m(1)] by (simp_all add: Advance_def)
  have "clock_t (Advance (int d) m) = clock_t ?m + int d"
    using m by (simp add: Advance_def fireDueLocked_effect manual_inv_def)
  with inv(2) m(2) have "owed (Advance (int d) m) i = Some (clock_t (Advance (int d) m))" by simp
  with inv(1) have "i \<notin> set (timers (Advance (int d) m))" "chan_c (cells (Advance (int d) m) i) \<noteq> None"
    by (auto simp: manual_inv_def clock_inv_def owed_def split: if_splits)
  with inv(1) new show "case NewTimer (int d) ?m of (i, m) \<Rightarrow>
     case Stop i (Advance (int d) m) of (b, m') \<Rightarrow> \<not> b \<and> fst (Recv i m') \<noteq> None"
    by (auto simp: Stop_def removeLocked_effect manual_inv_def Recv_def)
qed (simp add: system_clock_defs)

end
