(* ===== verification/Token_Pacing.thy ===== *)
theory Token_Pacing
  imports Token_Session System_Clock
begin

text \<open>
  Engine and clock together: the wait between two polls of \<open>confirmOrExpire\<close>
  (\<open>src/token/engine.go\<close>) is the receive from a timer that \<open>e.clk.After(pollInterval)\<close> of
  \<open>src/clock/timer.go\<close> hands out. \<open>Token_Session\<close> lets a poll come at any moment; here it comes when
  its timer fires, for any clock with the interface \<open>Timing\<close>. What follows for the pace of the
  polls is proved for every clock that moves forward (\<open>forward_timing\<close>), and used for the two of
  the package: the system clock and the manual clock as long as it is only advanced.
\<close>

section \<open>Sessions on a clock\<close>

record ('a, 's) paced =
  p_session :: "'a session"
  p_clock :: 's
  p_timer :: "nat option"
  p_polled :: "int list"

text \<open>
  The \<open>select\<close> of the loop: the engine makes a timer for \<open>pollInterval\<close> when it comes to it, waits
  on its channel, and drops it when it leaves the \<open>select\<close> the other way. Everything else is a step
  of the session or of time. \<open>p_polled\<close> notes the times at which the polls began.
\<close>

inductive paced_step :: "('s, 'm) Timing \<Rightarrow> ('a, 's) paced \<Rightarrow> ('a, 's) paced \<Rightarrow> bool" for clk where
  time: "paced_step clk p (p\<lparr>p_clock := clk_Move clk m (p_clock p)\<rparr>)"
| arm: "engine_at (p_session p) = Blocked WaitTick \<Longrightarrow> p_timer p = None \<Longrightarrow>
    clk_After clk pollInterval (p_clock p) = (i, c) \<Longrightarrow> paced_step clk p (p\<lparr>p_timer := Some i, p_clock := c\<rparr>)"
| fire: "engine_at (p_session p) = Blocked WaitTick \<Longrightarrow> p_timer p = Some i \<Longrightarrow>
    clk_Recv clk i (p_clock p) = (Some v, c) \<Longrightarrow> p_session p = s \<Longrightarrow>
    paced_step clk p (p\<lparr>p_session := s\<lparr>s_history := s_history s @ [Tick]\<rparr>, p_timer := None, p_clock := c,
      p_polled := p_polled p @ [clk_Now clk c]\<rparr>)"
| other: "session_step (p_session p) s \<Longrightarrow> s_history s \<noteq> s_history (p_session p) @ [Tick] \<Longrightarrow>
    paced_step clk p (p\<lparr>p_session := s,
      p_timer := (if s_history s = s_history (p_session p) then p_timer p else None)\<rparr>)"

definition on_clock :: "'a session \<Rightarrow> 's \<Rightarrow> ('a, 's) paced" where
  "on_clock s c = \<lparr>p_session = s, p_clock = c, p_timer = None, p_polled = []\<rparr>"

text \<open>A session on a clock is a session: the clock only restricts when polls come.\<close>

lemma paced_session:
  assumes "paced_step clk p p'"
  shows "session_step\<^sup>*\<^sup>* (p_session p) (p_session p')"
  using assms
proof cases
  case (fire i v c s)
  then have "works s (s\<lparr>s_history := s_history s @ [Tick]\<rparr>)" by (auto intro: works.ticks)
  with fire show ?thesis by (auto intro: session_step.drift drifts.work)
qed auto

lemma paced_run: "(paced_step clk)\<^sup>*\<^sup>* p p' \<Longrightarrow> session_step\<^sup>*\<^sup>* (p_session p) (p_session p')"
  by (induction rule: rtranclp_induct) (auto dest: paced_session intro: rtranclp_trans)

text \<open>No step adds more than one event to the history.\<close>

lemma session_history:
  assumes "session_step s s'"
  shows "s_history s' = s_history s \<or> (\<exists>e. s_history s' = s_history s @ [e])"
  using assms
proof cases
  case drift
  then show ?thesis
  proof cases
    case work
    then show ?thesis
      by (cases rule: works.cases) (auto simp: park_def deliver_def split: outcome.splits wait.splits)
  qed auto
qed (auto simp: Token_Session.Advance_def Close_def split: if_splits)

text \<open>Until the first poll the clock has no part.\<close>

lemma unpaced_run:
  "session_step\<^sup>*\<^sup>* s s' \<Longrightarrow> Tick \<notin> set (s_history s') \<Longrightarrow> (paced_step clk)\<^sup>*\<^sup>* (on_clock s c) (on_clock s' c)"
proof (induction rule: rtranclp_induct)
  case (step s1 s2)
  from session_history [OF step(2)] step.prems have "Tick \<notin> set (s_history s1)" "s_history s2 \<noteq> s_history s1 @ [Tick]" by auto
  with paced_step.other [of "on_clock s1 c" s2 clk] step(2) have "paced_step clk (on_clock s1 c) (on_clock s2 c)"
    by (auto simp: on_clock_def split: if_splits)
  with step.IH \<open>Tick \<notin> set (s_history s1)\<close> show ?case by (meson rtranclp.rtrancl_into_rtrancl)
qed simp

section \<open>Time and polls\<close>

text \<open>A list of times with at least an interval between each and the next.\<close>

abbreviation spaced :: "int \<Rightarrow> int list \<Rightarrow> bool" where
  "spaced d \<equiv> successively (\<lambda>t t'. t + d \<le> t')"

lemma spaced_snoc: "spaced d (xs @ [t]) \<longleftrightarrow> spaced d xs \<and> (xs \<noteq> [] \<longrightarrow> last xs + d \<le> t)"
  by (auto simp: successively_append_iff)

text \<open>
  On a clock that only moves forward: the polls so far are an interval apart, and the timer of the
  next one is set an interval after the last.
\<close>

context forward_timing
begin

definition pace_inv :: "int \<Rightarrow> ('a, 's) paced \<Rightarrow> bool" where
  "pace_inv t0 p \<longleftrightarrow> inv (p_clock p) \<and>
     length (p_polled p) = count_list (s_history (p_session p)) Tick \<and>
     spaced pollInterval (t0 # p_polled p) \<and> last (t0 # p_polled p) \<le> clk_Now clk (p_clock p) \<and>
     (\<forall>i. p_timer p = Some i \<longrightarrow> handed (p_clock p) i \<and>
        (\<forall>dl. owes (p_clock p) i = Some dl \<longrightarrow> last (t0 # p_polled p) + pollInterval \<le> dl))"

lemma pace_step:
  assumes "pace_inv t0 p" and "paced_step clk p p'"
  shows "pace_inv t0 p'"
  using assms(2)
proof cases
  case (time m)
  have "inv (p_clock p)" using assms(1) by (simp add: pace_inv_def)
  with moved [OF this, of m] forward [OF this, of "OpMove m"] assms(1) time show ?thesis
    by (auto simp: pace_inv_def timing_step_def)
next
  case (arm i c)
  have inv: "inv (p_clock p)" using assms(1) by (simp add: pace_inv_def)
  from created [OF inv arm(4) [unfolded after_is_timer]] obtain dl where
    "inv c" "handed c i" "clk_Now clk c = clk_Now clk (p_clock p)" "owes c i = Some dl"
    "clk_Now clk (p_clock p) + pollInterval \<le> dl"
    by (auto simp: set_for_def)
  with assms(1) arm(1) show ?thesis by (auto simp: pace_inv_def)
next
  case (fire i v c s)
  have inv: "inv (p_clock p)" and i: "handed (p_clock p) i" using assms(1) fire(3) by (auto simp: pace_inv_def)
  from received [OF inv i fire(4)] obtain dl where dl: "owes (p_clock p) i = Some dl" "inv c" by auto
  have "dl \<le> clk_Now clk c"
    using ripe [OF inv i fire(4) dl(1)] forward [OF inv, of "OpRecv i"] i fire(4) by (simp add: timing_step_def)
  moreover have "last (t0 # p_polled p) + pollInterval \<le> dl" using assms(1) fire(3) dl(1) by (simp add: pace_inv_def)
  ultimately have later: "last (t0 # p_polled p) + pollInterval \<le> clk_Now clk c" by linarith
  have "spaced pollInterval (t0 # p_polled p)" using assms(1) by (simp add: pace_inv_def)
  with later have "spaced pollInterval ((t0 # p_polled p) @ [clk_Now clk c])"
    unfolding spaced_snoc by blast
  with assms(1) fire(1,5) dl(2) show ?thesis by (simp add: pace_inv_def)
next
  case (other s)
  from session_history [OF other(2)] other(1,3) assms(1) show ?thesis
    by (auto simp: pace_inv_def)
qed

lemma pace_run: "(paced_step clk)\<^sup>*\<^sup>* p p' \<Longrightarrow> pace_inv t0 p \<Longrightarrow> pace_inv t0 p'"
  by (induction rule: rtranclp_induct) (auto intro: pace_step)

lemma polls_spaced:
  assumes "(paced_step clk)\<^sup>*\<^sup>* (on_clock s c) p" and "inv c" and "s_history s = []"
  shows "length (p_polled p) = count_list (s_history (p_session p)) Tick \<and>
    spaced pollInterval (clk_Now clk c # p_polled p) \<and> last (clk_Now clk c # p_polled p) \<le> clk_Now clk (p_clock p)"
proof -
  have "pace_inv (clk_Now clk c) (on_clock s c)" using assms(2,3) by (simp add: pace_inv_def on_clock_def)
  from pace_run [OF assms(1) this] show ?thesis unfolding pace_inv_def by blast
qed

end

section \<open>Properties\<close>

text \<open>
  C18: polling keeps its pace. Run a mint session on the system clock, or on the manual clock while
  it is only advanced, from any state of the clock, whatever the host does and whenever deadlines
  pass. It is a run of the session by itself, each turn of its polling loop has its time in
  \<open>p_polled\<close>, the first turn comes at least two seconds after the start of the session, each later
  one at least two seconds after the one before, and none lies in the future.
\<close>

theorem polls_keep_their_pace:
  fixes ops ops' t0 t1
  defines "c \<equiv> fold (timing_step system_clock made) ops (started t0)"
    and "m \<equiv> fold (timing_step advancing_clock handed_out) ops' (NewManual t1)"
  assumes "(paced_step system_clock)\<^sup>*\<^sup>* (on_clock (StartMint k payer wallet spec opts) c) p"
    and "(paced_step advancing_clock)\<^sup>*\<^sup>* (on_clock (StartMint k payer wallet spec opts) m) q"
  shows "session_step\<^sup>*\<^sup>* (StartMint k payer wallet spec opts) (p_session p) \<and>
    length (p_polled p) = count_list (s_history (p_session p)) Tick \<and>
    successively (\<lambda>t t'. t + 2000000000 \<le> t') (System_Now c # p_polled p) \<and>
    last (System_Now c # p_polled p) \<le> System_Now (p_clock p) \<and>
    session_step\<^sup>*\<^sup>* (StartMint k payer wallet spec opts) (p_session q) \<and>
    length (p_polled q) = count_list (s_history (p_session q)) Tick \<and>
    successively (\<lambda>t t'. t + 2000000000 \<le> t') (Now m # p_polled q) \<and> last (Now m # p_polled q) \<le> Now (p_clock q)"
proof -
  have fresh: "s_history (StartMint k payer wallet spec opts) = []"
    by (simp add: StartMint_def launch_def newSession_def split: prod.splits)
  have now: "clk_Now system_clock = System_Now" "pollInterval = 2000000000"
    by (simp_all add: system_clock_def pollInterval_def)
  note system.polls_spaced [OF assms(3) system_reachable [of ops t0, folded c_def] fresh, unfolded now]
    advancing.polls_spaced [OF assms(4) advancing_reachable [of ops' t1, folded m_def] fresh, unfolded advancing_clock_parts now]
  with paced_run [OF assms(3)] paced_run [OF assms(4)] show ?thesis by (simp add: on_clock_def)
qed

text \<open>The sample mint on the system clock: one poll, two seconds after the timer was made.\<close>

lemma sample_waits:
  "mint_lifecycle sample_sdk sample_payer False (sample_mint, [1]) sample_spec sample_state
     (sample_prefix @ answer 0 @ answer 0) = Blocked WaitTick"
proof -
  let ?p = "sample_prefix @ answer 0 @ answer 0" and ?q = "answer 1 @ answer 1"
  obtain d st' where result: "sample_run sample_state (?p @ Tick # ?q) = Result (sample_mint, d, None) st' []"
    using sample_succeeds by (auto simp: sample_rest_def)
  then obtain w where w: "sample_run sample_state ?p = Blocked w"
    using replay_at_used [OF replayable.reads [OF replayable_Mint] result] by (metis append_Nil2 list.distinct(1))
  with replayable.next_possible [OF replayable_Mint w, of Tick ?q] result have "w = WaitTick"
    by (cases w) (auto simp: possible_def)
  with w show ?thesis unfolding mint_lifecycle_def by (simp add: andThen_Blocked)
qed

theorem polls_keep_their_pace_witness:
  "\<exists>p. (paced_step system_clock)\<^sup>*\<^sup>* (on_clock sample_session (started 0)) p \<and> p_polled p = [2000000000] \<and>
     count_list (s_history (p_session p)) Tick = 1 \<and> successively (\<lambda>t t'. t + 2000000000 \<le> t') (0 # p_polled p)"
proof -
  let ?es = "sample_prefix @ answer 0 @ answer 0"
  have no_tick: "Tick \<notin> set ?es" "CtxDone \<notin> set ?es" by (simp_all add: sample_prefix_def answer_def)
  obtain s where s: "session_step\<^sup>*\<^sup>* sample_session s" "s_history s = ?es"
    using mint_session.every_run_drivable [of sample_sdk sample_payer False "(sample_mint, [1])" sample_spec sample_state,
        OF _ no_tick(2)] sample_waits sample_session_parts(5)
    by (auto simp: settled_def mint_session.on_course_def sample_session_def StartMint_def)
  with StartMint_reachable [OF s(1) [unfolded sample_session_def] sample_session_parts(5)] sample_waits
  have waiting: "engine_at s = Blocked WaitTick" by simp
  let ?c1 = "snd (System_After pollInterval (started 0))"
  let ?c2 = "time_passes 2000000000 ?c1"
  let ?p1 = "(on_clock s (started 0))\<lparr>p_timer := Some 0, p_clock := ?c1\<rparr>" and ?c3 = "snd (time_Recv 0 ?c2)"
  let ?p2 = "?p1\<lparr>p_clock := ?c2\<rparr>"
  let ?p3 = "?p2\<lparr>p_session := s\<lparr>s_history := ?es @ [Tick]\<rparr>, p_timer := None, p_clock := ?c3, p_polled := [2000000000]\<rparr>"
  have "(paced_step system_clock)\<^sup>*\<^sup>* (on_clock sample_session (started 0)) (on_clock s (started 0))"
    using unpaced_run [OF s(1)] no_tick(1) s(2) by simp
  moreover have "paced_step system_clock (on_clock s (started 0)) ?p1"
    using waiting by (intro paced_step.arm) (simp_all add: on_clock_def system_clock_defs started_def)
  moreover have "paced_step system_clock ?p1 ?p2"
    using paced_step.time [of system_clock ?p1 2000000000] by (simp add: system_clock_def)
  moreover have "paced_step system_clock ?p2 ?p3"
    using waiting paced_step.fire [of ?p2 0 system_clock 2000000000 ?c3 s] s(2)
    by (simp add: on_clock_def system_clock_defs started_def pollInterval_def)
  ultimately have run: "(paced_step system_clock)\<^sup>*\<^sup>* (on_clock sample_session (started 0)) ?p3"
    by (meson rtranclp.rtrancl_into_rtrancl)
  have idle: "(paced_step advancing_clock)\<^sup>*\<^sup>* (on_clock sample_session (NewManual 0)) (on_clock sample_session (NewManual 0))"
    by blast
  from polls_keep_their_pace [of sample_sdk sample_payer "(sample_mint, [1])" sample_spec "[]" "[]" 0 ?p3 "[]" 0]
    run idle have "length (p_polled ?p3) = count_list (s_history (p_session ?p3)) Tick \<and>
      successively (\<lambda>t t'. t + 2000000000 \<le> t') (System_Now (started 0) # p_polled ?p3)"
    unfolding sample_session_def fold_simps by blast
  with run show ?thesis by (intro exI [of _ ?p3]) (simp add: system_clock_defs started_def)
qed

end
