(* ===== verification/Token_Deadlines.thy ===== *)
theory Token_Deadlines
  imports Token_Session
begin

text \<open>
  The deadlines of \<open>Mint\<close> (\<open>lifecycleBudget\<close> and \<open>cleanupBudget\<close> in \<open>src/token/engine.go\<close>, the two
  calls of \<open>context.WithTimeout\<close> in \<open>src/token/mint.go\<close>). \<open>Token_Session\<close> lets a deadline pass at any
  moment; here it passes when the time has come, and \<open>mint_answers_in_time\<close> draws the conclusion for a host that
  answers within the shorter budget.

  The engine takes no time between its waits. So the context of the submission is made at the
  moment the engine comes to its first wait under it, and so is that of the last look.
\<close>

section \<open>Sessions with deadlines\<close>

text \<open>In nanoseconds.\<close>

definition lifecycleBudget :: int where
  "lifecycleBudget = 5 * 60 * 1000000000"

definition cleanupBudget :: int where
  "cleanupBudget = 3 * 60 * 1000000000"

record 'a timed =
  t_session :: "'a session"
  t_now :: int
  t_op :: "int option"
  t_check :: "int option"

definition waits_under :: "go_ctx \<Rightarrow> 'a session \<Rightarrow> bool" where
  "waits_under cx s \<longleftrightarrow> (case engine_at s of Blocked w \<Rightarrow> wait_ctx w = cx | _ \<Rightarrow> False)"

text \<open>\<open>context.WithTimeout\<close>: a deadline is set once.\<close>

definition WithTimeout :: "int \<Rightarrow> int \<Rightarrow> bool \<Rightarrow> int option \<Rightarrow> int option" where
  "WithTimeout budget now made dl = (if dl = None \<and> made then Some (now + budget) else dl)"

definition set_deadlines :: "'a timed \<Rightarrow> 'a timed" where
  "set_deadlines t =
     t\<lparr>t_op := WithTimeout lifecycleBudget (t_now t) (waits_under OpCtx (t_session t)) (t_op t),
       t_check := WithTimeout cleanupBudget (t_now t) (waits_under CheckCtx (t_session t)) (t_check t)\<rparr>"

definition timed_start :: "'a session \<Rightarrow> int \<Rightarrow> 'a timed" where
  "timed_start s now = set_deadlines \<lparr>t_session = s, t_now = now, t_op = None, t_check = None\<rparr>"

definition passed :: "int option \<Rightarrow> int \<Rightarrow> bool" where
  "passed dl now \<longleftrightarrow> (case dl of None \<Rightarrow> False | Some d \<Rightarrow> d \<le> now)"

text \<open>
  Time goes by, or the session takes a step. A deadline passes when its time has come, and the
  driver does not close the session (\<open>cancel\<close> is called when the session is done).
\<close>

inductive timed_step :: "'a timed \<Rightarrow> 'a timed \<Rightarrow> bool" where
  time: "0 \<le> d \<Longrightarrow> timed_step t (t\<lparr>t_now := t_now t + d\<rparr>)"
| step: "session_step (t_session t) s \<Longrightarrow>
    (s_op_expired s \<Longrightarrow> s_op_expired (t_session t) \<or> passed (t_op t) (t_now t)) \<Longrightarrow>
    (s_check_expired s \<Longrightarrow> s_check_expired (t_session t) \<or> passed (t_check t) (t_now t)) \<Longrightarrow>
    (s_cancelled s \<Longrightarrow> s_cancelled (t_session t) \<or> s_outcome s \<noteq> None) \<Longrightarrow>
    timed_step t (set_deadlines (t\<lparr>t_session := s\<rparr>))"

text \<open>Deadlines only restrict when a context may end.\<close>

lemma timed_session: "timed_step\<^sup>*\<^sup>* t t' \<Longrightarrow> session_step\<^sup>*\<^sup>* (t_session t) (t_session t')"
proof (induction rule: rtranclp_induct)
  case (step t1 t2)
  from step.hyps(2) have "session_step\<^sup>*\<^sup>* (t_session t1) (t_session t2)"
    by cases (auto simp: set_deadlines_def)
  with step.IH show ?case by (meson rtranclp_trans)
qed simp

section \<open>No context ends early\<close>

definition time_inv :: "int \<Rightarrow> 'a timed \<Rightarrow> bool" where
  "time_inv t0 t \<longleftrightarrow> t0 \<le> t_now t \<and>
     (\<forall>dl. t_op t = Some dl \<longrightarrow> t0 + lifecycleBudget \<le> dl) \<and>
     (\<forall>dl. t_check t = Some dl \<longrightarrow> t0 + cleanupBudget \<le> dl) \<and>
     (s_op_expired (t_session t) \<longrightarrow> t0 + lifecycleBudget \<le> t_now t) \<and>
     (s_check_expired (t_session t) \<longrightarrow> t0 + cleanupBudget \<le> t_now t) \<and>
     (s_cancelled (t_session t) \<longrightarrow> s_outcome (t_session t) \<noteq> None) \<and>
     (CtxDone \<in> set (s_history (t_session t)) \<longrightarrow> t0 + cleanupBudget \<le> t_now t)"

lemma time_inv_deadlines: "time_inv t0 t \<Longrightarrow> time_inv t0 (set_deadlines t)"
  by (auto simp: time_inv_def set_deadlines_def WithTimeout_def split: if_splits)

lemma time_inv_start:
  assumes "\<not> s_op_expired s" "\<not> s_check_expired s" "\<not> s_cancelled s" "s_history s = []"
  shows "time_inv t0 (timed_start s t0)"
  unfolding timed_start_def by (rule time_inv_deadlines) (simp add: time_inv_def assms)

text \<open>An outcome stays.\<close>

lemma outcome_stays:
  assumes "session_inv s" and "s_outcome s \<noteq> None" and "session_step s s'"
  shows "s_outcome s' \<noteq> None"
  using assms(3)
proof cases
  case drift
  then show ?thesis
  proof cases
    case work
    then show ?thesis using assms(1,2) by cases (auto simp: session_inv_def)
  qed (use assms in simp_all)
qed (use assms in \<open>auto simp: Advance_def Close_def split: if_splits\<close>)

lemma history_step:
  assumes "session_step s s'" and "CtxDone \<in> set (s_history s')"
  shows "CtxDone \<in> set (s_history s) \<or> (\<exists>w. engine_at s = Blocked w \<and> over s (wait_ctx w))"
  using assms(1)
proof cases
  case drift
  then show ?thesis
  proof cases
    case work
    then show ?thesis
      using assms(2) by (cases rule: works.cases) (auto simp: park_def deliver_def split: outcome.splits wait.splits)
  qed (use assms in auto)
qed (use assms in \<open>auto simp: Advance_def Close_def split: if_splits\<close>)

lemma time_inv_step:
  assumes "time_inv t0 t" and "session_inv (t_session t)" and "timed_step t t'"
  shows "time_inv t0 t'"
  using assms(3)
proof cases
  case (time d)
  with assms(1) show ?thesis by (auto simp: time_inv_def)
next
  case (step s)
  have budgets: "cleanupBudget \<le> lifecycleBudget" by (simp add: cleanupBudget_def lifecycleBudget_def)
  have expired: "t0 + lifecycleBudget \<le> t_now t" if "s_op_expired s"
    using step(3) [OF that] assms(1) by (auto simp: time_inv_def passed_def split: option.splits)
  have "t0 + cleanupBudget \<le> t_now t" if "s_check_expired s"
    using step(4) [OF that] assms(1) by (auto simp: time_inv_def passed_def split: option.splits)
  moreover have "s_outcome s \<noteq> None" if "s_cancelled s"
    using step(5) [OF that] outcome_stays [OF assms(2) _ step(2)] assms(1) by (auto simp: time_inv_def)
  moreover have "t0 + cleanupBudget \<le> t_now t" if "CtxDone \<in> set (s_history s)"
    using history_step [OF step(2) that]
  proof
    assume "\<exists>w. engine_at (t_session t) = Blocked w \<and> over (t_session t) (wait_ctx w)"
    then obtain w where w: "engine_at (t_session t) = Blocked w" "over (t_session t) (wait_ctx w)" by blast
    from w(1) have "\<not> s_cancelled (t_session t)" using assms(1,2) by (auto simp: time_inv_def session_inv_def)
    with w(2) show ?thesis
      using assms(1) budgets by (cases "wait_ctx w") (auto simp: over_def time_inv_def)
  qed (use assms(1) in \<open>simp add: time_inv_def\<close>)
  ultimately have "time_inv t0 (t\<lparr>t_session := s\<rparr>)" using assms(1) expired by (simp add: time_inv_def)
  with step(1) time_inv_deadlines show ?thesis by blast
qed

lemma time_inv_run:
  assumes "timed_step\<^sup>*\<^sup>* (timed_start (StartMint k payer wallet spec opts) t0) t"
  shows "time_inv t0 t \<and> session_step\<^sup>*\<^sup>* (StartMint k payer wallet spec opts) (t_session t)"
  using assms
proof (induction rule: rtranclp_induct)
  case base
  have "time_inv t0 (timed_start (StartMint k payer wallet spec opts) t0)"
    by (rule time_inv_start) (simp_all add: StartMint_def launch_def newSession_def split: prod.splits)
  then show ?case by (simp add: timed_start_def set_deadlines_def)
next
  case (step t1 t2)
  obtain e pinned where "NewEngine (engine_options opts) = (e, pinned)" by fastforce
  with step.IH StartMint_reachable have "session_inv (t_session t1)" by blast
  with step.IH time_inv_step [OF _ _ step.hyps(2)] have "time_inv t0 t2" by blast
  moreover have "session_step\<^sup>*\<^sup>* (t_session t1) (t_session t2)" using step.hyps(2) by (blast intro: timed_session)
  with step.IH have "session_step\<^sup>*\<^sup>* (StartMint k payer wallet spec opts) (t_session t2)" by (meson rtranclp_trans)
  ultimately show ?case by blast
qed

section \<open>Properties\<close>

text \<open>
  C13: for three minutes a mint answers its host. As long as less than \<open>cleanupBudget\<close> has gone by
  since a mint session was started and its driver has not closed it, whatever the host answers and
  however time goes by, no context has ended: the session shows the call the engine waits on, a
  reply is received, and the driver's calls return after at most three steps. The request bodies
  are assumed to be encodable.
\<close>

theorem mint_answers_in_time:
  assumes "timed_step\<^sup>*\<^sup>* (timed_start (StartMint k payer wallet spec opts) t0) t"
    and "t_now t < t0 + 180 * 10 ^ 9" and "encodes (sdk_rpc k)"
  shows "CtxDone \<notin> set (s_history (t_session t)) \<and>
    (\<forall>c. Pending (t_session t) = Some c \<longrightarrow> (\<exists>cx. engine_at (t_session t) = Blocked (WaitReply c cx)) \<and>
      (\<forall>r. \<exists>s1 s2. Advance r (t_session t) = Inr s1 \<and> deliver r s1 = Some s2)) \<and>
    (s_driver (t_session t) \<noteq> Idle \<longrightarrow> (\<exists>s'. works (t_session t) s')) \<and>
    (\<forall>n s'. (works ^^ n) (t_session t) s' \<longrightarrow> n \<le> 3)"
proof -
  let ?s = "t_session t"
  from time_inv_run [OF assms(1)] assms(2) have reach: "session_step\<^sup>*\<^sup>* (StartMint k payer wallet spec opts) ?s"
    and fresh: "CtxDone \<notin> set (s_history ?s)" by (auto simp: time_inv_def cleanupBudget_def)
  obtain e pinned where "NewEngine (engine_options opts) = (e, pinned)" by fastforce
  from StartMint_reachable [OF reach this] have
    s: "s_run ?s = mint_lifecycle k payer pinned wallet spec e" "session_inv ?s" by simp_all
  have "prompt_lifecycle (mint_lifecycle k payer pinned wallet spec e)" using assms(3) by (intro prompt_of lifecycles)
  note bound = prompt_lifecycle.advance_bound [OF this s fresh] and progress = mint_session.progress [OF s fresh]
  have "(\<exists>cx. engine_at ?s = Blocked (WaitReply c cx)) \<and> (\<forall>r. \<exists>s1 s2. Advance r ?s = Inr s1 \<and> deliver r s1 = Some s2)"
    if "Pending ?s = Some c" for c
  proof -
    from that s(2) fresh obtain cx where w: "engine_at ?s = Blocked (WaitReply c cx)" by (auto simp: session_inv_def Pending_def)
    moreover have "s_outcome ?s = None" using that s(2) by (auto simp: session_inv_def Pending_def)
    with that have "Advance r ?s = Inr (?s\<lparr>s_pending := None, s_driver := Sending r\<rparr>)" for r
      by (simp add: Advance_def Pending_def)
    ultimately show ?thesis by (simp add: deliver_def)
  qed
  with bound progress fresh show ?thesis by blast
qed

text \<open>The sample mint, whose first call is pending a minute after the start.\<close>

theorem mint_answers_in_time_witness:
  "\<exists>t. timed_step\<^sup>*\<^sup>* (timed_start sample_session 0) t \<and> t_now t = 60 * 10 ^ 9 \<and> Pending (t_session t) = Some sample_call_body \<and>
     (\<exists>cx. engine_at (t_session t) = Blocked (WaitReply sample_call_body cx)) \<and>
     (\<forall>r. \<exists>s1 s2. Advance r (t_session t) = Inr s1 \<and> deliver r s1 = Some s2)"
proof -
  let ?t0 = "timed_start sample_session 0"
  let ?t1 = "set_deadlines (?t0\<lparr>t_session := sample_parked\<rparr>)"
  let ?t2 = "?t1\<lparr>t_now := t_now ?t1 + 60 * 10 ^ 9\<rparr>"
  have s: "t_session ?t0 = sample_session" "t_session ?t1 = sample_parked" "t_session ?t2 = sample_parked" "t_now ?t1 = 0"
    by (simp_all add: timed_start_def set_deadlines_def)
  have flags: "\<not> s_op_expired sample_parked" "\<not> s_check_expired sample_parked" "\<not> s_cancelled sample_parked"
    by (simp_all add: sample_parked_def sample_session_def StartMint_def launch_def newSession_def split: prod.splits)
  have "session_step sample_session sample_parked" using sample_works by (blast intro: session_step.drift drifts.work)
  with flags have "timed_step ?t0 ?t1" by (intro timed_step.step) (simp_all add: s)
  moreover have "timed_step ?t1 ?t2" by (rule timed_step.time) simp
  ultimately have run: "timed_step\<^sup>*\<^sup>* ?t0 ?t2" by (meson converse_rtranclp_into_rtranclp rtranclp.rtrancl_refl)
  have p: "Pending (t_session ?t2) = Some sample_call_body" unfolding s(3) by (simp add: Pending_def sample_parked_def)
  have "t_now ?t2 < 0 + 180 * 10 ^ 9" "encodes (sdk_rpc sample_sdk)" by (simp_all add: s encodes_def sample_sdk_def)
  with mint_answers_in_time [OF run [unfolded sample_session_def], folded sample_session_def] p
  have "(\<exists>cx. engine_at (t_session ?t2) = Blocked (WaitReply sample_call_body cx)) \<and>
     (\<forall>r. \<exists>s1 s2. Advance r (t_session ?t2) = Inr s1 \<and> deliver r s1 = Some s2)" by blast
  moreover have "t_now ?t2 = 60 * 10 ^ 9" by (simp add: s)
  ultimately show ?thesis using run p by blast
qed

end
