(* ===== verification/Session_Close.thy ===== *)
theory Session_Close
  imports Token_Session
begin

text \<open>
  What becomes of a session its driver closes (\<open>Close\<close> in \<open>src/token/session.go\<close>): the context is
  cancelled, and nobody answers the engine any more. An action \<open>winds_up\<close> when from its start,
  and \<open>winds_off\<close> when from any wait that watches a context, it comes to its end by contexts that
  end, whatever ticks come in between. Both come with rules for \<open>return\<close>, \<open>andThen\<close>, case
  distinctions and loops, and carry what is known of the result, since an engine whose blockhash
  did not come must not go on to ask for a signature. The signature itself is the one wait
  without a context.
\<close>

section \<open>Winding up\<close>

definition quiet :: "event list \<Rightarrow> bool" where
  "quiet es \<longleftrightarrow> (\<forall>e \<in> set es. e = CtxDone \<or> e = Tick)"

lemma quiet_simps [simp]:
  "quiet []" "quiet (e # es) \<longleftrightarrow> (e = CtxDone \<or> e = Tick) \<and> quiet es"
  "quiet (es @ es') \<longleftrightarrow> quiet es \<and> quiet es'" "quiet (replicate n CtxDone)"
  by (auto simp: quiet_def)

definition can_end :: "('a \<Rightarrow> bool) \<Rightarrow> ('a, 's) action \<Rightarrow> 's \<Rightarrow> event list \<Rightarrow> bool" where
  "can_end P m st es \<longleftrightarrow>
     (case m st es of
        Blocked w \<Rightarrow> wait_ctx w \<noteq> NoCtx \<and> (\<exists>n x st'. m st (es @ replicate n CtxDone) = Result x st' [] \<and> P x)
      | Result x st' r \<Rightarrow> P x
      | Impossible \<Rightarrow> True)"

definition winds_up :: "('a \<Rightarrow> bool) \<Rightarrow> ('a, 's) action \<Rightarrow> bool" where
  "winds_up P m \<longleftrightarrow> (\<forall>st ds. m st [] \<noteq> Impossible \<and> (quiet ds \<longrightarrow> can_end P m st ds))"

definition winds_off :: "('a \<Rightarrow> bool) \<Rightarrow> ('a, 's) action \<Rightarrow> bool" where
  "winds_off P m \<longleftrightarrow>
     (\<forall>st es w ds. m st es = Blocked w \<longrightarrow> wait_ctx w \<noteq> NoCtx \<longrightarrow> quiet ds \<longrightarrow> can_end P m st (es @ ds))"

lemma winds_upD: "winds_up P m \<Longrightarrow> quiet ds \<Longrightarrow> can_end P m st ds"
  by (simp add: winds_up_def)

lemma winds_offD: "winds_off P m \<Longrightarrow> m st es = Blocked w \<Longrightarrow> wait_ctx w \<noteq> NoCtx \<Longrightarrow> quiet ds \<Longrightarrow> can_end P m st (es @ ds)"
  by (auto simp: winds_off_def)

definition ends :: "('a \<Rightarrow> bool) \<Rightarrow> ('a, 's) action \<Rightarrow> 's \<Rightarrow> bool" where
  "ends P m st \<longleftrightarrow> (\<exists>n x st'. m st (replicate n CtxDone) = Result x st' [] \<and> P x)"

lemma winds_up_ends:
  assumes "winds_up P m" and "replayable m"
  shows "ends P m st"
proof (cases "m st []")
  case (Blocked w)
  with winds_upD [OF assms(1), of "[]" st] show ?thesis by (auto simp: can_end_def ends_def)
next
  case (Result x st' r)
  moreover from this have "r = []" using replayable.rest_suffix [OF assms(2)] by blast
  ultimately show ?thesis using winds_upD [OF assms(1), of "[]" st] by (auto simp: can_end_def ends_def intro: exI [of _ 0])
qed (use assms(1) in \<open>simp add: winds_up_def\<close>)

lemma winds_return [intro]: "P x \<Longrightarrow> winds_up P (return x)" "winds_off P (return x)"
  by (simp_all add: winds_up_def winds_off_def can_end_def return_def)

lemma winds_weaken:
  assumes "\<And>x. P x \<Longrightarrow> Q x"
  shows "winds_up P m \<Longrightarrow> winds_up Q m" "winds_off P m \<Longrightarrow> winds_off Q m"
proof -
  have "can_end P m st es \<Longrightarrow> can_end Q m st es" for st es
    using assms by (auto simp: can_end_def split: outcome.splits)
  then show "winds_up P m \<Longrightarrow> winds_up Q m" "winds_off P m \<Longrightarrow> winds_off Q m"
    by (auto simp: winds_up_def winds_off_def)
qed

lemma winds_up_cases [intro]:
  "winds_up P m1 \<Longrightarrow> winds_up P m2 \<Longrightarrow> winds_up P (if b then m1 else m2)"
  "(\<And>x. winds_up P (f x)) \<Longrightarrow> (\<And>y. winds_up P (g y)) \<Longrightarrow> winds_up P (case s of Inl x \<Rightarrow> f x | Inr y \<Rightarrow> g y)"
  by (simp_all split: sum.splits)

lemma winds_off_cases [intro]:
  "winds_off P m1 \<Longrightarrow> winds_off P m2 \<Longrightarrow> winds_off P (if b then m1 else m2)"
  "(\<And>x. winds_off P (f x)) \<Longrightarrow> (\<And>y. winds_off P (g y)) \<Longrightarrow> winds_off P (case s of Inl x \<Rightarrow> f x | Inr y \<Rightarrow> g y)"
  "winds_off P m0 \<Longrightarrow> (\<And>x. winds_off P (h x)) \<Longrightarrow> winds_off P (case v of None \<Rightarrow> m0 | Some x \<Rightarrow> h x)"
  by (simp_all split: sum.splits option.splits)

text \<open>One action after another: the second starts where the first has ended.\<close>

lemma can_end_later:
  assumes "\<And>v. m st (es @ v) = m' st' (es' @ v)" and "can_end P m' st' es'"
  shows "can_end P m st es"
  using assms(2) assms(1) [of "[]"] assms(1) by (simp add: can_end_def split: outcome.splits)

lemma can_end_andThen:
  assumes m: "replayable m" "can_end P m st es"
    and f: "\<And>x st'. P x \<Longrightarrow> ends Q (f x) st'"
    and late: "\<And>x st' r. m st es = Result x st' r \<Longrightarrow> can_end Q (f x) st' r"
  shows "can_end Q (andThen m f) st es"
proof (cases "m st es")
  case (Blocked w)
  with m(2) obtain n x st' where w: "wait_ctx w \<noteq> NoCtx" and r: "m st (es @ replicate n CtxDone) = Result x st' []" "P x"
    by (auto simp: can_end_def)
  obtain n' y st'' where "f x st' (replicate n' CtxDone) = Result y st'' []" "Q y"
    using f [OF r(2), of st'] by (auto simp: ends_def)
  moreover have "m st (es @ replicate (n + n') CtxDone) = Result x st' (replicate n' CtxDone)"
    using replayable.more_events [OF m(1) r(1), of "replicate n' CtxDone"] by (simp add: replicate_add)
  ultimately have "andThen m f st (es @ replicate (n + n') CtxDone) = Result y st'' [] \<and> Q y"
    by (simp add: andThen_Result)
  with Blocked w show ?thesis by (auto simp: can_end_def andThen_def [of m f st es])
next
  case (Result x st' r)
  have more: "andThen m f st (es @ v) = f x st' (r @ v)" for v
    using replayable.more_events [OF m(1) Result, of v] by (simp add: andThen_def)
  show ?thesis by (rule can_end_later, rule more, rule late [OF Result])
qed (simp add: can_end_def andThen_def)

lemma winds_up_andThen [intro]:
  assumes m: "replayable m" "winds_up P m" and f: "\<And>x. P x \<Longrightarrow> winds_up Q (f x)" "\<And>x. replayable (f x)"
  shows "winds_up Q (andThen m f)"
  unfolding winds_up_def
proof (intro allI conjI impI)
  fix st ds
  have r: "P x \<and> (\<exists>u. ds = u @ r)" if "m st ds = Result x st' r" "quiet ds" for ds x st' r
    using winds_upD [OF m(2) that(2), of st] that(1) replayable.rest_suffix [OF m(1) that(1)] by (auto simp: can_end_def)
  have "m st [] \<noteq> Impossible" using m(2) by (simp add: winds_up_def)
  then show "andThen m f st [] \<noteq> Impossible"
    using r [of "[]"] f(1) by (auto simp: andThen_def winds_up_def split: outcome.splits)
  assume q: "quiet ds"
  show "can_end Q (andThen m f) st ds"
  proof (rule can_end_andThen [OF m(1) winds_upD [OF m(2) q] winds_up_ends [OF f]])
    show "can_end Q (f x) st' r" if "m st ds = Result x st' r" for x st' r
      using r [OF that q] q f(1) [of x] winds_upD [of Q "f x" r st'] by auto
  qed
qed

text \<open>What an action has left of its events when it was still waiting for a part of them.\<close>

lemma rest_after_wait:
  assumes m: "replayable m" and waits: "m st es = Blocked w" and result: "m st (es @ ds) = Result x st' r"
  obtains v where "ds = v @ r"
proof (rule replay_at_used [OF replayable.reads [OF m] result])
  fix u
  assume u: "es @ ds = u @ r" "\<And>v. m st (u @ v) = Result x st' v"
  from u(1) [symmetric] show thesis
  proof (cases rule: append_split_cases)
    case (within q')
    with u(2) [of q'] waits show thesis by simp
  next
    case (past p')
    show thesis by (rule that [OF past(2)])
  qed
qed

lemma winds_off_andThen [intro]:
  assumes m: "replayable m" "winds_off P m"
    and f: "\<And>x. P x \<Longrightarrow> winds_up Q (f x)" "\<And>x. replayable (f x)" "\<And>x. winds_off Q (f x)"
  shows "winds_off Q (andThen m f)"
  unfolding winds_off_def
proof (intro allI impI)
  fix st es w ds
  assume "andThen m f st es = Blocked w" and w: "wait_ctx w \<noteq> NoCtx" and q: "quiet ds"
  then consider "m st es = Blocked w" | x st' r where "m st es = Result x st' r" "f x st' r = Blocked w"
    by (auto simp: andThen_Blocked)
  then show "can_end Q (andThen m f) st (es @ ds)"
  proof cases
    case 1
    note ends = winds_offD [OF m(2) 1 w q]
    show ?thesis
    proof (rule can_end_andThen [OF m(1) ends winds_up_ends [OF f(1,2)]])
      fix x st' r
      assume result: "m st (es @ ds) = Result x st' r"
      obtain v where "ds = v @ r" by (rule rest_after_wait [OF m(1) 1 result])
      with q have "quiet r" by simp
      moreover have "P x" using ends result by (simp add: can_end_def)
      ultimately show "can_end Q (f x) st' r" by (intro winds_upD f(1))
    qed
  next
    case 2
    have "andThen m f st ((es @ ds) @ v) = f x st' ((r @ ds) @ v)" for v
      using replayable.more_events [OF m(1) 2(1), of "ds @ v"] by (simp add: andThen_def)
    then show ?thesis by (rule can_end_later) (rule winds_offD [OF f(3) 2(2) w q])
  qed
qed

text \<open>
  A loop, when its body winds up and, at the wait it starts with, stops once its context has
  ended.
\<close>

text \<open>A loop: one turn, then the rest; a context that ends stops it at the start of a turn.\<close>

lemma can_end_round:
  assumes loop: "goes_round body loop" and body: "replayable body"
    and stops: "\<And>st. \<exists>x st'. loop st [CtxDone] = Result x st' []"
    and turn: "can_end P body st es" "\<And>st' r. body st es = Result None st' r \<Longrightarrow> can_end (\<lambda>_. True) loop st' r"
  shows "can_end (\<lambda>_. True) loop st es"
proof -
  let ?k = "\<lambda>r. case r of Some x \<Rightarrow> return x | None \<Rightarrow> loop"
  have go_on: "ends (\<lambda>_. True) (?k r) st" for r st
    using stops [of st] by (cases r) (auto simp: ends_def return_def intro: exI [of _ 0] exI [of _ 1])
  have "can_end (\<lambda>_. True) (andThen body ?k) st es"
    by (rule can_end_andThen [OF body turn(1) go_on])
      (use turn(2) in \<open>auto simp: can_end_def return_def split: option.splits\<close>)
  moreover have "loop st (es @ v) = andThen body ?k st (es @ v)" for v using loop by (metis goes_round_def)
  ultimately show ?thesis by (blast intro: can_end_later)
qed

lemma can_end_loop:
  assumes loop: "goes_round body loop" and body: "replayable body" "winds_up P body"
    and stops: "\<And>st. \<exists>x st'. loop st [CtxDone] = Result x st' []" and "quiet ds"
  shows "can_end (\<lambda>_. True) loop st ds"
  using assms(5)
proof (induction "length ds" arbitrary: st ds rule: less_induct)
  case less
  show ?case
  proof (rule can_end_round [OF loop body(1) stops winds_upD [OF body(2) less.prems]])
    fix st' r
    assume r: "body st ds = Result None st' r"
    with replayable.rest_suffix [OF body(1)] less.prems have "quiet r" by fastforce
    moreover from r loop have "length r < length ds" by (auto simp: goes_round_def)
    ultimately show "can_end (\<lambda>_. True) loop st' r" using less.hyps by blast
  qed
qed

lemma can_end_loop_off:
  assumes loop: "goes_round body loop" and body: "replayable body" "winds_up P body" "winds_off P body"
    and stops: "\<And>st. \<exists>x st'. loop st [CtxDone] = Result x st' []"
    and "loop st es = Blocked w" "wait_ctx w \<noteq> NoCtx" "quiet ds"
  shows "can_end (\<lambda>_. True) loop st (es @ ds)"
  using assms(6)
proof (induction "length es" arbitrary: st es rule: less_induct)
  case less
  let ?k = "\<lambda>r. case r of Some x \<Rightarrow> return x | None \<Rightarrow> loop"
  have unroll: "loop st es = andThen body ?k st es" for st es using loop by (metis goes_round_def)
  from less.prems consider "body st es = Blocked w" | x st' r where "body st es = Result x st' r" "?k x st' r = Blocked w"
    by (auto simp: unroll [of st es] andThen_Blocked)
  then show ?case
  proof cases
    case 1
    show ?thesis
    proof (rule can_end_round [OF loop body(1) stops winds_offD [OF body(3) 1 assms(7,8)]])
      fix st' r
      assume r: "body st (es @ ds) = Result None st' r"
      obtain v where "ds = v @ r" by (rule rest_after_wait [OF body(1) 1 r])
      with assms(8) can_end_loop [OF loop body(1,2) stops] show "can_end (\<lambda>_. True) loop st' r" by simp
    qed
  next
    case 2
    then have r: "x = None" "loop st' r = Blocked w" by (auto simp: return_def split: option.splits)
    have "loop st ((es @ ds) @ v) = loop st' ((r @ ds) @ v)" for v
      using replayable.more_events [OF body(1) 2(1), of "ds @ v"] r(1)
      by (simp add: unroll [of st "es @ ds @ v"] andThen_def)
    moreover have "length r < length es" using loop 2(1) by (auto simp: goes_round_def)
    from less.hyps [OF this r(2)] have "can_end (\<lambda>_. True) loop st' (r @ ds)" .
    ultimately show ?thesis by (rule can_end_later)
  qed
qed

lemma winds_loop:
  assumes loop: "goes_round body loop" and body: "replayable body" "winds_up P body" "winds_off P body"
    and stops: "\<And>st. \<exists>w x st'. body st [] = Blocked w \<and> wait_ctx w \<noteq> NoCtx \<and> body st [CtxDone] = Result (Some x) st' []"
  shows "winds_up (\<lambda>_. True) loop" "winds_off (\<lambda>_. True) loop"
proof -
  let ?k = "\<lambda>r. case r of Some x \<Rightarrow> return x | None \<Rightarrow> loop"
  have unroll: "loop st es = andThen body ?k st es" for st es using loop by (metis goes_round_def)
  have stop: "\<exists>x st'. loop st [CtxDone] = Result x st' []" and start: "loop st [] \<noteq> Impossible" for st
    using stops [of st] by (auto simp: unroll [of st] andThen_def return_def)
  show "winds_up (\<lambda>_. True) loop"
    using can_end_loop [OF loop body(1,2) stop] start by (simp add: winds_up_def)
  show "winds_off (\<lambda>_. True) loop"
    using can_end_loop_off [OF loop body stop] by (simp add: winds_off_def)
qed

section \<open>The engine winds up\<close>

text \<open>A call whose context has ended has no reply.\<close>

definition no_reply :: "rpc_error + 'a \<Rightarrow> bool" where
  "no_reply r \<longleftrightarrow> r = Inl ContextErr \<or> (\<exists>e. r = Inl (MarshalErr e))"

lemma winds_instant:
  assumes "\<And>st es. \<exists>x st'. m st es = Result x st' es"
  shows "winds_up (\<lambda>_. True) m" "winds_off P m"
proof -
  have "\<exists>x st'. m st es = Result x st' es" for st es by (rule assms)
  then show "winds_up (\<lambda>_. True) m"
    unfolding winds_up_def can_end_def by (auto split: outcome.split) (metis outcome.distinct)+
  show "winds_off P m"
    using assms by (metis outcome.distinct(1) winds_off_def)
qed

lemma winds_off_signing: "asks (\<lambda>w. wait_ctx w = NoCtx) m \<Longrightarrow> winds_off P m"
  by (auto simp: asks_def winds_off_def)

lemma winds_roundTrip:
  assumes "cx \<noteq> NoCtx"
  shows "winds_up (\<lambda>r. r = Inl ContextErr) (roundTrip cx body)" "winds_off (\<lambda>r. r = Inl ContextErr) (roundTrip cx body)"
proof -
  let ?c = "FetchCall \<lparr>fr_Body = body\<rparr>"
  have unsent: "can_end (\<lambda>r. r = Inl ContextErr) (roundTrip cx body) st ds" if "quiet ds" for st and ds
    using that assms
    by (cases ds) (auto simp: can_end_def roundTrip_def Let_def andThen_def await_def return_def intro: exI [of _ 1])
  then show "winds_up (\<lambda>r. r = Inl ContextErr) (roundTrip cx body)"
    by (auto simp: winds_up_def roundTrip_def Let_def andThen_def await_def)
  have unanswered: "can_end (\<lambda>r. r = Inl ContextErr) (roundTrip cx body) st (Taken # ds)" if "quiet ds" for st and ds
    using that assms
    by (cases ds) (auto simp: can_end_def roundTrip_def Let_def andThen_def await_def return_def intro: exI [of _ 1])
  have "es = [] \<or> es = [Taken]" if "roundTrip cx body st es = Blocked w" for st and es w
    using that by (cases es; cases "tl es")
      (auto simp: roundTrip_def Let_def andThen_def await_def return_def split: if_splits event.splits)
  with unsent unanswered show "winds_off (\<lambda>r. r = Inl ContextErr) (roundTrip cx body)"
    unfolding winds_off_def by fastforce
qed

lemma winds_call [intro]:
  assumes "cx \<noteq> NoCtx"
  shows "winds_up no_reply (CallForInto cx lib method dec)" "winds_off no_reply (CallForInto cx lib method dec)"
proof -
  have id: "\<exists>i st'. next_id st es = Result i st' es" for st es by (simp add: next_id_def Let_def)
  have r: "no_reply (Inl (MarshalErr e))" "no_reply (decode_response lib dec (Inl ContextErr))" for e
    by (simp_all add: no_reply_def decode_response_def)
  have up: "winds_up no_reply (case rpc_request lib i method of
      Inl err \<Rightarrow> return (Inl (MarshalErr err))
    | Inr body \<Rightarrow> andThen (roundTrip cx body) (\<lambda>res. return (decode_response lib dec res)))" for i
    by (intro winds_up_cases winds_off_cases winds_return(1) r winds_up_andThen [OF _ winds_roundTrip(1) [OF assms]] replayable_transport
        replayable_return) (simp add: r)
  have off: "winds_off no_reply (case rpc_request lib i method of
      Inl err \<Rightarrow> return (Inl (MarshalErr err))
    | Inr body \<Rightarrow> andThen (roundTrip cx body) (\<lambda>res. return (decode_response lib dec res)))" for i
    by (intro winds_up_cases winds_off_cases winds_return winds_off_andThen [OF _ winds_roundTrip(2) [OF assms]] replayable_transport
        replayable_return) (simp add: r)
  show "winds_up no_reply (CallForInto cx lib method dec)" "winds_off no_reply (CallForInto cx lib method dec)"
    unfolding CallForInto_def
    by (intro winds_up_andThen [OF _ winds_instant(1) [OF id]] winds_off_andThen [OF _ winds_instant(2) [OF id]]
        up off replayable_cases replayable_andThen replayable_transport replayable_next_id replayable_return)+
qed

lemma winds_tick [intro]:
  fixes tick :: "(event, 's) action"
  defines "tick \<equiv> await WaitTick"
  shows "winds_up (\<lambda>_. True) tick" "winds_off (\<lambda>_. True) tick"
proof -
  have "can_end (\<lambda>_. True) tick st ds" for st ds
    by (cases ds) (auto simp: tick_def can_end_def await_def intro: exI [of _ 1])
  then show "winds_up (\<lambda>_. True) tick" "winds_off (\<lambda>_. True) tick"
    by (simp_all add: winds_up_def winds_off_def) (simp add: tick_def await_def)
qed

lemma winds_reading:
  assumes "cx \<noteq> NoCtx" and "\<And>r. no_reply r \<Longrightarrow> P (g r)"
  shows "winds_up P (andThen (CallForInto cx lib method dec) (\<lambda>r. return (g r)))"
    "winds_off P (andThen (CallForInto cx lib method dec) (\<lambda>r. return (g r)))"
  using assms
  by (auto intro!: winds_up_andThen [OF _ winds_call(1)] winds_off_andThen [OF _ winds_call(2)] winds_return
      replayable_transport replayable_return)

lemma winds_readers [intro]:
  "cx \<noteq> NoCtx \<Longrightarrow> winds_up isl (Verify cx k mint)" "cx \<noteq> NoCtx \<Longrightarrow> winds_off isl (Verify cx k mint)"
  "winds_up no_reply (read_statuses k sig)" "winds_off no_reply (read_statuses k sig)"
  "winds_up (\<lambda>_. True) (resolveNetwork k pinned)" "winds_off (\<lambda>_. True) (resolveNetwork k pinned)"
  "winds_up (\<lambda>t. t \<noteq> None) (checkTreasurySpendable k a)" "winds_off (\<lambda>t. t \<noteq> None) (checkTreasurySpendable k a)"
proof -
  have v: "isl (judge_mint k mint r)" and t: "judge_treasury k r \<noteq> None"
    if "no_reply r" for r :: "rpc_error + account_info option"
    using that by (auto simp: no_reply_def judge_mint_def judge_treasury_def)
  show "cx \<noteq> NoCtx \<Longrightarrow> winds_up isl (Verify cx k mint)" "cx \<noteq> NoCtx \<Longrightarrow> winds_off isl (Verify cx k mint)"
    unfolding Verify_def by (auto intro!: winds_reading v)
  show "winds_up no_reply (read_statuses k sig)" "winds_off no_reply (read_statuses k sig)"
    unfolding read_statuses_def by (auto intro!: winds_call)
  have net: "winds_up (\<lambda>_. True) (set_net n)" "winds_off (\<lambda>_. True) (set_net n)" "replayable (set_net n)" for n
    by (rule winds_instant; simp add: set_net_def)+ (unfold_locales, simp add: set_net_def replay_at_def)
  show "winds_up (\<lambda>_. True) (resolveNetwork k pinned)" "winds_off (\<lambda>_. True) (resolveNetwork k pinned)"
    unfolding resolveNetwork_def
    by (auto intro!: winds_up_cases winds_off_cases winds_return winds_up_andThen [OF _ winds_call(1)] winds_off_andThen [OF _ winds_call(2)] net)
  show "winds_up (\<lambda>t. t \<noteq> None) (checkTreasurySpendable k a)" "winds_off (\<lambda>t. t \<noteq> None) (checkTreasurySpendable k a)"
    unfolding checkTreasurySpendable_def by (intro winds_reading t; simp)+
qed

text \<open>Where it does not matter what came of it.\<close>

abbreviation winds :: "('a, 's) action \<Rightarrow> bool" where
  "winds m \<equiv> winds_up (\<lambda>_. True) m \<and> winds_off (\<lambda>_. True) m"

lemma winds_any: "winds_up P m \<Longrightarrow> winds_off P m \<Longrightarrow> winds m"
  using winds_weaken [of P "\<lambda>_. True" m] by simp

lemma winds_andThen:
  assumes "replayable m" and "winds m" and "\<And>x. winds (f x)" and "\<And>x. replayable (f x)"
  shows "winds (andThen m f)"
  using assms by (intro conjI winds_up_andThen [where P = "\<lambda>_. True"] winds_off_andThen [where P = "\<lambda>_. True"]) simp_all

lemma winds_either:
  "winds m1 \<Longrightarrow> winds m2 \<Longrightarrow> winds (if b then m1 else m2)"
  "(\<And>x. winds (f x)) \<Longrightarrow> (\<And>y. winds (g y)) \<Longrightarrow> winds (case s of Inl x \<Rightarrow> f x | Inr y \<Rightarrow> g y)"
  "winds m0 \<Longrightarrow> (\<And>x. winds (h x)) \<Longrightarrow> winds (case v of None \<Rightarrow> m0 | Some x \<Rightarrow> h x)"
  "winds (return x)"
  by (auto intro!: winds_return split: sum.splits option.splits)

lemma winds_calls:
  "cx \<noteq> NoCtx \<Longrightarrow> winds (CallForInto cx lib method dec)" "winds (read_statuses k sig)" "winds (await WaitTick)"
  "winds (verifySafe k mint s)" "winds (resolveUnconfirmed k mint s d e)"
proof -
  show "cx \<noteq> NoCtx \<Longrightarrow> winds (CallForInto cx lib method dec)" by (rule winds_any) (rule winds_call; assumption)+
  show "winds (await WaitTick)" by auto
  show "winds (read_statuses k sig)" by (rule winds_any) (rule winds_readers)+
  have v: "winds (Verify cx k mint)" if "cx \<noteq> NoCtx" for cx by (rule winds_any) (rule winds_readers that)+
  show "winds (verifySafe k mint s)" "winds (resolveUnconfirmed k mint s d e)"
    unfolding verifySafe_def resolveUnconfirmed_def
    by (intro winds_andThen v winds_either replayable_judgements replayable_return; simp)+
qed

lemma winds_confirm: "winds (confirmOrExpire k sig lv c)"
proof -
  have "winds (poll_once k sig lv c)"
    unfolding poll_once_def
    by (intro winds_andThen winds_either winds_calls replayable_cases replayable_andThen replayable_await replayable_transport
        replayable_judgements replayable_return) simp_all
  moreover have "\<exists>w x st'. poll_once k sig lv c st [] = Blocked w \<and> wait_ctx w \<noteq> NoCtx \<and>
      poll_once k sig lv c st [CtxDone] = Result (Some x) st' []" for st
    by (auto simp: poll_once_def andThen_def await_def return_def)
  ultimately show ?thesis using winds_loop [OF confirm_goes_round replayable_poll_once] by blast
qed

lemma winds_send: "winds_off (\<lambda>_. True) (send k payer ixs c extra)"
proof -
  have "asks (\<lambda>w. wait_ctx w = NoCtx) (signer_Sign k s msg)" for s msg
    unfolding signer_Sign_def roundTrip_Sign_def Let_def
    by (cases s) (auto intro!: asks_andThen split: event.splits)
  then have "asks (\<lambda>w. wait_ctx w = NoCtx) (sign_all k signers msg wants)" for signers msg wants
    by (induction wants) (auto simp del: find.simps split: option.splits sum.splits intro!: asks_andThen)
  then have sign: "winds_off (\<lambda>_. False) (sign_all k signers msg wants)" for signers msg wants
    by (rule winds_off_signing)
  have sent: "winds_off (\<lambda>_. True) (andThen (CallForInto OpCtx (sdk_rpc k) (SendTransaction msg sigs CommitmentConfirmed) (dec_send k)) (\<lambda>sent.
      andThen (confirmOrExpire k sig lv c) (\<lambda>cerr. return (conclude_send sig sent cerr))))" for msg sigs sig lv
  proof -
    have "winds (andThen (CallForInto OpCtx (sdk_rpc k) (SendTransaction msg sigs CommitmentConfirmed) (dec_send k)) (\<lambda>sent.
        andThen (confirmOrExpire k sig lv c) (\<lambda>cerr. return (conclude_send sig sent cerr))))"
      by (intro winds_andThen winds_calls winds_confirm winds_either replayable_andThen replayable_transport
          replayable_confirm replayable_return) simp
    then show ?thesis by simp
  qed
  show ?thesis
    unfolding send_def
  proof (rule winds_off_andThen [OF _ winds_call(2)], goal_cases)
    case 3
    then show ?case by (auto simp: no_reply_def intro!: winds_return)
  next
    case 5
    then show ?case
      by (intro winds_off_cases winds_return(2) winds_off_andThen [OF _ sign] sent replayable_cases replayable_andThen
          replayable_transport replayable_sign_all replayable_confirm replayable_return) simp
  qed (auto intro!: replayable_cases replayable_andThen)
qed

lemma winds_submit: "winds_off (\<lambda>_. True) (submit_mint k payer wallet s d ixs)"
proof -
  have "winds (case snd r of
       None \<Rightarrow> andThen (verifySafe k (fst wallet) s) (\<lambda>e. return (fst wallet, d, e))
     | Some e \<Rightarrow>
         if e = IndexPanic then return (zero_pubkey, [], Some Panicked)
         else if is_expired e then return (zero_pubkey, d, Some (DidNotLand e))
         else resolveUnconfirmed k (fst wallet) s d e)" for r :: "signature \<times> send_error option"
    by (intro winds_either winds_andThen winds_calls replayable_checks replayable_return)
  then show ?thesis
    unfolding submit_mint_def
    by (intro winds_off_andThen [OF replayable_send winds_send]) (auto intro!: replayable_cases replayable_andThen replayable_checks)
qed

lemma winds_Mint: "winds_off (\<lambda>_. True) (Mint k payer pinned wallet s)"
proof -
  let ?late = "\<lambda>d. andThen (checkTreasurySpendable k (treasury payer s)) (\<lambda>t.
      case t of
        Some e \<Rightarrow> return (zero_pubkey, d, Some e)
      | None \<Rightarrow>
          (case buildMint k payer (fst wallet) (treasury payer s) s of
             Inl e \<Rightarrow> return (zero_pubkey, d, Some (BuildErr e))
           | Inr ixs \<Rightarrow> submit_mint k payer wallet s d ixs))"
  have replays: "replayable (case t of
        Some e \<Rightarrow> return (zero_pubkey, d, Some e)
      | None \<Rightarrow>
          (case buildMint k payer (fst wallet) (treasury payer s) s of
             Inl e \<Rightarrow> return (zero_pubkey, d, Some (BuildErr e))
           | Inr ixs \<Rightarrow> submit_mint k payer wallet s d ixs))" for t d
    by (intro replayable_cases replayable_return replayable_submit)
  have late: "winds (?late d)" for d
    by (intro conjI winds_up_andThen [OF _ winds_readers(7) _ replays] winds_off_andThen [OF _ winds_readers(8) _ replays]
        replayable_checks) (auto intro!: winds_return winds_off_cases winds_submit)
  have net: "winds get_net" "replayable get_net"
    using winds_instant [of get_net] by (auto simp: get_net_def replay_at_def intro: replayable.intro)
  have "winds (Mint k payer pinned wallet s)"
    unfolding Mint_def Let_def
    by (intro winds_either winds_andThen conjI winds_readers net late replays replayable_cases replayable_andThen
        replayable_resolveNetwork replayable_checks replayable_return)
  then show ?thesis by simp
qed

lemma winds_lifecycle: "winds_off (\<lambda>_. True) (mint_lifecycle k payer pinned wallet spec)"
  unfolding mint_lifecycle_def
  by (rule winds_off_andThen [OF _ winds_Mint]) (auto intro!: winds_return split: prod.splits)

lemma winds_verify_lifecycle: "winds (verify_lifecycle k mint)"
  unfolding verify_lifecycle_def
  by (intro winds_andThen winds_any [OF winds_readers(1,2)] winds_either replayable_judgements replayable_return) simp_all

section \<open>Sessions left alone\<close>

text \<open>
  With the driver free, neither channel moves, and the engine's history grows by ticks and ended
  contexts only.
\<close>

lemma left_alone:
  assumes "drifts\<^sup>*\<^sup>* s s'" and "s_driver s = Idle" and "s_cancelled s"
  shows "\<exists>ds. quiet ds \<and> s_history s' = s_history s @ ds \<and> s_driver s' = Idle \<and> s_cancelled s' \<and> s_run s' = s_run s"
  using assms(1)
proof (induction rule: rtranclp_induct)
  case base
  with assms(2,3) show ?case by (intro exI [of _ "[]"]) simp
next
  case (step s1 s2)
  then obtain ds where ds: "quiet ds" "s_history s1 = s_history s @ ds" "s_driver s1 = Idle" "s_cancelled s1"
    "s_run s1 = s_run s" by blast
  have grows: ?case if "s_history s2 = s_history s1 @ es" "quiet es" "s_driver s2 = Idle" "s_cancelled s2" "s_run s2 = s_run s1" for es
    using that ds by (intro exI [of _ "ds @ es"]) simp
  from step.hyps(2) show ?case
  proof cases
    case work
    then show ?thesis by cases (use ds grows [of "[Tick]"] in auto)
  next
    case ctx_ends
    then show ?thesis using ds grows [of "[CtxDone]"] by simp
  qed (use ds grows [of "[]"] in simp_all)
qed

text \<open>A wait without a context does not end.\<close>

lemma waits_for_good:
  assumes "drifts\<^sup>*\<^sup>* s s'" and "s_driver s = Idle" and "engine_at s = Blocked w" and "wait_ctx w = NoCtx"
  shows "engine_at s' = Blocked w"
proof -
  have "engine_at s' = Blocked w \<and> s_driver s' = Idle"
    using assms(1)
  proof (induction rule: rtranclp_induct)
    case (step s1 s2)
    from step.hyps(2) step.IH assms(4) show ?case
      by cases (auto simp: over_def elim!: worksE)
  qed (use assms in simp)
  then show ?thesis by simp
qed

text \<open>What contexts that end can bring about, a cancelled session comes to by itself.\<close>

lemma cancelled_ends:
  assumes "s_cancelled s" and "lifecycle (s_run s)" and "settled (s_run s (s_history s @ replicate n CtxDone))"
  shows "\<exists>s'. drifts\<^sup>*\<^sup>* s s' \<and> s_history s' = s_history s @ replicate n CtxDone \<and> s_run s' = s_run s \<and>
    s_cancelled s' \<and> s_op_expired s' \<and> s_check_expired s'"
  using assms(3)
proof (induction n)
  case 0
  let ?s = "s\<lparr>s_op_expired := True\<rparr>"
  have "drifts s ?s" "drifts ?s (?s\<lparr>s_check_expired := True\<rparr>)" by (rule drifts.intros)+
  with assms(1) show ?case by (intro exI [of _ "?s\<lparr>s_check_expired := True\<rparr>"]) auto
next
  case (Suc n)
  let ?es = "s_history s @ replicate n CtxDone"
  have more: "s_history s @ replicate (Suc n) CtxDone = ?es @ [CtxDone]" by (simp add: replicate_append_same)
  with Suc.prems obtain w where w: "s_run s ?es = Blocked w" "possible w CtxDone"
    using lifecycle.settled_before [OF assms(2), of ?es CtxDone] by auto
  with Suc.IH obtain s1 where s1: "drifts\<^sup>*\<^sup>* s s1" "s_history s1 = ?es" "s_run s1 = s_run s" "s_cancelled s1"
    "s_op_expired s1" "s_check_expired s1" by (auto simp: settled_def)
  have "over s1 (wait_ctx w)"
    using w(2) s1(4-6) by (cases w) (auto simp: over_def split: go_ctx.splits)
  with w(1) s1(2,3) have "drifts s1 (s1\<lparr>s_history := s_history s1 @ [CtxDone]\<rparr>)" by (intro drifts.ctx_ends) simp_all
  with s1 more show ?case
    by (intro exI [of _ "s1\<lparr>s_history := s_history s1 @ [CtxDone]\<rparr>"]) (auto intro: rtranclp.rtrancl_into_rtrancl)
qed

context lifecycle
begin

lemma inv_steps: "session_step\<^sup>*\<^sup>* s s' \<Longrightarrow> s_run s = run \<Longrightarrow> session_inv s \<Longrightarrow> s_run s' = run \<and> session_inv s'"
  by (induction rule: rtranclp_induct) (use inv_step in blast)+

lemma closed_unwinds:
  assumes m: "run = m st" "winds_off (\<lambda>_. True) m"
    and s: "s_run s = run" "session_inv s" "s_driver s = Idle" "engine_at s = Blocked w" "wait_ctx w \<noteq> NoCtx"
    and closed: "drifts\<^sup>*\<^sup>* (Close s) s'"
  shows "\<exists>s'' x e. drifts\<^sup>*\<^sup>* s' s'' \<and> engine_at s'' = Result x e []"
proof -
  obtain ds where ds: "quiet ds" "s_history s' = s_history s @ ds" "s_cancelled s'" "s_run s' = run"
    using left_alone [OF closed] s(1,3) by (auto simp: Close_def)
  have "can_end (\<lambda>_. True) m st (s_history s @ ds)"
    using winds_offD [OF m(2) _ s(5) ds(1)] s(1,4) m(1) by simp
  moreover have "session_step\<^sup>*\<^sup>* s s'"
    using session_step.closes [OF s(3)] drifts_steps [OF closed] by (rule converse_rtranclp_into_rtranclp)
  from inv_steps [OF this s(1,2)] have "settled (engine_at s')" by (auto simp: session_inv_def)
  ultimately obtain n x e where "s_run s' (s_history s' @ replicate n CtxDone) = Result x e []"
    using ds(2,4) m(1) by (auto simp: can_end_def settled_def intro: that [of 0] split: outcome.splits)
  with cancelled_ends [OF ds(3), of n] show ?thesis
    using lifecycle_axioms ds(4) by (fastforce simp: settled_def)
qed

end

section \<open>Which waits watch a context\<close>

text \<open>The wait for a signature watches none, the wait for a response always does.\<close>

definition call_ctx :: "wait \<Rightarrow> bool" where
  "call_ctx w \<longleftrightarrow> (\<forall>c cx. w = WaitReply c cx \<longrightarrow> (cx = NoCtx \<longleftrightarrow> (\<exists>rq. c = SignCall rq)))"

lemma call_ctx_simps [simp]:
  "call_ctx (WaitSend c cx)" "call_ctx (WaitReply (FetchCall f) cx) \<longleftrightarrow> cx \<noteq> NoCtx"
  "call_ctx (WaitReply (SignCall rq) cx) \<longleftrightarrow> cx = NoCtx" "call_ctx WaitTick"
  by (auto simp: call_ctx_def)

lemma call_ctx_call: "cx \<noteq> NoCtx \<Longrightarrow> asks call_ctx (CallForInto cx lib method dec)"
proof -
  assume "cx \<noteq> NoCtx"
  then have "asks call_ctx (roundTrip cx body)" for body
    unfolding roundTrip_def Let_def by (intro asks_andThen asks_cases) (auto split: event.splits)
  moreover have "asks call_ctx next_id" by (simp add: asks_def next_id_def Let_def)
  ultimately show ?thesis unfolding CallForInto_def by (intro asks_andThen asks_cases asks_return)
qed

lemma call_ctx_send: "asks call_ctx (send k payer ixs c extra)"
proof -
  have "asks call_ctx (signer_Sign k s msg)" for s msg
    unfolding signer_Sign_def roundTrip_Sign_def Let_def
    by (cases s) (auto intro!: asks_andThen split: event.splits)
  then have sign: "asks call_ctx (sign_all k signers msg wants)" for signers msg wants
    by (induction wants) (auto simp del: find.simps split: option.splits sum.splits intro!: asks_andThen)
  have "asks call_ctx (poll_once k sig lv c)" for sig lv
    unfolding poll_once_def read_statuses_def
    by (intro asks_andThen asks_cases asks_return call_ctx_call) simp_all
  then have "asks call_ctx (confirmOrExpire k sig lv c)" for sig lv by (rule asks_loop [OF confirm_goes_round])
  then show ?thesis
    unfolding send_def by (intro asks_andThen asks_cases asks_return call_ctx_call sign) simp_all
qed

lemma call_ctx_Mint: "asks call_ctx (Mint k payer pinned wallet s)"
proof -
  have "asks call_ctx get_net" "asks call_ctx (set_net n)" for n by (simp_all add: asks_def get_net_def set_net_def)
  then show ?thesis
    unfolding Mint_def submit_mint_def Let_def resolveNetwork_def checkTreasurySpendable_def verifySafe_def
      resolveUnconfirmed_def Verify_def
    by (intro asks_andThen asks_cases asks_return call_ctx_call call_ctx_send) simp_all
qed

section \<open>Properties\<close>

text \<open>
  C23: closing a session. When a mint session is closed while it waits for the answer to a
  fetch, its engine unwinds: whatever the clock and the contexts do from there on, the engine
  can still come to its end with no help from the driver. When it is closed while it waits for a
  signature, the engine never leaves that wait: nothing but an answer, which a driver that has
  closed the session does not give, can end it.
\<close>

theorem Close_unwinds_unless_signing:
  assumes "session_step\<^sup>*\<^sup>* (StartMint k payer wallet spec opts) s" and "Pending s = Some c"
    and "engine_at s = Blocked (WaitReply c cx)" and "drifts\<^sup>*\<^sup>* (Close s) s'"
  shows "case c of
      FetchCall _ \<Rightarrow> \<exists>s'' x e. drifts\<^sup>*\<^sup>* s' s'' \<and> engine_at s'' = Result x e []
    | SignCall _ \<Rightarrow> engine_at s' = engine_at s"
proof -
  obtain e pinned where engine: "NewEngine (engine_options opts) = (e, pinned)" by fastforce
  from StartMint_reachable [OF assms(1) this] have
    s: "s_run s = mint_lifecycle k payer pinned wallet spec e" "session_inv s" by simp_all
  have idle: "s_driver (Close s) = Idle" "s_cancelled (Close s)" and same: "engine_at (Close s) = engine_at s"
    using s(2) assms(2) by (auto simp: session_inv_def Pending_def Close_def)
  have "Mint k payer pinned wallet spec e (s_history s) = Blocked (WaitReply c cx)"
    using assms(3) unfolding s(1) mint_lifecycle_def by (auto simp: andThen_Blocked return_def)
  then have cx: "cx = NoCtx \<longleftrightarrow> (\<exists>rq. c = SignCall rq)"
    using call_ctx_Mint [of k payer pinned wallet spec] by (auto simp: asks_def call_ctx_def)
  show ?thesis
  proof (cases c)
    case (SignCall rq)
    with waits_for_good [OF assms(4) idle(1), of "WaitReply c cx"] assms(3) cx same show ?thesis by simp
  next
    case (FetchCall f)
    with cx have ctx: "wait_ctx (WaitReply c cx) \<noteq> NoCtx" by simp
    from idle(1) have "s_driver s = Idle" by (simp add: Close_def)
    from mint_session.closed_unwinds [OF refl winds_lifecycle s this assms(3) ctx assms(4)] FetchCall show ?thesis by simp
  qed
qed

text \<open>A verify session needs no signature, and always unwinds.\<close>

lemma closed_verify_unwinds:
  assumes "session_step\<^sup>*\<^sup>* (StartVerify k mint) s" and "Pending s = Some c"
    and "engine_at s = Blocked (WaitReply c cx)" and "drifts\<^sup>*\<^sup>* (Close s) s'"
  shows "\<exists>s'' x e. drifts\<^sup>*\<^sup>* s' s'' \<and> engine_at s'' = Result x e []"
proof -
  obtain e where s: "s_run s = verify_lifecycle k mint e" "session_inv s"
    using verify_session.inv_reachable assms(1) unfolding StartVerify_def by blast
  with assms(2) have idle: "s_driver s = Idle" by (auto simp: session_inv_def Pending_def)
  have "asks (\<lambda>w. wait_ctx w \<noteq> NoCtx) (roundTrip SessionCtx body)" for body
    unfolding roundTrip_def Let_def by (intro asks_andThen asks_cases) (auto split: event.splits)
  moreover have "asks (\<lambda>w. wait_ctx w \<noteq> NoCtx) next_id" by (simp add: asks_def next_id_def Let_def)
  ultimately have "asks (\<lambda>w. wait_ctx w \<noteq> NoCtx) (verify_lifecycle k mint)"
    unfolding verify_lifecycle_def Verify_def CallForInto_def by (intro asks_andThen asks_cases asks_return)
  with assms(3) s(1) have ctx: "wait_ctx (WaitReply c cx) \<noteq> NoCtx" unfolding asks_def by metis
  have winds: "winds_off (\<lambda>_. True) (verify_lifecycle k mint)" using winds_verify_lifecycle by blast
  show ?thesis by (rule verify_session.closed_unwinds [OF refl winds s idle assms(3) ctx assms(4)])
qed

text \<open>The sample mint, closed at its first fetch, and closed at the request for the signature.\<close>

lemma sample_signing:
  "\<exists>s rq. session_step\<^sup>*\<^sup>* sample_session s \<and> Pending s = Some (SignCall rq) \<and> engine_at s = Blocked (WaitReply (SignCall rq) NoCtx)"
proof -
  let ?run = "mint_lifecycle sample_sdk sample_payer False (sample_mint, [1]) sample_spec sample_state"
  obtain rq where "?run sample_prefix = Blocked (WaitSend (SignCall rq) NoCtx)"
    using sample_asks unfolding mint_lifecycle_def by (auto simp: andThen_Blocked)
  from mint_session.taken [OF this] have w: "?run (sample_prefix @ [Taken]) = Blocked (WaitReply (SignCall rq) NoCtx)" .
  moreover have "CtxDone \<notin> set (sample_prefix @ [Taken])" by (simp add: sample_prefix_def answer_def)
  ultimately obtain s where s: "session_step\<^sup>*\<^sup>* (launch (newSession ?run)) s" "s_history s = sample_prefix @ [Taken]"
    "s_pending s = Some (SignCall rq)"
    using mint_session.drive_to_call by blast
  moreover from mint_session.inv_reachable [OF s(1)] have "s_run s = ?run" by simp
  moreover have "launch (newSession ?run) = sample_session"
    using sample_session_parts(5) by (simp add: sample_session_def StartMint_def)
  ultimately show ?thesis using w by (auto simp: Pending_def)
qed

theorem Close_unwinds_unless_signing_witness:
  "(\<exists>s' x e. drifts\<^sup>*\<^sup>* (Close sample_parked) s' \<and> engine_at s' = Result x e []) \<and>
   (\<exists>s rq. session_step\<^sup>*\<^sup>* sample_session s \<and> Pending s = Some (SignCall rq) \<and>
     (\<forall>s'. \<not> (drifts\<^sup>*\<^sup>* (Close s) s' \<and> engine_at s' \<noteq> Blocked (WaitReply (SignCall rq) NoCtx))))"
proof -
  have "Pending sample_parked = Some sample_call_body" "engine_at sample_parked = Blocked (WaitReply sample_call_body SessionCtx)"
    using sample_awaits by (simp_all add: Pending_def sample_parked_def)
  from Close_unwinds_unless_signing [OF sample_parks [unfolded sample_session_def] this rtranclp.rtrancl_refl]
  have "\<exists>s' x e. drifts\<^sup>*\<^sup>* (Close sample_parked) s' \<and> engine_at s' = Result x e []" by simp
  moreover obtain s rq where s: "session_step\<^sup>*\<^sup>* sample_session s" "Pending s = Some (SignCall rq)"
    "engine_at s = Blocked (WaitReply (SignCall rq) NoCtx)" using sample_signing by blast
  from Close_unwinds_unless_signing [OF s(1) [unfolded sample_session_def] s(2,3)] s
  have "\<exists>s rq. session_step\<^sup>*\<^sup>* sample_session s \<and> Pending s = Some (SignCall rq) \<and>
     (\<forall>s'. \<not> (drifts\<^sup>*\<^sup>* (Close s) s' \<and> engine_at s' \<noteq> Blocked (WaitReply (SignCall rq) NoCtx)))" by auto
  ultimately show ?thesis ..
qed

end
