(* ===== verification/Token_Refusal.thy ===== *)
theory Token_Refusal
  imports Token_Session
begin

text \<open>
  What becomes of a mint whose host refuses the signature (\<open>send\<close> in \<open>src/token/engine.go\<close>, \<open>Mint\<close>
  and \<open>resolveUnconfirmed\<close> in \<open>src/token/mint.go\<close>). \<open>refused_as T m\<close> says how \<open>m\<close> goes on once a
  request for a signature is answered with an error: as one of the actions \<open>T\<close> allows, on the
  events that follow. It comes with rules for \<open>return\<close>, \<open>andThen\<close> and case distinctions.
\<close>

section \<open>After a refusal\<close>

definition refused_as :: "(string \<Rightarrow> ('a, 's) action \<Rightarrow> bool) \<Rightarrow> ('a, 's) action \<Rightarrow> bool" where
  "refused_as T m \<longleftrightarrow>
     (\<forall>st p rq cx r e. m st p = Blocked (WaitReply (SignCall rq) cx) \<longrightarrow> hr_Err r = Some e \<longrightarrow>
        (\<exists>a st'. T e a \<and> (\<forall>q. m st (p @ Reply r # q) = a st' q)))"

text \<open>An action that never waits for a signature.\<close>

abbreviation fetches_only :: "('a, 's) action \<Rightarrow> bool" where
  "fetches_only \<equiv> asks (\<lambda>w. \<forall>rq cx. w \<noteq> WaitReply (SignCall rq) cx)"

lemma refused_fetches: "fetches_only m \<Longrightarrow> refused_as T m"
  by (force simp: asks_def refused_as_def)

lemma refused_cases:
  "refused_as T (return x)"
  "refused_as T m1 \<Longrightarrow> refused_as T m2 \<Longrightarrow> refused_as T (if b then m1 else m2)"
  "(\<And>x. refused_as T (f x)) \<Longrightarrow> (\<And>y. refused_as T (g y)) \<Longrightarrow> refused_as T (case v of Inl x \<Rightarrow> f x | Inr y \<Rightarrow> g y)"
  "refused_as T m0 \<Longrightarrow> (\<And>x. refused_as T (h x)) \<Longrightarrow> refused_as T (case u of None \<Rightarrow> m0 | Some x \<Rightarrow> h x)"
  by (auto simp: refused_as_def return_def split: sum.splits option.splits)

lemma refused_andThen:
  assumes m: "replayable m" "refused_as T m" and f: "\<And>x. refused_as U (f x)"
    and next_action: "\<And>e a. T e a \<Longrightarrow> U e (andThen a f)"
  shows "refused_as U (andThen m f)"
  unfolding refused_as_def
proof (intro allI impI)
  fix st p rq cx e and r :: HostReply
  assume "andThen m f st p = Blocked (WaitReply (SignCall rq) cx)" and r: "hr_Err r = Some e"
  then consider "m st p = Blocked (WaitReply (SignCall rq) cx)"
    | x st1 r1 where "m st p = Result x st1 r1" "f x st1 r1 = Blocked (WaitReply (SignCall rq) cx)"
    by (auto simp: andThen_Blocked)
  then show "\<exists>a st'. U e a \<and> (\<forall>q. andThen m f st (p @ Reply r # q) = a st' q)"
  proof cases
    case 1
    with m(2) r obtain a st' where a: "T e a" "\<And>q. m st (p @ Reply r # q) = a st' q"
      unfolding refused_as_def by blast
    then have "andThen m f st (p @ Reply r # q) = andThen a f st' q" for q by (simp add: andThen_def)
    with next_action [OF a(1)] show ?thesis by blast
  next
    case 2
    have more: "andThen m f st (p @ Reply r # q) = f x st1 (r1 @ Reply r # q)" for q
      using replayable.more_events [OF m(1) 2(1), of "Reply r # q"] by (simp add: andThen_def)
    obtain a st' where "U e a" "\<And>q. f x st1 (r1 @ Reply r # q) = a st' q"
      using f [of x] 2(2) r unfolding refused_as_def by blast
    with more show ?thesis by auto
  qed
qed

lemma refused_later:
  "replayable m \<Longrightarrow> fetches_only m \<Longrightarrow> (\<And>x. refused_as U (f x)) \<Longrightarrow> refused_as U (andThen m f)"
  by (rule refused_andThen [where T = "\<lambda>_ _. False"]) (auto intro: refused_fetches)

lemma andThen_return [simp]: "andThen (return x) f = f x"
  by (intro ext) (simp add: andThen_def return_def)

section \<open>The engine after a refusal\<close>

lemma calls_fetch [intro]: "fetches_only (CallForInto cx lib method dec)"
proof -
  have "fetches_only (roundTrip cx body)" for body
    unfolding roundTrip_def Let_def by (intro asks_andThen asks_cases) (auto split: event.splits)
  moreover have "fetches_only next_id" by (simp add: asks_def next_id_def Let_def)
  ultimately show ?thesis unfolding CallForInto_def by (intro asks_andThen asks_cases asks_return)
qed

lemma readers_fetch [intro]:
  "fetches_only (Verify cx k mint)" "fetches_only (read_statuses k sig)" "fetches_only (resolveNetwork k pinned)"
  "fetches_only (checkTreasurySpendable k t)" "fetches_only (verifySafe k mint s)"
  "fetches_only (resolveUnconfirmed k mint s d e)" "fetches_only get_net" "fetches_only (confirmOrExpire k sig lv c)"
proof -
  have "fetches_only (set_net n)" for n by (simp add: asks_def set_net_def)
  then show "fetches_only (resolveNetwork k pinned)"
    unfolding resolveNetwork_def by (intro asks_andThen asks_cases asks_return calls_fetch)
  show v: "fetches_only (Verify cx k mint)" for cx unfolding Verify_def by (intro asks_andThen asks_return calls_fetch)
  show s: "fetches_only (read_statuses k sig)" for sig unfolding read_statuses_def by (rule calls_fetch)
  show "fetches_only get_net" by (simp add: asks_def get_net_def)
  show "fetches_only (checkTreasurySpendable k t)" "fetches_only (verifySafe k mint s)" "fetches_only (resolveUnconfirmed k mint s d e)"
    unfolding checkTreasurySpendable_def verifySafe_def resolveUnconfirmed_def
    by (intro asks_andThen asks_return calls_fetch v)+
  have "fetches_only (poll_once k sig lv c)"
    unfolding poll_once_def by (intro asks_andThen asks_cases asks_return calls_fetch s) simp
  then show "fetches_only (confirmOrExpire k sig lv c)" by (rule asks_loop [OF confirm_goes_round])
qed

lemma refused_Sign: "refused_as (\<lambda>e a. a = return (Inl e)) (signer_Sign k s msg)"
proof (cases s)
  case (HostSigner p)
  have "p' = [Taken]" if "roundTrip_Sign p msg st p' = Blocked (WaitReply c cx)" for st p' c cx
    using that by (cases p'; cases "tl p'")
      (auto simp: roundTrip_Sign_def Let_def andThen_def await_def return_def split: if_splits event.splits)
  with HostSigner show ?thesis
    by (fastforce simp: refused_as_def signer_Sign_def roundTrip_Sign_def Let_def andThen_def await_def return_def)
qed (simp add: signer_Sign_def refused_cases)

lemma refused_sign_all: "refused_as (\<lambda>e a. a = return (Inl (SignErr e))) (sign_all k signers msg wants)"
proof (induction wants)
  case (Cons want wants)
  have rest: "refused_as (\<lambda>e a. a = return (Inl (SignErr e))) (case r of
       Inl e \<Rightarrow> return (Inl (SignErr e))
     | Inr sig \<Rightarrow> andThen (sign_all k signers msg wants) (\<lambda>rest.
         return (case rest of Inl e \<Rightarrow> Inl e | Inr sigs \<Rightarrow> Inr (sig # sigs))))" for r
    by (intro refused_cases refused_andThen [OF replayable_sign_all Cons.IH]) simp
  have "refused_as (\<lambda>e a. a = return (Inl (SignErr e))) (andThen (signer_Sign k s msg) (\<lambda>r. case r of
       Inl e \<Rightarrow> return (Inl (SignErr e))
     | Inr sig \<Rightarrow> andThen (sign_all k signers msg wants) (\<lambda>rest.
         return (case rest of Inl e \<Rightarrow> Inl e | Inr sigs \<Rightarrow> Inr (sig # sigs)))))" for s
    by (rule refused_andThen [OF replayable_signer_Sign refused_Sign rest]) simp
  then show ?case by (auto simp del: find.simps intro: refused_cases split: option.splits)
qed (simp add: refused_cases)

lemma refused_send: "refused_as (\<lambda>e a. a = return (zero_signature, Some (SignErr e))) (send k payer ixs c extra)"
  unfolding send_def
  by (intro refused_later refused_cases refused_andThen [OF replayable_sign_all refused_sign_all] replayable_transport
      calls_fetch readers_fetch replayable_confirm) simp

lemma refused_Mint:
  "refused_as (\<lambda>e a. \<exists>d. a = resolveUnconfirmed k (fst wallet) s d (SignErr e)) (Mint k payer pinned wallet s)"
proof -
  have "refused_as (\<lambda>e a. \<exists>d. a = resolveUnconfirmed k (fst wallet) s d (SignErr e)) (submit_mint k payer wallet s d ixs)" for d ixs
    unfolding submit_mint_def
  proof (rule refused_andThen [OF replayable_send refused_send], goal_cases)
    case (1 r)
    show ?case
      by (intro refused_cases refused_later refused_fetches readers_fetch replayable_checks)
  next
    case (2 e a)
    then show ?case by (auto simp: is_expired_def)
  qed
  then show ?thesis
    unfolding Mint_def Let_def
    by (intro refused_later refused_cases readers_fetch replayable_resolveNetwork replayable_checks)
qed

text \<open>One call has one place to hand its body out, before any event, and one to wait for the reply.\<close>

lemma call_waits:
  assumes "CallForInto cx lib method dec st es = Blocked w"
  obtains i body where "i < 2 ^ 31" "rpc_request lib i method = Inr body"
    "es = [] \<and> w = WaitSend (FetchCall \<lparr>fr_Body = body\<rparr>) cx \<or> es = [Taken] \<and> w = WaitReply (FetchCall \<lparr>fr_Body = body\<rparr>) cx"
proof -
  obtain i st' where i: "next_id st es = Result i st' es" "i < 2 ^ 31"
    and b: "(case rpc_request lib i method of
        Inl err \<Rightarrow> return (Inl (MarshalErr err))
      | Inr body \<Rightarrow> andThen (roundTrip cx body) (\<lambda>res. return (decode_response lib dec res))) st' es = Blocked w"
    using assms next_id_bound by (fastforce simp: CallForInto_def andThen_Blocked next_id_def Let_def)
  then obtain body where body: "rpc_request lib i method = Inr body" "roundTrip cx body st' es = Blocked w"
    by (auto simp: andThen_Blocked return_def split: sum.splits)
  from body(2) have "es = [] \<and> w = WaitSend (FetchCall \<lparr>fr_Body = body\<rparr>) cx \<or> es = [Taken] \<and> w = WaitReply (FetchCall \<lparr>fr_Body = body\<rparr>) cx"
    by (cases es; cases "tl es")
      (auto simp: roundTrip_def Let_def andThen_def await_def return_def possible_def split: if_splits event.splits)
  with that i(2) body(1) show thesis by blast
qed

text \<open>The last look at an unresolved mint: one read, and what it comes to.\<close>

lemma resolve_waits:
  assumes "resolveUnconfirmed k mint s d cause st es = Blocked w"
  obtains i body where "i < 2 ^ 31" "rpc_request (sdk_rpc k) i (GetAccountInfo mint CommitmentFinalized) = Inr body"
    "es = [] \<and> w = WaitSend (FetchCall \<lparr>fr_Body = body\<rparr>) CheckCtx \<or> es = [Taken] \<and> w = WaitReply (FetchCall \<lparr>fr_Body = body\<rparr>) CheckCtx"
proof -
  have "CallForInto CheckCtx (sdk_rpc k) (GetAccountInfo mint CommitmentFinalized) (dec_account k) st es = Blocked w"
    using assms by (simp add: resolveUnconfirmed_def Verify_def andThen_Blocked return_def)
  then show thesis using that by (rule call_waits)
qed

lemma resolve_result:
  assumes "resolveUnconfirmed k mint s d cause st es = Result (m, d', err) st' rest"
  shows "m = mint \<and> (\<exists>info. CallForInto CheckCtx (sdk_rpc k) (GetAccountInfo mint CommitmentFinalized) (dec_account k) st es =
      Result info st' rest \<and>
    (err = None \<longleftrightarrow> (\<exists>a. info = Inr (Some a) \<and> finished_mint k s a)) \<and>
    (\<forall>verr. judge_mint k mint info = Inl verr \<longrightarrow> err = Some (Unresolved cause verr)) \<and>
    (\<forall>ms. judge_mint k mint info = Inr ms \<longrightarrow> \<not> SupplyFixed ms \<or> Freezable ms \<longrightarrow>
       err = Some (LandedUnsafe (SupplyFixed ms) (Freezable ms) cause)))"
proof -
  from assms obtain res where res: "Verify CheckCtx k mint st es = Result res st' rest" "m = mint"
    "err = (case res of
       Inl verr \<Rightarrow> Some (Unresolved cause verr)
     | Inr ms \<Rightarrow> if \<not> SupplyFixed ms \<or> Freezable ms then Some (LandedUnsafe (SupplyFixed ms) (Freezable ms) cause)
         else checkSupply ms s)"
    unfolding resolveUnconfirmed_def by (auto simp: andThen_Result return_def)
  from res(1) obtain info where
    info: "CallForInto CheckCtx (sdk_rpc k) (GetAccountInfo mint CommitmentFinalized) (dec_account k) st es = Result info st' rest"
      "res = judge_mint k mint info" by (rule Verify_read)
  have "err = None \<longleftrightarrow> (\<exists>ms. judge_mint k mint info = Inr ms \<and> SupplyFixed ms \<and> \<not> Freezable ms \<and> checkSupply ms s = None)"
    unfolding res(3) info(2) by (auto split: sum.splits)
  with res(2,3) info show ?thesis unfolding judged_finished by auto
qed

section \<open>Properties\<close>

text \<open>
  C24: a refused signature ends the mint. When the host answers the request for the signature with
  an error, no transaction is sent and the engine hands out one more request at most: at once, the
  body of a read of the new mint's account at finalized commitment, whose reply is the only other
  thing it waits for. Then it returns that mint's address. If the read fails or shows no
  mint of the token program, the result is the error that the mint is unresolved, with
  the refusal as its cause; if it shows a mint with an authority, the error that it is unsafe, with
  the refusal as its cause. There is no error exactly if the account read is the finished mint,
  which, its key being fresh, only a lying node can show.
\<close>

theorem refused_signature_ends_mint:
  assumes "Mint k payer pinned wallet s st p = Blocked (WaitReply (SignCall rq) cx)" and "hr_Err r = Some e"
  shows "(\<forall>q w. Mint k payer pinned wallet s st (p @ Reply r # q) = Blocked w \<longrightarrow>
      (\<exists>i body. i < 2 ^ 31 \<and> rpc_request (sdk_rpc k) i (GetAccountInfo (fst wallet) CommitmentFinalized) = Inr body \<and>
        (q = [] \<and> w = WaitSend (FetchCall \<lparr>fr_Body = body\<rparr>) CheckCtx \<or>
         q = [Taken] \<and> w = WaitReply (FetchCall \<lparr>fr_Body = body\<rparr>) CheckCtx))) \<and>
    (\<forall>q m d err st' rest. Mint k payer pinned wallet s st (p @ Reply r # q) = Result (m, d, err) st' rest \<longrightarrow>
      m = fst wallet \<and> (\<exists>st1 info. CallForInto CheckCtx (sdk_rpc k) (GetAccountInfo (fst wallet) CommitmentFinalized)
          (dec_account k) st1 q = Result info st' rest \<and>
        (err = None \<longleftrightarrow> (\<exists>a. info = Inr (Some a) \<and> finished_mint k s a)) \<and>
        (\<forall>verr. judge_mint k (fst wallet) info = Inl verr \<longrightarrow> err = Some (Unresolved (SignErr e) verr)) \<and>
        (\<forall>ms. judge_mint k (fst wallet) info = Inr ms \<longrightarrow> \<not> SupplyFixed ms \<or> Freezable ms \<longrightarrow>
           err = Some (LandedUnsafe (SupplyFixed ms) (Freezable ms) (SignErr e)))))"
proof -
  obtain d st1 where "\<And>q. Mint k payer pinned wallet s st (p @ Reply r # q) = resolveUnconfirmed k (fst wallet) s d (SignErr e) st1 q"
    using refused_Mint [of k wallet s payer pinned] assms unfolding refused_as_def by blast
  then have run: "Mint k payer pinned wallet s st (p @ Reply r # q) = resolveUnconfirmed k (fst wallet) s d (SignErr e) st1 q" for q .
  show ?thesis
    unfolding run
  proof (intro conjI allI impI, goal_cases)
    case (1 q w)
    then show ?case by (rule resolve_waits) blast
  next
    case (2 q m d' err st' rest)
    from resolve_result [OF this] show ?case by blast
  next
    case (3 q m d' err st' rest)
    from resolve_result [OF this] show ?case by blast
  qed
qed

text \<open>The sample mint: its signature is refused, and the node has no such account.\<close>

theorem refused_signature_ends_mint_witness:
  "\<exists>p r d st'. hr_Err r = Some ''no'' \<and>
     sample_run sample_state (p @ Reply r # answer 0) =
       Result (sample_mint, d, Some (Unresolved (SignErr ''no'') (FetchMintErr ErrNotFound))) st' []"
proof -
  let ?p = "sample_prefix @ [Taken]" and ?r = "\<lparr>hr_Signature = zero_signature, hr_Body = [], hr_Err = Some ''no''\<rparr>"
  obtain rq where "sample_run sample_state sample_prefix = Blocked (WaitSend (SignCall rq) NoCtx)" using sample_asks by blast
  then have waits: "sample_run sample_state ?p = Blocked (WaitReply (SignCall rq) NoCtx)"
    using protocol_step [OF Mint_protocol, where e = Taken] by (fastforce simp: follows_def)
  have err: "hr_Err ?r = Some ''no''" by simp
  obtain d st1 where run: "\<And>q. sample_run sample_state (?p @ Reply ?r # q) =
      resolveUnconfirmed sample_sdk sample_mint sample_spec d (SignErr ''no'') st1 q"
    using refused_Mint [of sample_sdk "(sample_mint, [1])" sample_spec sample_payer False] waits err
    unfolding refused_as_def fst_conv by blast
  have "\<exists>d err st'. sample_run sample_state (?p @ Reply ?r # answer 0) = Result (sample_mint, d, err) st' []"
    unfolding run resolveUnconfirmed_def Verify_def by (simp add: andThen_def sample_call_last return_def)
  then obtain d1 err1 st' where result: "sample_run sample_state (?p @ Reply ?r # answer 0) = Result (sample_mint, d1, err1) st' []" by blast
  from refused_signature_ends_mint [OF waits err, THEN conjunct2, rule_format, OF result] obtain st1 info where
    "CallForInto CheckCtx (sdk_rpc sample_sdk) (GetAccountInfo sample_mint CommitmentFinalized) (dec_account sample_sdk) st1 (answer 0) =
      Result info st' []"
    "\<And>verr. judge_mint sample_sdk sample_mint info = Inl verr \<Longrightarrow> err1 = Some (Unresolved (SignErr ''no'') verr)" by auto
  then have "err1 = Some (Unresolved (SignErr ''no'') (FetchMintErr ErrNotFound))"
    by (auto simp: sample_call_last sample_fields judge_mint_def)
  with result show ?thesis using err by (intro exI [of _ ?p] exI [of _ ?r] exI [of _ d1] exI [of _ st']) simp
qed

end
