(* ===== verification/Token_Verify.thy ===== *)
theory Token_Verify
  imports Token_Cmd
begin

text \<open>
  What the tool \<open>token_verify\<close> reports (\<open>verifyService\<close> in \<open>src/cmd/token/main.go\<close> over \<open>Verify\<close> in
  \<open>src/token/engine.go\<close>), as a function of the account that was read: which accounts are reported
  at all, and in which words.
\<close>

section \<open>The report on an account\<close>

definition plain_mint :: "sdk \<Rightarrow> account_info \<Rightarrow> mint_account \<Rightarrow> bool" where
  "plain_mint k a m \<longleftrightarrow> ai_Owner a = tokenProgramID k \<and> length (ai_Data a) = 82 \<and>
     decode_mint k (ai_Data a) = Inr m \<and> ma_IsInitialized m"

definition mint_words :: "token_lib \<Rightarrow> pubkey \<Rightarrow> mint_account \<Rightarrow> string" where
  "mint_words lib mint m =
     ''mint '' @ tk_String lib mint @ '': supply='' @ FormatUint (unat (ma_Supply m)) @
     '' decimals='' @ FormatUint (unat (ma_Decimals m)) @
     '' mintAuthorityRevoked='' @ show_bool (ma_MintAuthority m = None) @
     '' freezeAbsent='' @ show_bool (ma_FreezeAuthority m = None)"

definition unsafe_words :: "token_lib \<Rightarrow> pubkey \<Rightarrow> string" where
  "unsafe_words lib mint =
     ''mint '' @ tk_String lib mint @ '': UNSAFE - Token-2022 mint that may carry transfer hooks, transfer fees, '' @
     ''or a permanent delegate; not a plain fixed-supply SPL mint''"

lemma report_words:
  "verify_report lib \<lparr>vo_State = zero_state, vo_Err = Some err\<rparr> =
     (if err = ErrToken2022Mint then Inr (unsafe_words lib zero_pubkey) else Inl (VerifyError err))"
  "verify_report lib \<lparr>vo_State = \<lparr>ms_Mint = mint, ms_Decimals = ma_Decimals m, ms_Supply = ma_Supply m,
       ms_MintAuthority = ma_MintAuthority m, ms_FreezeAuthority = ma_FreezeAuthority m\<rparr>, vo_Err = None\<rparr> =
     Inr (mint_words lib mint m)"
  by (simp_all only: verify_report_def mint_words_def unsafe_words_def SupplyFixed_def Freezable_def zero_state_def Let_def
      VerifyOutcome.simps MintState.simps option.simps not_not)

lemma verify_lifecycle_report:
  assumes "verify_lifecycle (tk_sdk lib) mint st es = Result out st' []"
  shows "\<exists>info. CallForInto SessionCtx (sdk_rpc (tk_sdk lib)) (GetAccountInfo mint CommitmentFinalized) (dec_account (tk_sdk lib)) st es =
      Result info st' [] \<and>
    (\<forall>said. verify_report lib out = Inr said \<longleftrightarrow>
      (\<exists>a. info = Inr (Some a) \<and>
        (if ai_Owner a = token2022ProgramID (tk_sdk lib) then said = unsafe_words lib zero_pubkey
         else \<exists>m. plain_mint (tk_sdk lib) a m \<and> said = mint_words lib mint m)))"
proof -
  from assms obtain info where info: "CallForInto SessionCtx (sdk_rpc (tk_sdk lib)) (GetAccountInfo mint CommitmentFinalized) (dec_account (tk_sdk lib)) st es =
      Result info st' []"
    and out: "out = (case judge_mint (tk_sdk lib) mint info of
         Inl err \<Rightarrow> \<lparr>vo_State = zero_state, vo_Err = Some err\<rparr>
       | Inr st \<Rightarrow> \<lparr>vo_State = st, vo_Err = None\<rparr>)"
    by (auto simp: verify_lifecycle_def Verify_def andThen_Result return_def)
  have "verify_report lib out = Inr said \<longleftrightarrow>
      (\<exists>a. info = Inr (Some a) \<and>
        (if ai_Owner a = token2022ProgramID (tk_sdk lib) then said = unsafe_words lib zero_pubkey
         else \<exists>m. plain_mint (tk_sdk lib) a m \<and> said = mint_words lib mint m))" for said
    unfolding out judge_mint_def plain_mint_def mintAccountSize_def by (auto simp: report_words split: sum.splits option.splits)
  with info show ?thesis by blast
qed

section \<open>Properties\<close>

text \<open>
  C39: what the verify tool reports. When a verify session is done, its report is decided by what
  its one read of the account came to: there is a report exactly if there is an account and either it belongs to the
  Token-2022 program, which is reported as unsafe, or it is an initialized mint of 82 bytes of
  the token program, whose supply, decimals and the absence of each authority are told as they
  are. Everything else is an error. The unsafe report always names the all-zero key, whichever
  mint was asked about.
\<close>

theorem verify_reports_account:
  assumes "session_step\<^sup>*\<^sup>* (StartVerify (tk_sdk lib) mint) s" and "Result_of s = Some out"
  shows "\<exists>info e. CallForInto SessionCtx (sdk_rpc (tk_sdk lib)) (GetAccountInfo mint CommitmentFinalized) (dec_account (tk_sdk lib))
      (fst (NewEngine [])) (s_history s) = Result info e [] \<and>
    (\<forall>said. verify_report lib out = Inr said \<longleftrightarrow>
      (\<exists>a. info = Inr (Some a) \<and>
        (if ai_Owner a = token2022ProgramID (tk_sdk lib) then said = unsafe_words lib zero_pubkey
         else \<exists>m. plain_mint (tk_sdk lib) a m \<and> said = mint_words lib mint m)))"
proof -
  from verify_session.inv_reachable [OF assms(1) [unfolded StartVerify_def]] assms(2) obtain e where
    "verify_lifecycle (tk_sdk lib) mint (fst (NewEngine [])) (s_history s) = Result out e []"
    by (auto simp: session_inv_def Result_of_def)
  from verify_lifecycle_report [OF this] show ?thesis by (elim exE) (intro exI)
qed

text \<open>The sample library's node has an account that is a mint of 1000 units, and one that is none.\<close>

lemma sample_verify_run:
  "verify_lifecycle sample_sdk sample_mint (fst (NewEngine [])) (answer 1) =
     Result \<lparr>vo_State = \<lparr>ms_Mint = sample_mint, ms_Decimals = 2, ms_Supply = 1000, ms_MintAuthority = None,
       ms_FreezeAuthority = None\<rparr>, vo_Err = None\<rparr> \<lparr>rpc_id = 1, eng_net = Mainnet\<rparr> []"
  by (simp add: verify_lifecycle_def Verify_def andThen_def sample_call_last sample_fields return_def judge_mint_def NewEngine_def)
    (simp add: sample_sdk_def token2022ProgramID_def mintAccountSize_def)

theorem verify_reports_account_witness:
  "\<exists>s out. session_step\<^sup>*\<^sup>* (StartVerify sample_sdk sample_mint) s \<and> Result_of s = Some out \<and>
     s_history s = answer 1 \<and>
     verify_report sample_lib out = Inr ''mint : supply=1000 decimals=2 mintAuthorityRevoked=true freezeAbsent=true''"
proof -
  let ?run = "verify_lifecycle sample_sdk sample_mint (fst (NewEngine []))"
  have "CtxDone \<notin> set (answer 1)" by (simp add: answer_def)
  from verify_session.drive_to_outcome [OF sample_verify_run this] obtain s out where
    s: "session_step\<^sup>*\<^sup>* (StartVerify sample_sdk sample_mint) s" "s_history s = answer 1" "Result_of s = Some out"
    by (auto simp: StartVerify_def Result_of_def)
  have k: "tk_sdk sample_lib = sample_sdk" by (simp add: sample_lib_def)
  obtain info e where "CallForInto SessionCtx (sdk_rpc sample_sdk) (GetAccountInfo sample_mint CommitmentFinalized) (dec_account sample_sdk)
      (fst (NewEngine [])) (answer 1) = Result info e []" and
    report: "\<And>said. verify_report sample_lib out = Inr said \<longleftrightarrow>
      (\<exists>a. info = Inr (Some a) \<and>
        (if ai_Owner a = token2022ProgramID sample_sdk then said = unsafe_words sample_lib zero_pubkey
         else \<exists>m. plain_mint sample_sdk a m \<and> said = mint_words sample_lib sample_mint m))"
    using verify_reports_account [of sample_lib sample_mint s out] s k by auto
  then have info: "info = Inr (Some \<lparr>ai_Owner = replicate 32 6, ai_Data = replicate 82 0\<rparr>)"
    by (simp add: sample_call_last sample_fields)
  have words: "mint_words sample_lib sample_mint m = ''mint : supply=1000 decimals=2 mintAuthorityRevoked=true freezeAbsent=true''"
    "ai_Owner \<lparr>ai_Owner = replicate 32 6, ai_Data = replicate 82 0\<rparr> \<noteq> token2022ProgramID sample_sdk"
    "plain_mint sample_sdk \<lparr>ai_Owner = replicate 32 6, ai_Data = replicate 82 0\<rparr> m"
    if "m = \<lparr>ma_Decimals = 2, ma_Supply = 1000, ma_MintAuthority = None, ma_FreezeAuthority = None, ma_IsInitialized = True\<rparr>" for m
    using that
    by (simp_all add: mint_words_def sample_lib_def FormatUint.simps show_bool_def char_of_def bit_0 token2022ProgramID_def sample_sdk_def plain_mint_def)
  have "verify_report sample_lib out = Inr ''mint : supply=1000 decimals=2 mintAuthorityRevoked=true freezeAbsent=true''"
    unfolding report info using words [OF refl] by auto
  with s show ?thesis by blast
qed

end
