(* ===== verification/Token_Requests.thy ===== *)
theory Token_Requests
  imports Token_Mint
begin

text \<open>
  The requests of a mint (\<open>src/token/mint.go\<close>, \<open>src/token/engine.go\<close>), with the arguments the
  engine gives to the calls of the client library: which accounts it reads, at which commitment,
  and which transaction it sends. \<open>query_wait M\<close> says of a place where the engine stops that what
  is handed out there, if it is no request to sign, is the body of one call that \<open>M\<close> allows.
\<close>

section \<open>What a call hands out\<close>

definition query_wait :: "(rpc_method \<Rightarrow> bool) \<Rightarrow> rpc_lib \<Rightarrow> wait \<Rightarrow> bool" where
  "query_wait M lib w \<longleftrightarrow>
     (\<forall>f ctx. w = WaitSend (FetchCall f) ctx \<longrightarrow>
        (\<exists>i method. i < 2 ^ 31 \<and> M method \<and> rpc_request lib i method = Inr (fr_Body f)))"

lemma query_wait_simps [simp]:
  "query_wait M lib (WaitSend (SignCall r) c)" "query_wait M lib (WaitReply x c)" "query_wait M lib WaitTick"
  by (simp_all add: query_wait_def)

lemma query_call:
  assumes "M method"
  shows "asks (query_wait M lib) (CallForInto cx lib method dec)"
proof -
  have "asks (query_wait M lib) (roundTrip cx body)" if "rpc_request lib i method = Inr body" "i < 2 ^ 31" for i body
    unfolding roundTrip_def Let_def using that assms
    by (intro asks_andThen asks_cases) (auto simp: query_wait_def split: event.splits)
  then have "asks (query_wait M lib) (case rpc_request lib i method of
      Inl err \<Rightarrow> return (Inl (MarshalErr err))
    | Inr body \<Rightarrow> andThen (roundTrip cx body) (\<lambda>res. return (decode_response lib dec res)))" if "i < 2 ^ 31" for i
    using that by (auto split: sum.splits)
  moreover have "asks (query_wait M lib) next_id" by (simp add: asks_def next_id_def Let_def)
  ultimately show ?thesis
    unfolding CallForInto_def asks_def andThen_Blocked using next_id_bound by blast
qed

section \<open>What the engine asks\<close>

lemma query_readers:
  "M (GetAccountInfo mint CommitmentFinalized) \<Longrightarrow> asks (query_wait M (sdk_rpc k)) (Verify cx k mint)"
  "M (GetSignatureStatuses True sig) \<Longrightarrow> asks (query_wait M (sdk_rpc k)) (read_statuses k sig)"
  "M GetGenesisHash \<Longrightarrow> asks (query_wait M (sdk_rpc k)) (resolveNetwork k pinned)"
  "M (GetAccountInfo t CommitmentFinalized) \<Longrightarrow> asks (query_wait M (sdk_rpc k)) (checkTreasurySpendable k t)"
proof -
  have "asks (query_wait M (sdk_rpc k)) (set_net n)" for n by (simp add: asks_def set_net_def)
  then show "asks (query_wait M (sdk_rpc k)) (resolveNetwork k pinned)" if "M GetGenesisHash"
    unfolding resolveNetwork_def by (intro asks_andThen asks_cases asks_return query_call that)
qed (auto simp: Verify_def read_statuses_def checkTreasurySpendable_def intro!: asks_andThen query_call)

lemma query_confirm:
  assumes "M (GetSignatureStatuses True sig)" and "M (GetBlockHeight CommitmentConfirmed)"
  shows "asks (query_wait M (sdk_rpc k)) (confirmOrExpire k sig lastValid c)"
proof (rule asks_loop [OF confirm_goes_round])
  show "asks (query_wait M (sdk_rpc k)) (poll_once k sig lastValid c)"
    unfolding poll_once_def
    by (intro asks_andThen asks_cases asks_return query_call query_readers assms) simp
qed

lemma query_signing: "asks (query_wait M lib) (sign_all k signers msg wants)"
proof -
  have "asks (query_wait M lib) (roundTrip_Sign pub msg)" for pub
    unfolding roundTrip_Sign_def Let_def by (intro asks_andThen) (auto split: event.splits)
  then have "asks (query_wait M lib) (signer_Sign k s msg)" for s by (auto simp: signer_Sign_def split: signer.splits)
  then show ?thesis by (induction wants) (auto split: option.splits)
qed

lemma query_send:
  assumes "M (GetLatestBlockhash CommitmentConfirmed)" and "M (GetBlockHeight CommitmentConfirmed)"
    and "\<And>sig. M (GetSignatureStatuses True sig)"
    and "\<And>bh tx msg sigs. NewTransaction k ixs bh payer = Inr tx \<Longrightarrow> tx_Message tx = Inr msg \<Longrightarrow>
      M (SendTransaction msg sigs CommitmentConfirmed)"
  shows "asks (query_wait M (sdk_rpc k)) (send k payer ixs c extra)"
  unfolding send_def
  by (intro asks_andThen query_call assms(1))
    (auto split: sum.splits option.splits intro!: asks_andThen query_call query_signing query_confirm assms)

text \<open>The calls a mint may make.\<close>

definition mint_query :: "sdk \<Rightarrow> pubkey \<Rightarrow> pubkey \<Rightarrow> MintSpec \<Rightarrow> rpc_method \<Rightarrow> bool" where
  "mint_query k payer mint s method \<longleftrightarrow>
     (case method of
        GetGenesisHash \<Rightarrow> True
      | GetAccountInfo account c \<Rightarrow> c = CommitmentFinalized \<and> (account = treasury payer s \<or> account = mint)
      | GetLatestBlockhash c \<Rightarrow> c = CommitmentConfirmed
      | GetBlockHeight c \<Rightarrow> c = CommitmentConfirmed
      | GetSignatureStatuses history sig \<Rightarrow> history
      | SendTransaction msg sigs c \<Rightarrow> c = CommitmentConfirmed \<and>
          (\<exists>ixs bh tx. buildMint k payer mint (treasury payer s) s = Inr ixs \<and> NewTransaction k ixs bh payer = Inr tx \<and>
             tx_Message tx = Inr msg))"

lemma query_submit:
  assumes "buildMint k payer (fst wallet) (treasury payer s) s = Inr ixs"
  shows "asks (query_wait (mint_query k payer (fst wallet) s) (sdk_rpc k)) (submit_mint k payer wallet s d ixs)"
proof -
  let ?M = "mint_query k payer (fst wallet) s"
  have "asks (query_wait ?M (sdk_rpc k)) (send k payer ixs CommitmentFinalized [KeySigner (fst wallet) (snd wallet)])"
    by (rule query_send) (use assms in \<open>auto simp: mint_query_def\<close>)
  moreover have "asks (query_wait ?M (sdk_rpc k)) (Verify cx k (fst wallet))" for cx
    by (rule query_readers) (simp add: mint_query_def)
  ultimately show ?thesis
    unfolding submit_mint_def verifySafe_def resolveUnconfirmed_def by (intro asks_andThen asks_cases asks_return)
qed

lemma query_Mint: "asks (query_wait (mint_query k payer (fst wallet) s) (sdk_rpc k)) (Mint k payer pinned wallet s)"
proof -
  let ?M = "mint_query k payer (fst wallet) s"
  have net: "asks (query_wait ?M (sdk_rpc k)) (resolveNetwork k pinned)" "asks (query_wait ?M (sdk_rpc k)) get_net"
    "asks (query_wait ?M (sdk_rpc k)) (checkTreasurySpendable k (treasury payer s))"
    by (rule query_readers | simp add: mint_query_def asks_def get_net_def)+
  show ?thesis
  proof (cases "buildMint k payer (fst wallet) (treasury payer s) s")
    case (Inl e)
    show ?thesis unfolding Mint_def Let_def Inl sum.case by (intro asks_cases asks_andThen asks_return net)
  next
    case (Inr ixs)
    show ?thesis unfolding Mint_def Let_def Inr sum.case by (intro asks_cases asks_andThen asks_return net query_submit [OF Inr])
  qed
qed

section \<open>Properties\<close>

text \<open>
  C20: a mint asks for what it needs and nothing else. Whatever a mint hands to its host is a
  request to sign, for the payer's key and over a compiled transaction of exactly the instructions
  \<open>buildMint\<close> gives; or the body of one JSON-RPC request, under an id of 31 bits, for the genesis
  hash, for the account of the treasury or of the new mint at finalized commitment, for a confirmed
  blockhash or the confirmed block height, for the status of a signature with a search of the
  history, or for the submission of such a transaction, simulated on confirmed state.
\<close>

theorem mint_asks_nothing_else:
  assumes "Mint k payer pinned wallet s st es = Blocked (WaitSend call ctx)"
  shows "(\<exists>ixs bh tx msg. buildMint k payer (fst wallet) (treasury payer s) s = Inr ixs \<and>
      NewTransaction k ixs bh payer = Inr tx \<and> tx_Message tx = Inr msg \<and>
      call = SignCall \<lparr>sr_Pubkey = payer, sr_Message = msg\<rparr>) \<or>
    (\<exists>i method body. i < 2 ^ 31 \<and> mint_query k payer (fst wallet) s method \<and>
      rpc_request (sdk_rpc k) i method = Inr body \<and> call = FetchCall \<lparr>fr_Body = body\<rparr>)"
proof (cases call)
  case (SignCall r)
  with assms Mint_guarded [OF assms] show ?thesis by (auto simp: sign_request_for_def)
next
  case (FetchCall f)
  have "query_wait (mint_query k payer (fst wallet) s) (sdk_rpc k) (WaitSend call ctx)"
    using assms query_Mint by (auto simp: asks_def)
  with FetchCall show ?thesis by (cases f) (auto simp: query_wait_def)
qed

text \<open>The sample mint at its start: the request is for the genesis hash or one of the others.\<close>

theorem mint_asks_nothing_else_witness:
  "\<exists>body i method. sample_run sample_state [] = Blocked (WaitSend (FetchCall \<lparr>fr_Body = body\<rparr>) SessionCtx) \<and>
     i < 2 ^ 31 \<and> mint_query sample_sdk sample_payer sample_mint sample_spec method \<and>
     rpc_request (sdk_rpc sample_sdk) i method = Inr body"
proof -
  from mint_asks_nothing_else [OF sample_first] sample_first show ?thesis by auto
qed

end
