(* ===== verification/Token_Conversation.thy ===== *)
theory Token_Conversation
  imports Token_Process Token_Drive
begin

text \<open>
  A mint over the standard streams of the token extension (\<open>src/cmd/token/main.go\<close>): what calls of
  the mint tool can do (\<open>Token_Drive\<close>), requests on the process's input can do, and their answers are
  written to its output. The requests are those a host sends: the arguments of the mint, then one
  resumption for every answer of the host. That they can be written as lines of JSON of less than
  the size limit of the loop is asked of the syntax.
\<close>

section \<open>Requests as lines\<close>

definition mint_request :: "json \<Rightarrow> json" where
  "mint_request arguments = JObject [(''jsonrpc'', JString ''2.0''), (''id'', JNumber ''1''), (''method'', JString ''tools/call''),
     (''params'', JObject [(''name'', JString ''token_mint''), (''arguments'', arguments)])]"

definition writes :: "json_syntax \<Rightarrow> json \<Rightarrow> bytes \<Rightarrow> bool" where
  "writes js v line \<longleftrightarrow> 10 \<notin> set line \<and> line \<noteq> [] \<and> length line < maxMessageBytes \<and>
     trim_bytes (dropCR line) = line \<and> json_parse js line = Some v"

definition can_say :: "json_syntax \<Rightarrow> rawMessage \<Rightarrow> bool" where
  "can_say js arguments \<longleftrightarrow> (\<exists>kvs line. arguments = Some (JObject kvs) \<and> writes js (mint_request (JObject kvs)) line)"

text \<open>Every line of an input is read.\<close>

definition input_of :: "bytes list \<Rightarrow> bytes" where
  "input_of raws = concat (map (\<lambda>l. l @ [10]) raws)"

lemma scan_line: "10 \<notin> set l \<Longrightarrow> scan_lines (l @ 10 # bs) = l # scan_lines bs"
  by (induction l) auto

lemma scan_input: "\<forall>l \<in> set raws. 10 \<notin> set l \<Longrightarrow> scan_lines (input_of raws) = raws"
  by (induction raws) (simp_all add: input_of_def scan_line)

section \<open>The process follows the registry\<close>

text \<open>The mint tool as far as requests can be said; the key pair of a mint is the process's own choice.\<close>

definition said_begin :: "token_lib \<Rightarrow> (pubkey \<times> bytes) \<times> rawMessage \<Rightarrow> Outcome sessionRegistry \<Rightarrow> Outcome begun" where
  "said_begin lib = (\<lambda>(wallet, arguments) r.
     if can_say (tk_js lib) arguments then mint_begin lib [] wallet arguments r else Refused BadInput r)"

abbreviation said_step where
  "said_step lib \<equiv> registry_step (said_begin lib) (mint_render lib)"

lemma mint_dispatched:
  assumes "writes (tk_js lib) (mint_request (JObject kvs)) line"
    and "mint_call lib [] wallet (Some (JObject kvs)) (tw_mint w) out r'"
  shows "dispatches (tk_js lib) (token_tools version) (token_handles lib et) line w
     (Some (resultResponse (Some (JNumber ''1'')) (answer_content (wrap_error et out)))) (w\<lparr>tw_mint := r'\<rparr>)"
proof -
  have parse: "json_parse (tk_js lib) line = Some (mint_request (JObject kvs))" using assms(1) by (simp add: writes_def)
  note decode = mint_request_def decode_request_def decode_call_def json_members_def matches_field_def upper_char_def
  have call: "tool_call (tk_js lib) (token_tools version) line = Some (''token_mint'', Some (JObject kvs))"
    using token_tools_table by (simp add: tool_call_def parse decode)
  obtain t where "srv_tools (token_tools version) ''token_mint'' = Some t" using token_tools_table by blast
  then have "dispatch (tk_js lib) (answering (reply, w') (token_tools version)) line w =
      (Some (resultResponse (Some (JNumber ''1'')) (answer_content reply)), w')" for reply w'
    by (simp add: dispatch_def parse decode callResult_def answer_content_def split: sum.splits)
  moreover have "token_handles lib et ''token_mint'' w (Some (JObject kvs)) (wrap_error et out) (w\<lparr>tw_mint := r'\<rparr>)"
    by (rule token_handles.mint [OF assms(2)])
  ultimately show ?thesis unfolding dispatches_def call by auto
qed

text \<open>A message on an input that goes on.\<close>

lemma mint_message:
  assumes "writes (tk_js lib) (mint_request (JObject kvs)) line" and "pr_input p = line # rest"
    and "mint_call lib [] wallet (Some (JObject kvs)) (tw_mint (pr_state p)) out r'"
  shows "token_step lib et version (\<lambda>_. False) p (p\<lparr>pr_line := Suc (pr_line p), pr_input := rest,
     pr_written := pr_written p @ [writeMessage (tk_js lib) (resultResponse (Some (JNumber ''1'')) (answer_content (wrap_error et out)))],
     pr_state := (pr_state p)\<lparr>tw_mint := r'\<rparr>\<rparr>)"
proof -
  have t: "trim_bytes (dropCR line) = line" "line \<noteq> []" "length line < maxMessageBytes" using assms(1) by (simp_all add: writes_def)
  show ?thesis
    by (rule process_step.answer [where cancelled = "\<lambda>_. False" and wfails = "\<lambda>_. False", OF assms(2) t(3) _ t(1,2)
          mint_dispatched [OF assms(1,3)]]) simp_all
qed

text \<open>Lines that bring the mint tool's registry to \<open>r\<close>, whatever input follows them.\<close>

definition brings :: "token_lib \<Rightarrow> (tool_error \<Rightarrow> string) \<Rightarrow> string \<Rightarrow> token_world \<Rightarrow> bytes list \<Rightarrow> Outcome sessionRegistry \<Rightarrow> bool" where
  "brings lib et version w raws r \<longleftrightarrow> (\<forall>l \<in> set raws. 10 \<notin> set l) \<and>
    (\<forall>rest p. pr_input p = raws @ rest \<longrightarrow> pr_state p = w\<lparr>tw_mint := newMintService\<rparr> \<longrightarrow>
      (\<exists>p'. (token_step lib et version (\<lambda>_. False))\<^sup>*\<^sup>* p p' \<and> pr_input p' = rest \<and> pr_state p' = w\<lparr>tw_mint := r\<rparr>))"

lemma bringsD:
  assumes "brings lib et version w raws r" and "pr_input p = raws @ rest" and "pr_state p = w\<lparr>tw_mint := newMintService\<rparr>"
  obtains p' where "(token_step lib et version (\<lambda>_. False))\<^sup>*\<^sup>* p p'" "pr_input p' = rest" "pr_state p' = w\<lparr>tw_mint := r\<rparr>"
  using assms unfolding brings_def by blast

lemma brings_start: "brings lib et version w [] newMintService"
  unfolding brings_def by auto

lemma brings_call:
  assumes "brings lib et version w raws r1" and "writes (tk_js lib) (mint_request (JObject kvs)) line"
    and "mint_call lib [] wallet (Some (JObject kvs)) r1 out r2"
  shows "brings lib et version w (raws @ [line]) r2"
  unfolding brings_def
proof (intro conjI allI impI)
  show "\<forall>l \<in> set (raws @ [line]). 10 \<notin> set l" using assms(1,2) by (auto simp: writes_def brings_def)
  fix rest and p :: "token_world process"
  assume p: "pr_input p = (raws @ [line]) @ rest" "pr_state p = w\<lparr>tw_mint := newMintService\<rparr>"
  then have "pr_input p = raws @ line # rest" by simp
  with assms(1) p(2) obtain p1 where
    p1: "(token_step lib et version (\<lambda>_. False))\<^sup>*\<^sup>* p p1" "pr_input p1 = line # rest" "pr_state p1 = w\<lparr>tw_mint := r1\<rparr>"
    by (elim bringsD)
  then have "mint_call lib [] wallet (Some (JObject kvs)) (tw_mint (pr_state p1)) out r2" using assms(3) by simp
  from rtranclp.rtrancl_into_rtrancl [OF p1(1) mint_message [OF assms(2) p1(2) this]]
  show "\<exists>p'. (token_step lib et version (\<lambda>_. False))\<^sup>*\<^sup>* p p' \<and> pr_input p' = rest \<and> pr_state p' = w\<lparr>tw_mint := r2\<rparr>"
    by (intro exI conjI) (assumption, simp_all add: p1(3))
qed

lemma brings_idle:
  assumes "brings lib et version w raws r1" and "get sid r1 = Some s" and "drifts s s'"
  shows "brings lib et version w raws (put sid s' r1)"
  unfolding brings_def
proof (intro conjI allI impI)
  show "\<forall>l \<in> set raws. 10 \<notin> set l" using assms(1) by (simp add: brings_def)
  fix rest and p :: "token_world process"
  assume "pr_input p = raws @ rest" "pr_state p = w\<lparr>tw_mint := newMintService\<rparr>"
  with assms(1) obtain p1 where
    p1: "(token_step lib et version (\<lambda>_. False))\<^sup>*\<^sup>* p p1" "pr_input p1 = rest" "pr_state p1 = w\<lparr>tw_mint := r1\<rparr>"
    by (elim bringsD)
  with assms(2,3) have "token_idles (pr_state p1) ((pr_state p1)\<lparr>tw_mint := put sid s' (tw_mint (pr_state p1))\<rparr>)"
    by (intro token_idles.mint) simp_all
  from rtranclp.rtrancl_into_rtrancl [OF p1(1) process_step.idle [where idles = token_idles and p = p1, OF this]]
  show "\<exists>p'. (token_step lib et version (\<lambda>_. False))\<^sup>*\<^sup>* p p' \<and> pr_input p' = rest \<and> pr_state p' = w\<lparr>tw_mint := put sid s' r1\<rparr>"
    by (intro exI conjI) (assumption, simp_all add: p1(2,3))
qed

lemma said_run:
  assumes "(said_step lib)\<^sup>*\<^sup>* newMintService r"
  shows "\<exists>raws. brings lib et version w raws r"
  using assms
proof (induction rule: rtranclp_induct)
  case base
  show ?case using brings_start by blast
next
  case (step r1 r2)
  then obtain raws where raws: "brings lib et version w raws r1" by blast
  from step.hyps(2) show ?case
  proof cases
    case (called a out)
    obtain wallet arguments where a: "a = (wallet, arguments)" by (cases a)
    show ?thesis
    proof (cases "can_say (tk_js lib) arguments")
      case False
      with called a have "r2 = r1" by (auto simp: said_begin_def elim!: call.cases)
      with step.IH show ?thesis by blast
    next
      case True
      then obtain kvs line where line: "arguments = Some (JObject kvs)" "writes (tk_js lib) (mint_request (JObject kvs)) line"
        by (auto simp: can_say_def)
      have "said_begin lib a = mint_begin lib [] wallet (Some (JObject kvs))"
        using True by (intro ext) (simp add: said_begin_def a line(1))
      with called have "mint_call lib [] wallet (Some (JObject kvs)) r1 out r2" by simp
      from brings_call [OF raws line(2) this] show ?thesis by blast
    qed
  next
    case (drifted sid s s')
    with brings_idle [OF raws] show ?thesis by blast
  qed
qed

section \<open>The tool as far as requests can be said\<close>

interpretation said_drives: driven_tool "said_begin lib" "mint_render lib" "tk_js lib" "\<lambda>out. Inr (mint_report lib out)"
  "mint_session_of lib []" "mint_lifecycle k payer pinned wallet spec e" "\<lambda>a. can_say (tk_js lib) (resume_object a)"
  for lib k payer pinned wallet spec e
proof (unfold_locales, goal_cases)
  case (1 a r s)
  then show ?case using mint_sessions.starts [of lib "[]" a r s] by (auto simp: said_begin_def split: prod.splits if_splits)
next
  case (2 a r sid s)
  then show ?case using mint_sessions.resumes [of lib "[]" a r sid s] by (auto simp: said_begin_def split: prod.splits if_splits)
next
  case (3 a r err r')
  then show ?case
    using mint_sessions.refuses [of lib "[]" a r err r']
    by (auto simp: said_begin_def ordinary_def split: prod.splits if_splits)
next
  case (7 a r)
  with resume_object_decodes(1) have "said_begin lib (wallet, resume_object a) r = resume a r" by (simp add: said_begin_def)
  then show ?case by blast
qed (fact mint_sessions.owned_step mint_sessions.owned_idle mint_sessions.renders)+

text \<open>A run of the tool that ends with an answer, as a run of the process.\<close>

lemma said_conversation:
  assumes "(said_step lib)\<^sup>*\<^sup>* newMintService r" and "call (said_begin lib a) (mint_render lib) r (Inr answer_text) r'"
  shows "\<exists>input p0 p. token_main [] input = Inr p0 \<and> (token_step lib et version (\<lambda>_. False))\<^sup>*\<^sup>* p0 p \<and> pr_input p = [] \<and>
    pr_written p \<noteq> [] \<and>
    last (pr_written p) = writeMessage (tk_js lib) (resultResponse (Some (JNumber ''1'')) (toolContent answer_text False))"
proof -
  obtain wallet' arguments' where a: "a = (wallet', arguments')" by (cases a)
  have said: "can_say (tk_js lib) arguments'" using assms(2) by (auto simp: said_begin_def a elim!: call.cases split: if_splits)
  then obtain kvs line where line: "arguments' = Some (JObject kvs)" "writes (tk_js lib) (mint_request (JObject kvs)) line"
    by (auto simp: can_say_def)
  have "said_begin lib a = mint_begin lib [] wallet' (Some (JObject kvs))"
    using said by (intro ext) (simp add: said_begin_def a line(1))
  with assms(2) have last_call: "mint_call lib [] wallet' (Some (JObject kvs)) r (Inr answer_text) r'" by simp
  let ?w = "\<lparr>tw_verify = newVerifyService, tw_mint = newMintService\<rparr>"
  obtain raws where raws: "\<forall>l \<in> set raws. 10 \<notin> set l" and runs: "\<And>rest p. pr_input p = raws @ rest \<Longrightarrow>
      pr_state p = ?w\<lparr>tw_mint := newMintService\<rparr> \<Longrightarrow>
      \<exists>p'. (token_step lib et version (\<lambda>_. False))\<^sup>*\<^sup>* p p' \<and> pr_input p' = rest \<and> pr_state p' = ?w\<lparr>tw_mint := r\<rparr>"
    using said_run [OF assms(1), where w = ?w and et = et and version = version] unfolding brings_def by blast
  let ?input = "input_of (raws @ [line])"
  let ?p0 = "started_process ?input ?w"
  have main: "token_main [] ?input = Inr ?p0" by (simp add: token_main_def parse_flags.simps)
  have "scan_lines ?input = raws @ [line]" using scan_input [of "raws @ [line]"] raws line(2) by (auto simp: writes_def)
  then obtain p1 where p1: "(token_step lib et version (\<lambda>_. False))\<^sup>*\<^sup>* ?p0 p1" "pr_input p1 = [line]" "pr_state p1 = ?w\<lparr>tw_mint := r\<rparr>"
    using runs [of ?p0 "[line]"] by (auto simp: started_process_def)
  have "mint_call lib [] wallet' (Some (JObject kvs)) (tw_mint (pr_state p1)) (Inr answer_text) r'"
    using last_call p1(3) by simp
  from rtranclp.rtrancl_into_rtrancl [OF p1(1) mint_message [OF line(2) p1(2) this]] main
  show ?thesis by (intro exI conjI) (assumption, assumption, simp_all add: answer_content_def)
qed

section \<open>Properties\<close>

text \<open>
  C10: a mint over the process's standard streams. Take any course of events of a mint in which no
  context ends and every reply is one that a call can carry, and let the host's requests be lines
  of JSON that the loop reads. Then there is an input on which the token extension can, with a
  key pair of its choice, go through exactly this mint: it reads the whole input, and when the
  engine has returned, the last message on its output is the answer with the report of the mint's
  outcome.
\<close>

theorem mint_over_the_wire:
  assumes "mint_begin lib [] wallet arguments newMintService = Started (StartMint (tk_sdk lib) payer wallet spec [])"
    and "Mint (tk_sdk lib) payer False wallet spec \<lparr>rpc_id = 0, eng_net = Mainnet\<rparr> es = Result (m, d, err) e' []"
    and "CtxDone \<notin> set es" and "\<And>hr. Reply hr \<in> set es \<Longrightarrow> expressible hr"
    and "can_say (tk_js lib) arguments"
    and "\<And>hr n. Reply hr \<in> set es \<Longrightarrow> n < 2 ^ 64 \<Longrightarrow>
      can_say (tk_js lib) (resume_object (reply_args (''mint-'' @ FormatUint n) hr))"
  shows "\<exists>input p0 p. token_main [] input = Inr p0 \<and> (token_step lib et version (\<lambda>_. False))\<^sup>*\<^sup>* p0 p \<and> pr_input p = [] \<and>
    pr_written p \<noteq> [] \<and> last (pr_written p) = writeMessage (tk_js lib) (resultResponse (Some (JNumber ''1''))
      (toolContent (mint_report lib \<lparr>out_Mint = m, out_Disclosures = d, out_Err = err\<rparr>) False))"
proof -
  let ?e = "\<lparr>rpc_id = 0, eng_net = Mainnet\<rparr>" and ?out = "\<lparr>out_Mint = m, out_Disclosures = d, out_Err = err\<rparr>"
  let ?run = "mint_lifecycle (tk_sdk lib) payer False wallet spec ?e"
  have "StartMint (tk_sdk lib) payer wallet spec [] = launch (newSession ?run)" by (simp add: StartMint_def NewEngine_def)
  then have start: "said_begin lib (wallet, arguments) (newRegistry ''mint-'') = Started (launch (newSession ?run))"
    using assms(1,5) by (simp add: said_begin_def newMintService_def)
  have "\<forall>hr. Reply hr \<in> set es \<longrightarrow> said_drives.carried lib ''mint-'' hr"
    using assms(4,6) by (simp add: said_drives.carried_def)
  note complete = said_drives.complete [OF start assms(3) this, THEN conjunct2, rule_format]
  have "?run es = Result ?out e' []" using assms(2) unfolding mint_lifecycle_def by (simp add: andThen_Result return_def)
  from complete [OF this] obtain r a r' where history: "(said_step lib)\<^sup>*\<^sup>* newMintService r"
    and final: "call (said_begin lib a) (mint_render lib) r (Inr (mint_report lib ?out)) r'"
    unfolding said_drives.concludes_def newMintService_def by blast
  from said_conversation [OF history final] show ?thesis .
qed

text \<open>
  A small syntax in which the sample mint can be said: one byte for the kind of the request, then
  the id of the session.
\<close>

definition sample_answer :: "byte \<Rightarrow> HostReply" where
  "sample_answer b = \<lparr>hr_Signature = zero_signature, hr_Body = [b - 65], hr_Err = None\<rparr>"

definition talk_syntax :: json_syntax where
  "talk_syntax = (tk_js sample_lib)\<lparr>json_parse := (\<lambda>line.
     case line of
       [] \<Rightarrow> None
     | b # sid \<Rightarrow> map_option mint_request (if b = 77 then Some (JObject sample_arguments)
         else resume_object (reply_args (string_of_bytes sid) (sample_answer b))))\<rparr>"

definition visible :: "bytes \<Rightarrow> bool" where
  "visible bs \<longleftrightarrow> (\<forall>b \<in> set bs. 33 \<le> unat b \<and> unat b < 127)"

lemma visible_trim: "visible bs \<Longrightarrow> trim_bytes (dropCR bs) = bs"
proof -
  assume bs: "visible bs"
  have none: "space_prefix space_encodings cs = 0" "space_prefix (map rev space_encodings) cs = 0"
    if "\<forall>c \<in> set cs. 33 \<le> c \<and> c < 127" for cs
    using that by (cases cs; auto simp: space_prefix_def space_encodings_def)+
  have "trim_codes cs = cs" if "\<forall>c \<in> set cs. 33 \<le> c \<and> c < 127" for cs
    using none [of cs] none [of "rev cs"] that by (simp add: trim_codes_def trim_with.simps)
  then have "trim_codes (map unat bs) = map unat bs" using bs by (simp add: visible_def)
  moreover have "dropCR bs = bs"
  proof (cases bs rule: rev_cases)
    case (snoc bs' b)
    with bs have "unat b \<noteq> unat (13 :: byte)" by (auto simp: visible_def)
    with snoc show ?thesis by (auto simp: dropCR_def)
  qed (simp add: dropCR_def)
  ultimately show ?thesis by (simp add: trim_bytes_def comp_def)
qed

lemma FormatUint_visible: "visible (bytes_of_string (FormatUint n))"
proof (induction n rule: FormatUint.induct)
  case (1 n)
  have small: "unat (of_nat m :: byte) = m" if "m < 256" for m using that by (simp add: unat_of_nat)
  have "33 \<le> unat (of_nat (48 + k) :: byte) \<and> unat (of_nat (48 + k) :: byte) < 127" if "k < 10" for k
  proof -
    from that have "unat (of_nat (48 + k) :: byte) = 48 + k" by (intro small) simp
    with that show ?thesis by simp
  qed
  with 1 show ?case
    by (cases "n < 10") (auto simp: FormatUint.simps [of n] visible_def bytes_of_string_def)
qed

lemma FormatUint_short: "n < 10 ^ k \<Longrightarrow> 0 < k \<Longrightarrow> length (FormatUint n) \<le> k"
proof (induction k arbitrary: n)
  case (Suc k)
  show ?case
  proof (cases "n < 10")
    case False
    with Suc.prems have "n div 10 < 10 ^ k" "0 < k" by (cases k; simp add: div_less_iff_less_mult mult.commute)+
    with Suc.IH False show ?thesis by (simp add: FormatUint.simps [of n])
  qed (simp add: FormatUint.simps [of n])
qed simp

lemma talk_says:
  "can_say talk_syntax (Some (JObject sample_arguments))"
  "b = 65 \<or> b = 66 \<Longrightarrow> n < 2 ^ 64 \<Longrightarrow> can_say talk_syntax (resume_object (reply_args (''mint-'' @ FormatUint n) (sample_answer b)))"
proof -
  have said: "can_say talk_syntax (Some (JObject kvs))"
    if "visible line" "line \<noteq> []" "length line < 100" "json_parse talk_syntax line = Some (mint_request (JObject kvs))" for kvs line
  proof -
    have "10 \<notin> set line" using that(1) by (auto simp: visible_def)
    with that visible_trim [OF that(1)] show ?thesis by (auto simp: can_say_def writes_def maxMessageBytes_def)
  qed
  show "can_say talk_syntax (Some (JObject sample_arguments))"
    by (rule said [of "[77]"]) (simp_all add: visible_def talk_syntax_def)
  assume b: "b = 65 \<or> b = 66" and n: "n < 2 ^ 64"
  let ?sid = "''mint-'' @ FormatUint n"
  have "(2 :: nat) ^ 64 \<le> 10 ^ 20" by simp
  with n have "n < 10 ^ 20" by (rule less_le_trans)
  then have "length (FormatUint n) \<le> 20" by (rule FormatUint_short) simp
  then have "length (b # bytes_of_string ?sid) < 100" by simp
  moreover have "visible (b # bytes_of_string ?sid)"
    using b FormatUint_visible [of n] by (auto simp: visible_def bytes_of_string_def)
  moreover have "json_parse talk_syntax (b # bytes_of_string ?sid) =
      map_option mint_request (resume_object (reply_args ?sid (sample_answer b)))" using b by (auto simp: talk_syntax_def)
  ultimately show "can_say talk_syntax (resume_object (reply_args ?sid (sample_answer b)))"
    using said unfolding resume_object_def option.map by blast
qed

theorem mint_over_the_wire_witness:
  "\<exists>input p0 p d. token_main [] input = Inr p0 \<and>
    (token_step (sample_lib\<lparr>tk_js := talk_syntax\<rparr>) (\<lambda>_. []) ''1'' (\<lambda>_. False))\<^sup>*\<^sup>* p0 p \<and> pr_input p = [] \<and> pr_written p \<noteq> [] \<and>
    last (pr_written p) = writeMessage talk_syntax (resultResponse (Some (JNumber ''1'')) (toolContent
      (mint_report (sample_lib\<lparr>tk_js := talk_syntax\<rparr>) \<lparr>out_Mint = sample_mint, out_Disclosures = d, out_Err = None\<rparr>) False))"
proof -
  let ?lib = "sample_lib\<lparr>tk_js := talk_syntax\<rparr>" and ?es = "sample_prefix @ sample_rest"
  have lib: "tk_sdk ?lib = sample_sdk" "tk_js ?lib = talk_syntax" by (simp_all add: sample_lib_def)
  obtain d st' where run: "Mint (tk_sdk ?lib) sample_payer False (sample_mint, [1]) sample_spec \<lparr>rpc_id = 0, eng_net = Mainnet\<rparr> ?es =
      Result (sample_mint, d, None) st' []" unfolding lib using sample_succeeds by (auto simp: sample_state_def)
  have start: "mint_begin ?lib [] (sample_mint, [1]) (Some (JObject sample_arguments)) newMintService =
      Started (StartMint (tk_sdk ?lib) sample_payer (sample_mint, [1]) sample_spec [])"
    unfolding lib mint_begin_syntax sample_begin sample_session_def ..
  have answers: "hr = sample_answer 65 \<or> hr = sample_answer 66" if "Reply hr \<in> set ?es" for hr
    using that by (auto simp: sample_prefix_def sample_rest_def answer_def sample_answer_def)
  have es: "CtxDone \<notin> set ?es" "\<And>hr. Reply hr \<in> set ?es \<Longrightarrow> expressible hr"
    by (auto simp: sample_prefix_def sample_rest_def answer_def expressible_def)
  have "can_say (tk_js ?lib) (resume_object (reply_args (''mint-'' @ FormatUint n) hr))" if "Reply hr \<in> set ?es" "n < 2 ^ 64" for hr n
    using answers [OF that(1)] talk_says(2) [OF _ that(2)] unfolding lib by auto
  from mint_over_the_wire [OF start run es _ this, where et = "\<lambda>_. []" and version = "''1''"] talk_says(1) show ?thesis unfolding lib by blast
qed

end
