(* ===== verification/Signer_Process.thy ===== *)
theory Signer_Process
  imports Signer_Cmd Mcp_Process
begin

text \<open>
  What the Solana signer writes to its host (\<open>src/cmd/solana-signer/main.go\<close> over
  \<open>src/signer/signer.go\<close>). The answers of the two tools are classified by \<open>signer_says\<close>, for any
  policy that meets its contract; the loop of \<open>mcpserver\<close> adds only its own messages, by the
  interface \<open>process_output\<close> of \<open>Mcp_Process\<close>.
\<close>

section \<open>The answers of the tools\<close>

inductive signer_says ::
  "json_syntax \<Rightarrow> ('e signer_error \<Rightarrow> string) \<Rightarrow> Opener \<Rightarrow> (bytes \<Rightarrow> bytes \<Rightarrow> bool) \<Rightarrow> string + string \<Rightarrow> bool"
  for js et opn safe where
  refused: "signer_says js et opn safe (Inl (et err))"
| unlocked: "opened opn key \<Longrightarrow> signer_says js et opn safe (Inr (unlock_reply js key))"
| signed: "opened opn key \<Longrightarrow> safe_call safe (Public key, payload) \<Longrightarrow> Sign key payload = Inr sig \<Longrightarrow>
    signer_says js et opn safe (Inr (sign_reply js sig))"

lemma openedI: "opn passphrase path = Inr key \<Longrightarrow> opened opn key"
  unfolding opened_def by blast

lemma unlock_says: "unlock_handler js opn pol v input = (out, v') \<Longrightarrow> signer_says js et opn safe (wrap_error et out)"
  by (auto simp: unlock_handler_def Let_def split: option.splits sum.splits)
    (assumption | rule signer_says.refused signer_says.unlocked openedI)+

context signing_policy
begin

lemma sign_says:
  assumes "sign_handler js pol v input = (out, v')" and "custody_inv opn v" and "vault_inv guards safe v"
  shows "signer_says js et opn safe (wrap_error et out)"
  using assms
  by (auto simp: sign_handler_def custody_inv_def vault_inv_def Let_def split: option.splits sum.splits if_splits)
    (rule signer_says.refused | rule signer_says.signed, assumption, auto simp: safe_call_def intro: approves_safe)+

lemma signer_output:
  "process_output (signer_server js et name version opn pol) (tool_handles (signer_server js et name version opn pol))
     (\<lambda>_ _. False) (\<lambda>v. custody_inv opn v \<and> vault_inv guards safe v) (signer_says js et opn safe)"
proof (unfold_locales, goal_cases)
  case (1 tool v args out v')
  let ?server = "signer_server js et name version opn pol"
  obtain t where t: "srv_tools ?server tool = Some t" "Handler t v args = (out, v')"
    using 1(3) by (auto simp: tool_handles_def)
  have "custody_inv opn (snd (Handler t v args))" using custody.handler_inv [OF t(1)] 1(2) by blast
  moreover have "vault_inv guards safe (snd (Handler t v args))"
    using tool_invariant.handler_inv [OF server_tool_invariant t(1)] 1(2) by blast
  moreover have "signer_says js et opn safe out"
  proof -
    consider "t = unlockTool js et opn pol" | "t = signTool js et pol"
      using t(1) by (auto simp: signer_server_tools split: if_splits)
    then show ?thesis
    proof cases
      case 1
      with t(2) unlock_says show ?thesis by (auto simp: unlockTool_def as_handler_def split: prod.splits)
    next
      case 2
      with t(2) sign_says 1(2) show ?thesis by (auto simp: signTool_def as_handler_def split: prod.splits)
    qed
  qed
  ultimately show ?case using t(2) by simp
qed simp

end

interpretation solana_output: process_output "signer_server js et name version opn solana_policy"
  "tool_handles (signer_server js et name version opn solana_policy)" "\<lambda>_ _. False"
  "\<lambda>v. custody_inv opn v \<and> vault_inv (\<lambda>p k. Payer p = k) solana_safe v" "signer_says js et opn solana_safe"
  for js et name version opn
  by (rule solana.signer_output)

section \<open>Properties\<close>

text \<open>
  C9: everything the Solana signer ever writes. However the binary is invoked and whatever arrives
  on its input, every message on its output is one well-formed response: an error of the
  protocol, the server's description or list of tools, an empty result, or the content of a
  tool's answer. A tool's answer is the text of an error, the public half of a key that came out
  of a sealed file under a passphrase, or a signature by such a key over a message that the
  policy grants to it. Nothing is written when the binary seals a key or rejects its flags.
\<close>

theorem signer_process_output:
  assumes "signer_main c js fs rnd ktext et cancelled version inp rerr input wfails f args = (code, f', out, v)"
    and "msg \<in> set out"
  shows "\<exists>vals r. parse_flags [(''key'', [])] args = Inr vals \<and> v \<noteq> None \<and> msg = writeMessage js r \<and>
    proper_response
      (signer_server js et ''solana-signer'' version (open_closure c js fs f ktext (flag_value vals ''key'')) solana_policy)
      (signer_says js et (open_closure c js fs f ktext (flag_value vals ''key'')) solana_safe) r"
proof (cases "0 < length args \<and> args ! 0 = ''seal''")
  case True
  with assms show ?thesis
    by (cases "seal c js fs rnd inp f (drop 1 args)") (simp add: signer_main_def run_cmd_def)
next
  case False
  then have "run_cmd (seal c js fs rnd inp f)
      (\<lambda>args. serveWith c js fs f ktext et cancelled version args rerr input wfails) args =
      Inr (serveWith c js fs f ktext et cancelled version args rerr input wfails)"
    by (simp only: run_cmd_def if_False)
  with assms(1) obtain err where served: "serveWith c js fs f ktext et cancelled version args rerr input wfails = (err, out, v)"
    by (auto simp: signer_main_def split: prod.splits)
  with assms(2) obtain vals where vals: "parse_flags [(''key'', [])] args = Inr vals"
    by (auto simp: serveWith_def split: sum.splits)
  let ?opn = "open_closure c js fs f ktext (flag_value vals ''key'')"
  let ?server = "signer_server js et ''solana-signer'' version ?opn solana_policy"
  let ?vault = "locked_vault \<lparr>Payer = []\<rparr>"
  obtain err' v' where "Serve js ?server cancelled wfails rerr input ?vault = (err', out, v')" and v: "v = Some v'"
    using served by (auto simp: serveWith_def vals signer_Serve_def split: prod.splits)
  then have lines: "serve_lines js ?server cancelled wfails rerr 0 (scan_lines input) [] ?vault = (err', out, v')"
    by (simp add: Serve_def)
  have locked: "custody_inv ?opn ?vault \<and> vault_inv (\<lambda>p k. Payer p = k) solana_safe ?vault"
    by (simp add: custody_inv_def vault_inv_def locked_vault_def)
  from solana_output.served_output [OF refl locked lines] assms(2) vals v show ?thesis by auto
qed

text \<open>One request, the unlocking of the sample key with its passphrase.\<close>

abbreviation sample_wire_syntax :: json_syntax where
  "sample_wire_syntax \<equiv> Signer_Harness.sample_session (Some (sealed_json sample_sealed))"

abbreviation sample_opener :: "string \<Rightarrow> Opener" where
  "sample_opener \<equiv> open_closure sample_crypto sample_wire_syntax sample_files [''k'' \<mapsto> [1]] (\<lambda>_. [])"

lemma sample_unlock_served:
  "\<exists>v. signer_main sample_crypto sample_wire_syntax sample_files (\<lambda>_ _. Inr []) (\<lambda>_. []) (\<lambda>_. []) (\<lambda>_. False) ''dev''
      (Pipe [] None) None [85, 10] (\<lambda>_. False) [''k'' \<mapsto> [1]] [''--key'', ''k''] =
    (0, [''k'' \<mapsto> [1]], [writeMessage sample_wire_syntax (resultResponse (Some (JNumber ''1''))
       (toolContent (unlock_reply sample_wire_syntax \<lparr>Public = replicate 32 5, Curve = ''ed25519'',
          Sign = (\<lambda>m. Inr (ed25519_Sign sample_crypto (replicate 64 5) m))\<rparr>) False))], Some v)"
proof -
  have vals: "parse_flags [(''key'', [])] [''--key'', ''k''] = Inr [(''key'', ''k'')]"
    by (simp add: parse_flags.simps split_at_equals_def)
  have opens: "sample_opener ''k'' (bytes_of_string ''pw'') [] = Inr \<lparr>Public = replicate 32 5, Curve = ''ed25519'',
      Sign = (\<lambda>m. Inr (ed25519_Sign sample_crypto (replicate 64 5) m))\<rparr>"
    by (simp add: open_closure_def sample_opens)
  have dec: "decode_unlock (Some (JObject [(''passphrase'', JString ''pw'')])) = Some (''pw'', [])"
    by (simp add: decode_unlock_def json_members_def matches_field_def upper_char_def)
  have parse: "json_parse sample_wire_syntax [85] = Some (sample_call ''signer_unlock'' (JObject [(''passphrase'', JString ''pw'')]))"
    by (simp add: sample_session_def)
  have trims: "trim_bytes [85] = [85]" "trim_bytes [] = []"
    by (simp_all add: trim_bytes_def trim_codes_def trim_with.simps space_prefix_def space_encodings_def)
  note server = dispatch_def decode_request_def callResult_def decode_call_def sample_call_def json_members_def
    matches_field_def upper_char_def signer_server_tools UnlockTool_def SignTool_def unlockTool_def signTool_def as_handler_def
  show ?thesis
    by (simp add: signer_main_def run_cmd_def exit_code_def serveWith_def vals flag_value_def signer_Serve_def Serve_def
        dropCR_def trims maxMessageBytes_def server parse unlock_handler_def dec opens solana_policy_def Let_def)
qed

theorem signer_process_output_witness:
  "\<exists>out v msg vals r. signer_main sample_crypto sample_wire_syntax sample_files (\<lambda>_ _. Inr []) (\<lambda>_. []) (\<lambda>_. []) (\<lambda>_. False)
      ''dev'' (Pipe [] None) None [85, 10] (\<lambda>_. False) [''k'' \<mapsto> [1]] [''--key'', ''k''] = (0, [''k'' \<mapsto> [1]], out, v) \<and>
    msg \<in> set out \<and> msg = writeMessage sample_wire_syntax r \<and>
    proper_response
      (signer_server sample_wire_syntax (\<lambda>_. []) ''solana-signer'' ''dev'' (sample_opener (flag_value vals ''key'')) solana_policy)
      (signer_says sample_wire_syntax (\<lambda>_ :: refusal signer_error. []) (sample_opener (flag_value vals ''key'')) solana_safe) r"
proof -
  let ?m = "writeMessage sample_wire_syntax (resultResponse (Some (JNumber ''1''))
       (toolContent (unlock_reply sample_wire_syntax \<lparr>Public = replicate 32 5, Curve = ''ed25519'',
          Sign = (\<lambda>m. Inr (ed25519_Sign sample_crypto (replicate 64 5) m))\<rparr>) False))"
  obtain v where s: "signer_main sample_crypto sample_wire_syntax sample_files (\<lambda>_ _. Inr []) (\<lambda>_. []) (\<lambda>_. []) (\<lambda>_. False) ''dev''
      (Pipe [] None) None [85, 10] (\<lambda>_. False) [''k'' \<mapsto> [1]] [''--key'', ''k''] = (0, [''k'' \<mapsto> [1]], [?m], Some v)"
    using sample_unlock_served by blast
  from signer_process_output [OF s, of ?m] obtain vals r where r: "?m = writeMessage sample_wire_syntax r" "proper_response
      (signer_server sample_wire_syntax (\<lambda>_. []) ''solana-signer'' ''dev'' (sample_opener (flag_value vals ''key'')) solana_policy)
      (signer_says sample_wire_syntax (\<lambda>_ :: refusal signer_error. []) (sample_opener (flag_value vals ''key'')) solana_safe) r" by auto
  show ?thesis by (intro exI conjI, rule s, rule list.set_intros, rule r, rule r)
qed

end
