(* ===== verification/Spec2Isabelle.thy ===== *)
theory Spec2Isabelle
  imports Signing_Handshake Tool_Types Token_Pacing Token_Deadlines Session_Close Token_Refusal Token_Verify
    Token_Requests
    Token_Conversation Signer_Process
begin

text \<open>
  Verification of the Flynn extensions: a Solana signer and a token engine.

  The repository holds programs that a host launches as separate processes and speaks to over
  JSON-RPC on standard input and output. The token extension (\<open>src/cmd/token\<close>, \<open>src/token\<close>) builds
  a transaction that mints a token of fixed supply; it has no key and no network, and hands
  every message to sign and every request to send back to its host. The signer
  (\<open>src/cmd/solana-signer\<close>, \<open>src/signer\<close>, \<open>src/solana\<close>) holds the key and reads a transaction with a
  parser and a policy of its own before it signs. Neither trusts the other. Both use the tool
  server of \<open>src/mcpserver\<close>; \<open>src/clock\<close> is the time source of the token engine and its tests.
\<open>src/cmd/example\<close> is the template of an extension.

  \<^bold>\<open>Conventions.\<close> A Go function that returns a value and an error is a function into a sum, an
  error alone an option; machine integers are words; a Go string is a list of bytes. A struct
  is a record, with the fields' names shortened by a prefix; definitions otherwise carry the
  names of the functions they translate. What the program takes from outside is an argument:
  the text syntax of JSON (\<open>json_syntax\<close>), cryptography, randomness and the file system
  (\<open>Signer_Key\<close>), the Solana client library (record \<open>sdk\<close>), URL parsing (\<open>url_lib\<close>), base58 texts
  of keys and the wording of errors (\<open>token_lib\<close>). Where a theorem relies on such an argument,
  the assumption is a named predicate and a witness instantiates it.

  \<^bold>\<open>Foundations.\<close>
  \<^item> \<open>Flynn_Prelude\<close>: Go's types, error results, word lemmas, the locale \<open>guarded_machine\<close>.
  \<^item> \<open>Go_Strings\<close>: \<open>strings\<close>, \<open>strconv\<close> and \<open>base64\<close>, with the base64 round trip.
  \<^item> \<open>Json_Values\<close>: JSON trees and the decoding of a tree into a struct. \<open>Go_Flags\<close>: the parsing
    of command line flags.

  \<^bold>\<open>The signer.\<close>
  \<^item> \<open>Solana_Message\<close> (\<open>solana/message.go\<close>): the bounds-checked parser recognises exactly the
    grammar of legacy messages; lengths are canonical; base58 is positional evaluation.
  \<^item> \<open>Solana_Policy\<close> (\<open>solana/solana.go\<close>): \<open>Approve\<close> is the predicate \<open>approvable\<close>; two messages it
    accepts although the comments say otherwise.
  \<^item> \<open>Mcp_Server\<close> (\<open>mcpserver/server.go\<close>): one answer per answerable line; locale
    \<open>tool_invariant\<close>, which lifts what each handler keeps to whole input streams. \<open>Mcp_Process\<close>:
    the same loop as a process, for handlers that wait; locale \<open>process_output\<close> is what the tools
    must keep so that everything the process writes is of a certain kind.
  \<^item> \<open>Signer_Harness\<close> (\<open>signer/signer.go\<close>): the vault and its two tools; locale \<open>signing_policy\<close>,
    the contract between harness and policy, interpreted for the Solana policy.
  \<^item> \<open>Signer_Key\<close> (\<open>signer/key.go\<close>) and \<open>Signer_Cmd\<close> (\<open>cmd/solana-signer/main.go\<close>): sealed keys, and
    the program that seals one or serves it, up to its exit code. \<open>Signer_Process\<close>: all that
    this program ever writes to its host.

  \<^bold>\<open>The token extension.\<close>
  \<^item> \<open>Token_Safety\<close>, \<open>Token_Impersonation\<close> (\<open>token/safety\<close>): the guard is the predicate \<open>harmless\<close>;
    a name is refused exactly if it spells a brand in the listed look-alikes.
  \<^item> \<open>Token_Network\<close>, \<open>Token_Encoding\<close> (\<open>token/network.go\<close>, \<open>borsh.go\<close>, \<open>address.go\<close>).
  \<^item> \<open>Host_Calls\<close> (\<open>token/hostrpc.go\<close> and the request types of \<open>session.go\<close>): an engine is an
    \<open>action\<close>, a function of its state and the list of events at its waiting points that says
    where it waits next or what it returns. \<open>Host_Runs\<close> has the laws of such runs, with rules for
    sequence, choice and loops: locale \<open>replayable\<close>, what an action asks for, in which order it
    waits.
  \<^item> \<open>Token_Engine\<close> (\<open>token/engine.go\<close>, \<open>atomic.go\<close>): amounts never wrap; a transaction is declared
    landed or dead only on the chain's word. The loop of \<open>confirmOrExpire\<close> uses an event in every
    turn, so it is a total function of the event list.
  \<^item> \<open>Token_Mint\<close> (\<open>token/mint.go\<close>): what is signed, when, how often; what is reported as success.
    \<open>Token_Requests\<close>: the requests it makes, with their commitments. \<open>Token_Refusal\<close>: how a mint ends
    whose host refuses the signature.
  \<^item> \<open>Token_Session\<close> (\<open>token/session.go\<close>): engine and driver as a transition system over unbuffered
    channels; locale \<open>lifecycle\<close> is what a session needs of its engine, interpreted for mint and
    verify. The session refines the engine and its calls return while no context has ended;
    after that a late reply blocks the driver for ever. \<open>Token_Deadlines\<close> lets the deadlines of a
    mint pass when their time has come: for three minutes none of this happens. \<open>Session_Close\<close>:
    a closed session unwinds, unless it waits for a signature.
  \<^item> \<open>Clock_Interface\<close>, \<open>Manual_Clock\<close>, \<open>System_Clock\<close> (\<open>clock\<close>): the interface \<open>Timing\<close> with the
    contract of its timers as a locale, which the deterministic clock and the clock over Go's
    runtime both keep: a timer delivers at most once per arming and never after a stop that
    found it pending. What the two clocks do not agree on is what \<open>Stop\<close> says of a timer that
    has fired unread.
  \<^item> \<open>Token_Pacing\<close>: sessions on a clock. On every clock that moves forward, the system clock and the
    manual clock while it is only advanced, each turn of the confirmation loop comes a whole
    interval after the one before.
  \<^item> \<open>Token_Registry\<close>, \<open>Token_Cmd\<close>, \<open>Token_Process\<close> (\<open>cmd/token/main.go\<close>): the registry, the host's
    answers and calls that hand a session on and wait for its driver, with the locale
    \<open>session_tool\<close> for what a tool must do with its sessions; the two tools, interpretations of it;
    \<open>main\<close>, both tools on the message loop while sessions of both registries run.
  \<^item> \<open>Token_Drive\<close>: locale \<open>driven_tool\<close>, the contracts of a tool and of an engine together; every
    run of the engine can be brought about by calls of the tool. \<open>Token_Conversation\<close>: by lines on
    the standard input of the process, as far as JSON can say them.
  \<^item> \<open>Token_Verify\<close>: the report of the verify tool, as a function of the account read.
  \<^item> \<open>Example_Cmd\<close> (\<open>cmd/example/main.go\<close>): the template extension.
  \<^item> \<open>Tool_Types\<close>: the argument structs of all five tools as types, when decoding fails, and which
    calls are refused although they conform to the advertised schema.

  \<^bold>\<open>Across components\<close>, below: the signer's policy approves every message the token tool asks
  to have signed, and a host that passes strings on brings the message to the key and the
  signature back to the session. \<open>Signing_Handshake\<close> has the assumptions on the client library and
  on JSON texts, with instances that meet them.

  \<^bold>\<open>Bounds.\<close> No definition uses fuel. The ids of sessions are distinct for fewer than
  \<open>2 ^ 64 - 1\<close> steps, as the counter has 64 bits. A wait ends with its context only when that
  context has ended: by cancellation of the session, or by its own deadline. In \<open>Token_Session\<close> a
  deadline may pass at any moment; \<open>Token_Deadlines\<close> gives them their five and three minutes.
  The waits of the polling loop are put on a clock in \<open>Token_Pacing\<close>.

  \<^bold>\<open>Not modelled.\<close> The wiring of the client library to the transport; the constant
  \<open>revokeAttempts\<close>, which is not used; what is printed to standard error; \<open>internal/rigor\<close>, a
  test. Goroutines of different sessions do not share state, and the mutexes of the registry, the
  vault and the clock guard single operations, so interleaving is at the granularity of operations.
  The key file does not change while the signer serves. A panic of the engine, which would end the
  process, is an outcome of its session (\<open>Panicked\<close>).
\<close>

section \<open>The token extension and the signer agree\<close>

text \<open>
  C5: the signer signs what the token tool asks for. Every request to sign that the mint tool
  hands to its host, one that comes from a guarded mint, is a message the Solana signing
  policy approves for the key the request names. So the policy, which knows nothing of the
  extension, never stands in the way of an honest mint.
\<close>

theorem signer_approves_guarded_mint:
  assumes "builders_standard k" and "serialises_standard k" and "guarded_request k rq"
  shows "Approve \<lparr>Payer = sr_Pubkey rq\<rparr> (sr_Message rq) = None"
  using assms by (rule guarded_request_approved)

theorem signer_approves_guarded_mint_witness:
  "\<exists>rq. guarded_request wire_sdk rq \<and> Approve \<lparr>Payer = sample_payer\<rparr> (sr_Message rq) = None"
  using wire_sdk_request signer_approves_guarded_mint [OF wire_sdk_standard] by metis

text \<open>
  C6: a signature makes the round trip between the two processes. In any history of
  the mint tool that leaves a session waiting for a signature, with the signer unlocked with the
  key the request names:
  the host passes strings on without understanding them, the message of the tool's reply as
  the payload of the signer's tool, the signature of the signer's reply as the answer to the
  session; then the signer signs exactly the message of the pending request, and the session
  is advanced with exactly the signature its key made.
\<close>

theorem handshake_delivers_signature:
  assumes "builders_standard (tk_sdk lib)" and "serialises_standard (tk_sdk lib)" and "syntax_plain (tk_js lib)"
    and "(mint_step lib opts)\<^sup>*\<^sup>* newMintService r"
    and "get sid r = Some s" and "Pending s = Some (SignCall rq)"
    and "unlock_handler (tk_js lib) opn solana_policy v0 i = (Inr ack, v)"
    and "vault_key v = Some key" and "Public key = sr_Pubkey rq"
    and "Sign key (sr_Message rq) = Inr sig" and "length sig = 64" and "length (sr_Message rq) \<le> maxPayloadBytes"
  shows "\<exists>message text signature.
    json_parse (tk_js lib) (bytes_of_string (pendingReply (tk_js lib) sid (SignCall rq))) =
      Some (JObject [(''session'', JString sid), (''sign'', JObject [(''message'', JString message)])]) \<and>
    sign_handler (tk_js lib) solana_policy v (Some (JObject [(''payload'', JString message)])) =
      (Inr text, v\<lparr>sign_calls := (Public key, sr_Message rq) # sign_calls v\<rparr>) \<and>
    json_parse (tk_js lib) (bytes_of_string text) = Some (JObject [(''signature'', JString signature)]) \<and>
    mint_begin lib opts wallet (signature_arguments sid signature) r =
      Resumed sid (s\<lparr>s_pending := None, s_driver := Sending (zero_reply\<lparr>hr_Signature := sig\<rparr>)\<rparr>)"
proof -
  note history = assms(4) [unfolded newMintService_def]
  have s: "mint_session_of lib opts s" "parked s"
    using mint_sessions.inv_reachable [OF history] assms(5) by (auto simp: mint_sessions.registry_inv_def)
  have "guarded_request (tk_sdk lib) rq"
    using pending_sign_guarded [OF s(1)] assms(6) by (simp add: Pending_def)
  with guarded_request_approved [OF assms(1,2)] have approved: "Approve \<lparr>Payer = Public key\<rparr> (sr_Message rq) = None"
    by (simp add: assms(9))
  then have "sr_Message rq \<noteq> []" using solana_safe_nonempty by (auto simp: Approve_iff solana_safe_def)
  note sign = unlocked_signs [OF assms(7,8) approved assms(10) this assms(12)]
  from mint_id_plain [OF mint_sessions.named_reachable [OF history] assms(5)] have sid: "plain_string sid" "sid \<noteq> []" by blast+
  show ?thesis
    using pending_sign_text [OF assms(3) sid(1), of rq] sign sign_reply_text [OF assms(3), of sig]
      resume_with_signature [OF sid(2) assms(5) s(2) assms(11)] by blast
qed

theorem handshake_delivers_signature_witness:
  "\<exists>lib r sid s rq v message text signature. (mint_step lib [])\<^sup>*\<^sup>* newMintService r \<and>
     get sid r = Some s \<and> Pending s = Some (SignCall rq) \<and>
     sign_handler (tk_js lib) solana_policy v (Some (JObject [(''payload'', JString message)])) =
       (Inr text, v\<lparr>sign_calls := [(sample_payer, sr_Message rq)]\<rparr>) \<and>
     json_parse (tk_js lib) (bytes_of_string text) = Some (JObject [(''signature'', JString signature)]) \<and>
     mint_begin lib [] (sample_mint, [1]) (signature_arguments sid signature) r =
       Resumed sid (s\<lparr>s_pending := None, s_driver := Sending (zero_reply\<lparr>hr_Signature := replicate 64 3\<rparr>)\<rparr>)"
proof -
  let ?lib = "sample_lib\<lparr>tk_sdk := wire_sdk, tk_js := counting_syntax\<rparr>"
    and ?v = "\<lparr>vault_key = Some sample_key, vault_policy = \<lparr>Payer = sample_payer\<rparr>, sign_calls = []\<rparr>"
  obtain r sid s msg where r: "(mint_step ?lib [])\<^sup>*\<^sup>* newMintService r" "get sid r = Some s"
    "Pending s = Some (SignCall \<lparr>sr_Pubkey = sample_payer, sr_Message = msg\<rparr>)" "length msg \<le> maxPayloadBytes"
    by (rule wire_registry)
  have lib: "builders_standard (tk_sdk ?lib)" "serialises_standard (tk_sdk ?lib)" "syntax_plain (tk_js ?lib)"
    using wire_sdk_standard counting_syntax_plain by simp_all
  have key: "vault_key ?v = Some sample_key" "Public sample_key = sr_Pubkey \<lparr>sr_Pubkey = sample_payer, sr_Message = msg\<rparr>"
    "Sign sample_key (sr_Message \<lparr>sr_Pubkey = sample_payer, sr_Message = msg\<rparr>) = Inr (replicate 64 3)"
    by (simp_all add: sample_key_def)
  have small: "length (sr_Message \<lparr>sr_Pubkey = sample_payer, sr_Message = msg\<rparr>) \<le> maxPayloadBytes" using r(4) by simp
  have "sign_calls ?v = []" "Public sample_key = sample_payer" by (simp_all add: sample_key_def)
  with handshake_delivers_signature [OF lib r(1-3) sample_unlock key _ small, of "(sample_mint, [1])"] r
  show ?thesis by (metis length_replicate)
qed

end
